(* ===== verification/GoPrelude.thy ===== *)
theory GoPrelude
  imports Main "HOL-Library.AList" "HOL-Library.Char_ord" "HOL-Library.List_Lexorder"
begin

text \<open>
  The shared layer of the development: the value types the Go sources use, the error
  values, and the generic facts every component relies on.

  \<^item> A Go \<^verbatim>\<open>map[K]V\<close> that some operation ranges over is an association list with distinct
    keys: the list is one order in which the runtime may enumerate the map, so a theorem about
    every state covers every enumeration order. It is read with \<^const>\<open>map_of\<close>, written with
    \<^const>\<open>AList.update\<close> and deleted from with \<^const>\<open>AList.delete\<close>. A map that is only
    looked up is a partial function, and a nested map whose outer entry may be \<^verbatim>\<open>nil\<close> is
    read with \<open>lookup2\<close>.
  \<^item> A \<^verbatim>\<open>map[string]bool\<close> that is only ever set to true is a list without duplicates.
  \<^item> \<^verbatim>\<open>time.Time\<close> is the number of nanoseconds since Go's zero time, so
    \<^verbatim>\<open>IsZero\<close> is equality with 0.
  \<^item> A Go string is a list of bytes; \<open><\<close> on it is byte-wise lexicographic order.
  \<^item> An error return is the left side of a sum; a run-time panic is the error \<open>Panic\<close>.
\<close>

type_synonym bytes = string
type_synonym time = int
type_synonym tenant = string
type_synonym txid = string
type_synonym entityid = string

datatype gerror =
    ErrNotFound
  | ErrConflict
  | ErrTxNotFound
  | ErrTxRolledBack
  | ErrTxAlreadyCommitted
  | ErrTxTenantMismatch
  | ErrTxCommitInProgress
  | ErrSavepointNotFound
  | ErrUniqueViolation
  | ErrPartialUniqueKey
  | ErrSearchResultLimitExceeded
  | ErrInvalidFilterPath
  | ErrGroupCardinalityExceeded
  | ErrAlreadyTerminal
  | ErrStaleClaim
  | ErrContext
  | ErrMsg string
  | Panic string

type_synonym 'a result = "gerror + 'a"

abbreviation Ok :: "'a \<Rightarrow> 'a result" where
  "Ok x \<equiv> Inr x"

abbreviation Err :: "gerror \<Rightarrow> 'a result" where
  "Err e \<equiv> Inl e"

definition microsecond :: time where
  "microsecond = 1000"

definition hour :: time where
  "hour = 3600 * 1000000000"

definition lookup2 :: "('a \<rightharpoonup> ('b \<rightharpoonup> 'c)) \<Rightarrow> 'a \<Rightarrow> 'b \<Rightarrow> 'c option" where
  "lookup2 m a b = (case m a of None \<Rightarrow> None | Some n \<Rightarrow> n b)"

definition update2 :: "('a \<rightharpoonup> ('b \<rightharpoonup> 'c)) \<Rightarrow> 'a \<Rightarrow> 'b \<Rightarrow> 'c \<Rightarrow> ('a \<rightharpoonup> ('b \<rightharpoonup> 'c))" where
  "update2 m a b c =
     m(a \<mapsto> (case m a of None \<Rightarrow> Map.empty | Some n \<Rightarrow> n)(b \<mapsto> c))"

definition or_nil :: "'a list option \<Rightarrow> 'a list" where
  "or_nil xs = (case xs of None \<Rightarrow> [] | Some ys \<Rightarrow> ys)"

text \<open>
  A Go slice that is resliced upwards: the visible elements, and the elements left behind in the
  backing array past its length. \<^verbatim>\<open>append\<close> overwrites the first of those in place, and
  \<^verbatim>\<open>s[:l]\<close> reaches back into them when \<open>l\<close> exceeds the length. Past everything ever written the
  source either panics or exposes nil entries, depending on the runtime's growth policy; both are
  \<open>None\<close>.
\<close>

record 'a slice =
  sl_elems :: "'a list"
  sl_stale :: "'a list"

definition slice_nil :: "'a slice" where
  "slice_nil = \<lparr>sl_elems = [], sl_stale = []\<rparr>"

definition slice_append :: "'a \<Rightarrow> 'a slice \<Rightarrow> 'a slice" where
  "slice_append x s = \<lparr>sl_elems = sl_elems s @ [x], sl_stale = tl (sl_stale s)\<rparr>"

definition slice_to :: "nat \<Rightarrow> 'a slice \<Rightarrow> 'a slice option" where
  "slice_to l s =
     (let xs = sl_elems s @ sl_stale s
      in if l \<le> length xs then Some \<lparr>sl_elems = take l xs, sl_stale = drop l xs\<rparr> else None)"

text \<open>The value of a 64-bit signed integer expression whose mathematical value is \<open>x\<close>.\<close>

definition wrap64 :: "int \<Rightarrow> int" where
  "wrap64 x = (x + 2 ^ 63) mod 2 ^ 64 - 2 ^ 63"

text \<open>
  A scan with the amortised cancellation check \<^verbatim>\<open>if i&1023 == 0 { if ctx.Err() ... }\<close>: \<open>err i\<close> is
  the answer of the poll at row \<open>i\<close>, and \<open>g\<close> is what one row contributes.
\<close>

fun pollScan :: "(nat \<Rightarrow> bool) \<Rightarrow> nat \<Rightarrow> ('a \<Rightarrow> 'b list result) \<Rightarrow> 'a list \<Rightarrow> 'b list result" where
  "pollScan err i g [] = Ok []"
| "pollScan err i g (x # xs) =
     (if i mod 1024 = 0 \<and> err i then Err ErrContext
      else case g x of
             Inl e \<Rightarrow> Err e
           | Inr ys \<Rightarrow> (case pollScan err (i + 1) g xs of Inl e \<Rightarrow> Err e | Inr zs \<Rightarrow> Ok (ys @ zs)))"

text \<open>A sequence of checks that stops at the first error, and a loop that maps or fails.\<close>

fun firstErr :: "unit result list \<Rightarrow> unit result" where
  "firstErr [] = Ok ()"
| "firstErr (Inl e # rs) = Err e"
| "firstErr (Inr u # rs) = firstErr rs"

fun mapResult :: "('a \<Rightarrow> 'b result) \<Rightarrow> 'a list \<Rightarrow> 'b list result" where
  "mapResult g [] = Ok []"
| "mapResult g (x # xs) =
     (case g x of
        Inl e \<Rightarrow> Err e
      | Inr y \<Rightarrow> (case mapResult g xs of Inl e \<Rightarrow> Err e | Inr ys \<Rightarrow> Ok (y # ys)))"

text \<open>\<^verbatim>\<open>strings.Split(p, "/")\<close> and \<^verbatim>\<open>strings.Join(segs, "/")\<close>.\<close>

fun splitSlash :: "string \<Rightarrow> string list" where
  "splitSlash [] = [[]]"
| "splitSlash (c # cs) =
     (if c = CHR ''/'' then [] # splitSlash cs
      else case splitSlash cs of [] \<Rightarrow> [[c]] | s # ss \<Rightarrow> (c # s) # ss)"

fun joinSlash :: "string list \<Rightarrow> string" where
  "joinSlash [] = []"
| "joinSlash [s] = s"
| "joinSlash (s # ss) = s @ ''/'' @ joinSlash ss"

text \<open>Generic facts on the containers.\<close>

named_theorems go_simps \<open>rewrite rules for the Go container operations\<close>

lemma lookup2_update2 [go_simps]:
  "lookup2 (update2 m a b c) a' b' =
     (if a = a' \<and> b = b' then Some c else lookup2 m a' b')"
  by (auto simp: lookup2_def update2_def split: option.splits)

lemma or_nil_simps [simp]: "or_nil None = []" "or_nil (Some xs) = xs"
  by (simp_all add: or_nil_def)

lemma map_of_alist_update [simp]:
  "map_of (AList.update k v al) k' = (if k = k' then Some v else map_of al k')"
  by (simp add: update_conv')

lemma map_of_alist_delete [simp]:
  "map_of (AList.delete k al) k' = (if k = k' then None else map_of al k')"
  by (simp add: delete_conv')

lemma distinct_keys_update [simp]:
  "distinct (map fst al) \<Longrightarrow> distinct (map fst (AList.update k v al))"
  by (rule distinct_update)

lemma distinct_keys_delete [simp]:
  "distinct (map fst al) \<Longrightarrow> distinct (map fst (AList.delete k al))"
  by (rule distinct_delete)

lemma keys_alist_update [simp]: "fst ` set (AList.update k v al) = insert k (fst ` set al)"
  by (simp add: dom_update)

lemma keys_alist_delete [simp]: "fst ` set (AList.delete k al) = fst ` set al - {k}"
  by (metis delete_keys list.set_map set_removeAll)

lemma in_alist_updateD: "p \<in> set (AList.update k v al) \<Longrightarrow> p = (k, v) \<or> p \<in> set al"
  by (induction al) (auto split: if_splits)

lemma in_alist_deleteD: "p \<in> set (AList.delete k al) \<Longrightarrow> p \<in> set al"
  by (simp add: AList.delete_eq)

lemma in_set_tl: "x \<in> set (tl xs) \<Longrightarrow> x \<in> set xs"
  by (cases xs) auto

lemma map_of_in_set: "map_of al k = Some v \<Longrightarrow> (k, v) \<in> set al"
  by (rule map_of_SomeD)

lemma map_of_iff_set:
  "distinct (map fst al) \<Longrightarrow> map_of al k = Some v \<longleftrightarrow> (k, v) \<in> set al"
  by (rule map_of_eq_Some_iff)

lemma fold_del_map:
  "fold (\<lambda>k m. m(k := None)) ks m = (\<lambda>k. if k \<in> set ks then None else m k)"
  by (induction ks arbitrary: m) (auto simp: fun_eq_iff)

lemma fold_put_map:
  "fold (\<lambda>k m. m(k \<mapsto> v)) ks m = (\<lambda>k. if k \<in> set ks then Some v else m k)"
  by (induction ks arbitrary: m) (auto simp: fun_eq_iff)

lemma sorted_wrt_append_single:
  "sorted_wrt P (xs @ [x]) \<longleftrightarrow> sorted_wrt P xs \<and> (\<forall>y \<in> set xs. P y x)"
  by (simp add: sorted_wrt_append)

lemma wrap64_id: "- (2 ^ 63) \<le> x \<Longrightarrow> x < 2 ^ 63 \<Longrightarrow> wrap64 x = x"
  by (simp add: wrap64_def)

lemma wrap64_over: "2 ^ 63 \<le> x \<Longrightarrow> x < 2 ^ 63 + 2 ^ 64 \<Longrightarrow> wrap64 x = x - 2 ^ 64"
proof -
  assume x: "2 ^ 63 \<le> x" "x < 2 ^ 63 + 2 ^ 64"
  have "(x + 2 ^ 63) mod 2 ^ 64 = (x + 2 ^ 63 - 2 ^ 64) mod 2 ^ 64" by (rule minus_mod_self2 [symmetric])
  also have "\<dots> = x + 2 ^ 63 - 2 ^ 64" by (rule mod_pos_pos_trivial) (use x in simp_all)
  finally show ?thesis by (simp add: wrap64_def)
qed

lemma slice_to_append_length:
  "slice_to (length (sl_elems s)) (slice_append x s) =
     Some \<lparr>sl_elems = sl_elems s, sl_stale = x # tl (sl_stale s)\<rparr>"
  by (simp add: slice_to_def slice_append_def)

text \<open>
  A transition system given by its initial states and its step relation. Components with
  interleaved operations interpret it on their own step relation, and their safety properties
  rest on \<open>invariant_holds\<close>.
\<close>

locale transition_system =
  fixes init :: "'s \<Rightarrow> bool"
    and step :: "'s \<Rightarrow> 's \<Rightarrow> bool"
begin

inductive reachable :: "'s \<Rightarrow> bool" where
  start: "init s \<Longrightarrow> reachable s"
| move: "reachable s \<Longrightarrow> step s t \<Longrightarrow> reachable t"

lemma invariant_holds:
  assumes "reachable s"
    and "\<And>s. init s \<Longrightarrow> I s"
    and "\<And>s t. reachable s \<Longrightarrow> I s \<Longrightarrow> step s t \<Longrightarrow> I t"
  shows "I s"
  using assms by (induction rule: reachable.induct) blast+

lemma reachable_star:
  assumes "reachable s" and "step\<^sup>*\<^sup>* s t"
  shows "reachable t"
  using assms(2,1) by (induction rule: rtranclp_induct) (auto intro: move)

end

lemma firstErr_append [simp]:
  "firstErr (xs @ ys) = (case firstErr xs of Inl e \<Rightarrow> Err e | Inr _ \<Rightarrow> firstErr ys)"
  by (induction xs rule: firstErr.induct) auto

lemma firstErr_Ok: "firstErr rs = Ok () \<longleftrightarrow> (\<forall>r \<in> set rs. r = Ok ())"
  by (induction rs rule: firstErr.induct) auto

lemma mapResult_Ok:
  "mapResult g xs = Ok ys \<longleftrightarrow> list_all2 (\<lambda>x y. g x = Ok y) xs ys"
proof (induction xs arbitrary: ys)
  case (Cons x xs)
  then show ?case by (cases ys; cases "g x"; cases "mapResult g xs") (simp_all add: Cons.IH [symmetric])
qed auto

lemma splitSlash_nonempty: "splitSlash p \<noteq> []"
  by (induction p) (auto split: list.split)

lemma splitSlash_plain: "CHR ''/'' \<notin> set s \<Longrightarrow> splitSlash s = [s]"
  by (induction s) (auto split: list.split)

lemma splitSlash_append: "CHR ''/'' \<notin> set s \<Longrightarrow> splitSlash (s @ CHR ''/'' # p) = s # splitSlash p"
  by (induction s) auto

lemma splitSlash_join:
  "segs \<noteq> [] \<Longrightarrow> \<forall>s \<in> set segs. CHR ''/'' \<notin> set s \<Longrightarrow> splitSlash (joinSlash segs) = segs"
  by (induction segs rule: joinSlash.induct) (auto simp: splitSlash_plain splitSlash_append)

lemma joinSlash_append: "xs \<noteq> [] \<Longrightarrow> ys \<noteq> [] \<Longrightarrow> joinSlash (xs @ ys) = joinSlash xs @ ''/'' @ joinSlash ys"
proof (induction xs rule: joinSlash.induct)
  case (2 s)
  then show ?case by (cases ys) auto
qed auto

end
