(* ===== verification/Spi.thy ===== *)
theory Spi
  imports GoPrelude
begin

text \<open>
  The data the storage plugin exchanges with the rest of the system through the SPI module
  \<^verbatim>\<open>cyoda-go-spi\<close>. That module is not part of the repository, so only the shape of its structs is
  fixed here, with the fields the sources read and write; its functions are parameters of the
  definitions that call them:

  \<^item> \<^verbatim>\<open>spi.ComputeClaims\<close> is a function argument \<open>cc\<close> of the operations that compute unique-key
    claims;
  \<^item> \<^verbatim>\<open>spi.GetUserContext\<close>, \<^verbatim>\<open>spi.UniqueKeysFromContext\<close>, \<^verbatim>\<open>spi.AttributionFor\<close> and
    \<^verbatim>\<open>spi.ResolveOrigin\<close> read a context: their answers are the fields of \<open>Ctx\<close>;
  \<^item> the values of a UUID generator and of the clock are arguments of the operations that ask
    for them.
\<close>

record ModelRef =
  EntityName :: string
  ModelVersion :: string

record Principal =
  p_ID :: string
  p_Kind :: string

record WriteAttribution =
  Attributed :: Principal
  Executor :: Principal

record EntityMeta =
  m_ID :: entityid
  m_TenantID :: tenant
  m_ModelRef :: ModelRef
  m_State :: string
  m_Version :: int
  m_CreationDate :: time
  m_LastModifiedDate :: time
  m_TransactionID :: txid
  m_ChangeType :: string
  m_ChangeUser :: string
  m_ChangeUserKind :: string
  m_ChangeExecutor :: Principal
  m_TransitionForLatestSave :: string

record Entity =
  Meta :: EntityMeta
  Data :: bytes

record UniqueKey =
  uk_ID :: string
  uk_Fields :: "string list"

record UniqueClaim =
  uc_KeyID :: string
  uc_Signature :: string

type_synonym compute_claims = "UniqueKey list \<Rightarrow> bytes \<Rightarrow> UniqueClaim list result"

record TransactionState =
  tx_ID :: txid
  tx_TenantID :: tenant
  tx_Origin :: Principal
  tx_SnapshotTime :: time
  tx_ReadSet :: "entityid list"
  tx_WriteSet :: "entityid list"
  tx_Buffer :: "(entityid \<times> Entity) list"
  tx_Deletes :: "entityid list"
  tx_DeleteAttribution :: "(entityid \<times> WriteAttribution) list"
  tx_RolledBack :: bool
  tx_Closed :: bool

record ScheduledTask =
  st_ID :: string
  st_TenantID :: tenant
  st_Type :: string
  st_ScheduledTime :: int
  st_TimeoutMs :: "int option"
  st_EntityID :: entityid
  st_ModelName :: string
  st_ModelVersion :: int
  st_Transition :: string
  st_SourceState :: string
  st_ArmedAt :: int
  st_ArmedBy :: Principal
  st_RedispatchAfter :: "int option"
  st_AttemptCount :: int

text \<open>
  What an operation reads off its \<^verbatim>\<open>context.Context\<close>: the tenant of the user context (\<open>None\<close> for a
  nil user context), the transaction it carries, the unique keys, the write attribution and the
  chain origin. \<open>c_Err l i\<close> says whether \<^verbatim>\<open>ctx.Err()\<close> is non-nil at the poll that happens at
  position \<open>i\<close> of the \<open>l\<close>-th polling loop of an operation.
\<close>

record Ctx =
  c_User :: "tenant option"
  c_Tx :: "txid option"
  c_UniqueKeys :: "UniqueKey list"
  c_Attribution :: WriteAttribution
  c_Origin :: Principal
  c_Err :: "nat \<Rightarrow> nat \<Rightarrow> bool"

abbreviation entity_id :: "Entity \<Rightarrow> entityid" where
  "entity_id e \<equiv> m_ID (Meta e)"

abbreviation model_of :: "Entity \<Rightarrow> ModelRef" where
  "model_of e \<equiv> m_ModelRef (Meta e)"

definition WithTransaction :: "Ctx \<Rightarrow> txid \<Rightarrow> Ctx" where
  "WithTransaction ctx t = ctx\<lparr>c_Tx := Some t\<rparr>"

end
