(* ===== verification/MemFactory.thy ===== *)
theory MemFactory
  imports Spi
begin

text \<open>
  The state of the in-memory storage plugin (\<^verbatim>\<open>plugins/memory\<close>): \<^verbatim>\<open>StoreFactory\<close>, the
  \<^verbatim>\<open>TransactionManager\<close> it owns, and the factory's own helpers on the unique-key claim index and
  on the transaction index. The maps of the factory that have a mutex of their own (key-value
  data, models, workflows, audit events, messages) are the state of the stores that use them.

  A \<^verbatim>\<open>*spi.TransactionState\<close> is shared between \<^verbatim>\<open>TransactionManager.active\<close> and every context
  that carries it, and outlives its entry in \<^verbatim>\<open>active\<close>. The objects live in \<open>sf_txHeap\<close>, keyed
  by transaction ID; \<open>tm_active\<close> holds the keys of the map \<^verbatim>\<open>active\<close>.
\<close>

record entityVersion =
  v_entity :: "Entity option"
  v_version :: int
  v_transactionID :: txid
  v_submitTime :: time
  v_deleted :: bool
  v_changeType :: string
  v_user :: string
  v_changeUserKind :: string
  v_executor :: Principal

record committedTx =
  ct_id :: txid
  ct_submitTime :: time
  ct_seq :: int
  ct_writeSet :: "entityid list"

record submitTimeEntry =
  ste_submitTime :: time
  ste_tenantID :: tenant

datatype scheduledTaskOp =
    scheduledTaskUpsert string ScheduledTask
  | scheduledTaskDelete string

record savepointSnapshot =
  sp_buffer :: "(entityid \<times> Entity) list"
  sp_readSet :: "entityid list"
  sp_writeSet :: "entityid list"
  sp_deletes :: "entityid list"
  sp_deleteAttribution :: "(entityid \<times> WriteAttribution) list"
  sp_scheduledTaskOpsLen :: nat
  sp_supersededLens :: "entityid \<rightharpoonup> nat"

record TransactionManager =
  tm_active :: "txid list"
  tm_committedLog :: "committedTx list"
  tm_committing :: "txid list"
  tm_submitTimes :: "txid \<rightharpoonup> submitTimeEntry"
  tm_savepoints :: "txid \<rightharpoonup> (string \<rightharpoonup> savepointSnapshot)"
  tm_txUniqueKeys :: "txid \<rightharpoonup> (entityid \<rightharpoonup> UniqueKey list)"
  tm_commitSeq :: int
  tm_txSnapshotSeq :: "txid \<rightharpoonup> int"
  tm_lastSubmitTime :: time
  tm_supersededSaves :: "txid \<rightharpoonup> (entityid \<times> Entity slice) list"
  tm_scheduledTaskOps :: "txid \<rightharpoonup> scheduledTaskOp list"

record claimKey =
  ck_tenant :: string
  ck_model :: string
  ck_version :: string
  ck_keyID :: string
  ck_signature :: string

record entityTenantKey =
  etk_tenant :: string
  etk_id :: string

record StoreFactory =
  sf_entityData :: "tenant \<Rightarrow> (entityid \<times> entityVersion list) list"
  sf_txIndex :: "tenant \<Rightarrow> entityid \<Rightarrow> (txid \<rightharpoonup> int)"
  sf_txManager :: TransactionManager
  sf_uniqueClaims :: "claimKey \<rightharpoonup> entityid"
  sf_claimsByEntity :: "entityTenantKey \<rightharpoonup> claimKey list"
  sf_scheduledTasks :: "(string \<times> ScheduledTask) list"
  sf_txHeap :: "txid \<rightharpoonup> TransactionState"

definition NewTransactionManager :: "time \<Rightarrow> TransactionManager" where
  "NewTransactionManager floor =
     \<lparr>tm_active = [], tm_committedLog = [], tm_committing = [],
      tm_submitTimes = Map.empty, tm_savepoints = Map.empty, tm_txUniqueKeys = Map.empty,
      tm_commitSeq = 0, tm_txSnapshotSeq = Map.empty, tm_lastSubmitTime = floor,
      tm_supersededSaves = Map.empty, tm_scheduledTaskOps = Map.empty\<rparr>"

definition NewStoreFactory :: StoreFactory where
  "NewStoreFactory =
     \<lparr>sf_entityData = (\<lambda>_. []), sf_txIndex = (\<lambda>_ _. Map.empty),
      sf_txManager = NewTransactionManager 0, sf_uniqueClaims = Map.empty,
      sf_claimsByEntity = Map.empty, sf_scheduledTasks = [], sf_txHeap = Map.empty\<rparr>"

text \<open>\<open>versions_of\<close> is the expression \<^verbatim>\<open>factory.entityData[tenant][entityID]\<close>, nil for a missing key.\<close>

definition versions_of :: "StoreFactory \<Rightarrow> tenant \<Rightarrow> entityid \<Rightarrow> entityVersion list" where
  "versions_of f tid eid = or_nil (map_of (sf_entityData f tid) eid)"

definition set_versions ::
  "tenant \<Rightarrow> entityid \<Rightarrow> entityVersion list \<Rightarrow> StoreFactory \<Rightarrow> StoreFactory" where
  "set_versions tid eid vs f =
     f\<lparr>sf_entityData := (sf_entityData f)(tid := AList.update eid vs (sf_entityData f tid))\<rparr>"

definition set_tm :: "(TransactionManager \<Rightarrow> TransactionManager) \<Rightarrow> StoreFactory \<Rightarrow> StoreFactory" where
  "set_tm g f = f\<lparr>sf_txManager := g (sf_txManager f)\<rparr>"

definition set_tx :: "txid \<Rightarrow> TransactionState \<Rightarrow> StoreFactory \<Rightarrow> StoreFactory" where
  "set_tx t tx f = f\<lparr>sf_txHeap := (sf_txHeap f)(t \<mapsto> tx)\<rparr>"

definition GetTransaction :: "StoreFactory \<Rightarrow> Ctx \<Rightarrow> TransactionState option" where
  "GetTransaction f ctx = (case c_Tx ctx of None \<Rightarrow> None | Some t \<Rightarrow> sf_txHeap f t)"

definition resolveTenant :: "Ctx \<Rightarrow> tenant result" where
  "resolveTenant ctx =
     (case c_User ctx of
        None \<Rightarrow> Err (ErrMsg ''no user context'')
      | Some tid \<Rightarrow> if tid = '''' then Err (ErrMsg ''user context has no tenant'') else Ok tid)"

definition releaseClaims :: "string \<Rightarrow> string \<Rightarrow> StoreFactory \<Rightarrow> StoreFactory" where
  "releaseClaims tenantID entityID f =
     (let etk = \<lparr>etk_tenant = tenantID, etk_id = entityID\<rparr>
      in f\<lparr>sf_uniqueClaims :=
             fold (\<lambda>k m. m(k := None)) (or_nil (sf_claimsByEntity f etk)) (sf_uniqueClaims f),
           sf_claimsByEntity := (sf_claimsByEntity f)(etk := None)\<rparr>)"

definition claim_key :: "string \<Rightarrow> string \<Rightarrow> string \<Rightarrow> UniqueClaim \<Rightarrow> claimKey" where
  "claim_key tenant model version c =
     \<lparr>ck_tenant = tenant, ck_model = model, ck_version = version,
      ck_keyID = uc_KeyID c, ck_signature = uc_Signature c\<rparr>"

definition insertClaims ::
  "string \<Rightarrow> string \<Rightarrow> string \<Rightarrow> string \<Rightarrow> UniqueClaim list \<Rightarrow> StoreFactory \<Rightarrow> StoreFactory" where
  "insertClaims entityID tenant model version claims f =
     (if claims = [] then f
      else let keys = map (claim_key tenant model version) claims;
               etk = \<lparr>etk_tenant = tenant, etk_id = entityID\<rparr>
           in f\<lparr>sf_uniqueClaims := fold (\<lambda>k m. m(k \<mapsto> entityID)) keys (sf_uniqueClaims f),
                sf_claimsByEntity := (sf_claimsByEntity f)(etk \<mapsto> keys)\<rparr>)"

definition recordTxIndex ::
  "tenant \<Rightarrow> entityid \<Rightarrow> txid \<Rightarrow> int \<Rightarrow> StoreFactory \<Rightarrow> StoreFactory" where
  "recordTxIndex tid entityID txID version f =
     (if txID = '''' then f
      else case sf_txIndex f tid entityID txID of
             Some existing \<Rightarrow>
               if existing \<le> version then f
               else f\<lparr>sf_txIndex := (sf_txIndex f)(tid := (sf_txIndex f tid)
                        (entityID := (sf_txIndex f tid entityID)(txID \<mapsto> version)))\<rparr>
           | None \<Rightarrow>
               f\<lparr>sf_txIndex := (sf_txIndex f)(tid := (sf_txIndex f tid)
                   (entityID := (sf_txIndex f tid entityID)(txID \<mapsto> version)))\<rparr>)"

definition seedLastSubmitTime :: "TransactionManager option \<Rightarrow> StoreFactory \<Rightarrow> tenant list \<Rightarrow> time" where
  "seedLastSubmitTime prev f tenants =
     (case prev of
        Some m \<Rightarrow> tm_lastSubmitTime m
      | None \<Rightarrow>
          fold (\<lambda>v latest. if v_submitTime v > latest then v_submitTime v else latest)
            (concat (map (\<lambda>tid. concat (map snd (sf_entityData f tid))) tenants)) 0)"

text \<open>
  The claim index is consistent when its two maps describe the same relation: an entity is
  recorded as the holder of a key exactly when the key is in that entity's list.
\<close>

definition claimsOf :: "StoreFactory \<Rightarrow> tenant \<Rightarrow> entityid \<Rightarrow> claimKey list" where
  "claimsOf f tid eid = or_nil (sf_claimsByEntity f \<lparr>etk_tenant = tid, etk_id = eid\<rparr>)"

definition claims_ok :: "StoreFactory \<Rightarrow> bool" where
  "claims_ok f \<longleftrightarrow>
     (\<forall>tid eid k. k \<in> set (claimsOf f tid eid) \<longleftrightarrow>
                   ck_tenant k = tid \<and> sf_uniqueClaims f k = Some eid)"

text \<open>
  Each version row is well formed: a tombstone carries no entity, a live row carries the entity
  under its own ID, tenant, version and submit time.
\<close>

definition row_ok :: "tenant \<Rightarrow> entityid \<Rightarrow> entityVersion \<Rightarrow> bool" where
  "row_ok tid eid v \<longleftrightarrow>
     (case v_entity v of
        None \<Rightarrow> v_deleted v \<and> v_changeType v = ''DELETED''
      | Some e \<Rightarrow> \<not> v_deleted v \<and> m_ID (Meta e) = eid \<and> m_TenantID (Meta e) = tid \<and>
                  m_Version (Meta e) = v_version v \<and> m_LastModifiedDate (Meta e) = v_submitTime v)"

definition appended :: "time \<Rightarrow> StoreFactory \<Rightarrow> StoreFactory \<Rightarrow> bool" where
  "appended t f g \<longleftrightarrow>
     (\<forall>tid eid. \<exists>rows. versions_of g tid eid = versions_of f tid eid @ rows \<and>
                      (\<forall>r \<in> set rows. v_submitTime r = t \<and> row_ok tid eid r))"

text \<open>
  The well-formedness of the stored histories: the entity map has distinct keys, every row is
  well formed, and no row is stamped above the manager's floor, with the stamps of one entity in
  increasing order.
\<close>

definition hist_ok :: "StoreFactory \<Rightarrow> bool" where
  "hist_ok f \<longleftrightarrow>
     (\<forall>tid. distinct (map fst (sf_entityData f tid))) \<and>
     (\<forall>tid eid. sorted (map v_submitTime (versions_of f tid eid)) \<and>
        (\<forall>v \<in> set (versions_of f tid eid).
            row_ok tid eid v \<and> v_submitTime v \<le> tm_lastSubmitTime (sf_txManager f)))"

definition keys_ok :: "StoreFactory \<Rightarrow> bool" where
  "keys_ok f \<longleftrightarrow> (\<forall>tid. distinct (map fst (sf_entityData f tid)))"

named_theorems factory_defs \<open>definitions of the factory's state updates\<close>

lemmas factory_update_defs [factory_defs] =
  set_versions_def set_tm_def set_tx_def releaseClaims_def insertClaims_def recordTxIndex_def Let_def

lemma versions_of_set_versions [simp]:
  "versions_of (set_versions tid eid vs f) tid' eid' =
     (if tid = tid' \<and> eid = eid' then vs else versions_of f tid' eid')"
  by (auto simp: versions_of_def set_versions_def)

lemma claimsOf_cong:
  "sf_claimsByEntity f = sf_claimsByEntity g \<Longrightarrow> claimsOf f tid eid = claimsOf g tid eid"
  by (simp add: claimsOf_def)

lemma claims_ok_cong:
  "sf_claimsByEntity f = sf_claimsByEntity g \<Longrightarrow> sf_uniqueClaims f = sf_uniqueClaims g \<Longrightarrow>
   claims_ok f = claims_ok g"
  by (simp add: claims_ok_def claimsOf_def)

lemma claims_ok_D:
  "claims_ok f \<Longrightarrow> k \<in> set (claimsOf f tid eid) \<longleftrightarrow>
     ck_tenant k = tid \<and> sf_uniqueClaims f k = Some eid"
  by (simp add: claims_ok_def)

lemma uniqueClaims_release:
  "sf_uniqueClaims (releaseClaims tid eid f) k =
     (if k \<in> set (claimsOf f tid eid) then None else sf_uniqueClaims f k)"
  by (simp add: releaseClaims_def fold_del_map claimsOf_def Let_def)

lemma claimsOf_release:
  "claimsOf (releaseClaims tid eid f) tid' eid' =
     (if tid = tid' \<and> eid = eid' then [] else claimsOf f tid' eid')"
  by (simp add: releaseClaims_def claimsOf_def Let_def)

lemma uniqueClaims_insert:
  "sf_uniqueClaims (insertClaims eid tid model version cs f) k =
     (if k \<in> claim_key tid model version ` set cs then Some eid else sf_uniqueClaims f k)"
  by (simp add: insertClaims_def fold_put_map Let_def)

lemma claimsOf_insert:
  "claimsOf (insertClaims eid tid model version cs f) tid' eid' =
     (if tid = tid' \<and> eid = eid' \<and> cs \<noteq> [] then map (claim_key tid model version) cs
      else claimsOf f tid' eid')"
  by (simp add: insertClaims_def claimsOf_def Let_def)

lemma ck_tenant_claim_key [simp]: "ck_tenant (claim_key tid model version c) = tid"
  by (simp add: claim_key_def)

lemma claims_ok_new: "claims_ok NewStoreFactory"
  by (simp add: claims_ok_def claimsOf_def NewStoreFactory_def)

lemma claims_ok_release:
  assumes "claims_ok f" shows "claims_ok (releaseClaims tid eid f)"
  unfolding claims_ok_def
  by (simp add: claimsOf_release uniqueClaims_release claims_ok_D [OF assms])

lemma claims_ok_insert:
  assumes "claims_ok f"
    and free: "\<And>c. c \<in> set cs \<Longrightarrow> sf_uniqueClaims f (claim_key tid model version c) = None"
    and "claimsOf f tid eid = []"
  shows "claims_ok (insertClaims eid tid model version cs f)"
proof -
  have none: "sf_uniqueClaims f k = Some eid \<Longrightarrow> tid = ck_tenant k \<Longrightarrow> False" for k
    using claims_ok_D [OF assms(1), of k tid eid] assms(3) by simp
  show ?thesis
    unfolding claims_ok_def
    by (auto simp: claimsOf_insert uniqueClaims_insert claims_ok_D [OF assms(1)]
             dest: free none)
qed

text \<open>What replaces an entity's claim set leaves every other entity's claims as they were.\<close>

lemma claims_ok_replace:
  assumes "claims_ok f"
    and "\<And>c. c \<in> set cs \<Longrightarrow>
          sf_uniqueClaims f (claim_key tid model version c) \<in> {None, Some eid}"
  shows "claims_ok (insertClaims eid tid model version cs (releaseClaims tid eid f))"
proof (rule claims_ok_insert)
  show "claims_ok (releaseClaims tid eid f)" using assms(1) by (rule claims_ok_release)
  show "claimsOf (releaseClaims tid eid f) tid eid = []" by (simp add: claimsOf_release)
  fix c assume "c \<in> set cs"
  then show "sf_uniqueClaims (releaseClaims tid eid f) (claim_key tid model version c) = None"
    using assms by (auto simp: uniqueClaims_release claims_ok_D)
qed

lemma releaseClaims_frame [simp]:
  "sf_entityData (releaseClaims tid eid f) = sf_entityData f"
  "sf_txIndex (releaseClaims tid eid f) = sf_txIndex f"
  "sf_txManager (releaseClaims tid eid f) = sf_txManager f"
  "sf_scheduledTasks (releaseClaims tid eid f) = sf_scheduledTasks f"
  "sf_txHeap (releaseClaims tid eid f) = sf_txHeap f"
  by (simp_all add: releaseClaims_def Let_def)

lemma insertClaims_frame [simp]:
  "sf_entityData (insertClaims eid tid model version cs f) = sf_entityData f"
  "sf_txIndex (insertClaims eid tid model version cs f) = sf_txIndex f"
  "sf_txManager (insertClaims eid tid model version cs f) = sf_txManager f"
  "sf_scheduledTasks (insertClaims eid tid model version cs f) = sf_scheduledTasks f"
  "sf_txHeap (insertClaims eid tid model version cs f) = sf_txHeap f"
  by (simp_all add: insertClaims_def Let_def)

lemma recordTxIndex_frame [simp]:
  "sf_entityData (recordTxIndex tid eid t n f) = sf_entityData f"
  "sf_txManager (recordTxIndex tid eid t n f) = sf_txManager f"
  "sf_uniqueClaims (recordTxIndex tid eid t n f) = sf_uniqueClaims f"
  "sf_claimsByEntity (recordTxIndex tid eid t n f) = sf_claimsByEntity f"
  "sf_scheduledTasks (recordTxIndex tid eid t n f) = sf_scheduledTasks f"
  "sf_txHeap (recordTxIndex tid eid t n f) = sf_txHeap f"
  by (simp_all add: recordTxIndex_def split: option.split)

lemma set_versions_frame [simp]:
  "sf_txIndex (set_versions tid eid vs f) = sf_txIndex f"
  "sf_txManager (set_versions tid eid vs f) = sf_txManager f"
  "sf_uniqueClaims (set_versions tid eid vs f) = sf_uniqueClaims f"
  "sf_claimsByEntity (set_versions tid eid vs f) = sf_claimsByEntity f"
  "sf_scheduledTasks (set_versions tid eid vs f) = sf_scheduledTasks f"
  "sf_txHeap (set_versions tid eid vs f) = sf_txHeap f"
  by (simp_all add: set_versions_def)

lemma set_tm_frame [simp]:
  "sf_entityData (set_tm g f) = sf_entityData f" "sf_txIndex (set_tm g f) = sf_txIndex f"
  "sf_txManager (set_tm g f) = g (sf_txManager f)"
  "sf_uniqueClaims (set_tm g f) = sf_uniqueClaims f"
  "sf_claimsByEntity (set_tm g f) = sf_claimsByEntity f"
  "sf_scheduledTasks (set_tm g f) = sf_scheduledTasks f" "sf_txHeap (set_tm g f) = sf_txHeap f"
  by (simp_all add: set_tm_def)

lemma set_tx_frame [simp]:
  "sf_entityData (set_tx t tx f) = sf_entityData f" "sf_txIndex (set_tx t tx f) = sf_txIndex f"
  "sf_txManager (set_tx t tx f) = sf_txManager f"
  "sf_uniqueClaims (set_tx t tx f) = sf_uniqueClaims f"
  "sf_claimsByEntity (set_tx t tx f) = sf_claimsByEntity f"
  "sf_scheduledTasks (set_tx t tx f) = sf_scheduledTasks f"
  "sf_txHeap (set_tx t tx f) = (sf_txHeap f)(t \<mapsto> tx)"
  by (simp_all add: set_tx_def)

lemma versions_of_cong: "sf_entityData f = sf_entityData g \<Longrightarrow> versions_of f = versions_of g"
  by (simp add: versions_of_def fun_eq_iff)

lemma appended_same: "sf_entityData g = sf_entityData f \<Longrightarrow> appended t f g"
  by (auto simp: appended_def versions_of_cong [of g f] intro!: exI [of _ "[]"])

lemma appended_trans:
  assumes "appended t f g" "appended t g h" shows "appended t f h"
  unfolding appended_def
proof (intro allI)
  fix tid eid
  obtain r1 r2 where
    "versions_of g tid eid = versions_of f tid eid @ r1" "\<forall>r \<in> set r1. v_submitTime r = t \<and> row_ok tid eid r"
    "versions_of h tid eid = versions_of g tid eid @ r2" "\<forall>r \<in> set r2. v_submitTime r = t \<and> row_ok tid eid r"
    using assms unfolding appended_def by metis
  then show "\<exists>rows. versions_of h tid eid = versions_of f tid eid @ rows \<and>
      (\<forall>r \<in> set rows. v_submitTime r = t \<and> row_ok tid eid r)"
    by (intro exI [of _ "r1 @ r2"]) auto
qed

lemma appended_set_versions:
  assumes "\<forall>r \<in> set rows. v_submitTime r = t \<and> row_ok tid eid r"
  shows "appended t f (set_versions tid eid (versions_of f tid eid @ rows) f)"
  using assms by (auto simp: appended_def intro: exI [of _ "[]"])

lemma appended_cong:
  "appended t f g \<Longrightarrow> sf_entityData g' = sf_entityData g \<Longrightarrow> appended t f g'"
  using versions_of_cong [of g' g] by (simp add: appended_def)

lemma appended_cong_left:
  "appended t f g \<Longrightarrow> sf_entityData f' = sf_entityData f \<Longrightarrow> appended t f' g"
  using versions_of_cong [of f' f] by (simp add: appended_def)

lemma appended_fold:
  assumes "\<And>x f. x \<in> set xs \<Longrightarrow> appended t f (g x f)"
  shows "appended t f (fold g xs f)"
  using assms
proof (induction xs arbitrary: f)
  case Nil then show ?case by (simp add: appended_same)
next
  case (Cons x xs)
  have "appended t f (g x f)" using Cons.prems by simp
  moreover have "appended t (g x f) (fold g xs (g x f))" using Cons by simp
  ultimately show ?case by (simp add: appended_trans)
qed

lemma keys_ok_set_versions: "keys_ok f \<Longrightarrow> keys_ok (set_versions tid eid vs f)"
  by (simp add: keys_ok_def set_versions_def)

lemma hist_ok_new: "hist_ok NewStoreFactory"
  by (simp add: hist_ok_def NewStoreFactory_def versions_of_def)

lemma hist_ok_cong:
  "hist_ok f \<Longrightarrow> sf_entityData g = sf_entityData f \<Longrightarrow>
   tm_lastSubmitTime (sf_txManager f) \<le> tm_lastSubmitTime (sf_txManager g) \<Longrightarrow> hist_ok g"
  using versions_of_cong [of g f] by (fastforce simp: hist_ok_def)

lemma hist_ok_appended:
  assumes "hist_ok f" "appended t f g" "keys_ok g"
    and "tm_lastSubmitTime (sf_txManager f) \<le> t" "t \<le> tm_lastSubmitTime (sf_txManager g)"
  shows "hist_ok g"
  unfolding hist_ok_def
proof (intro conjI allI)
  fix tid eid
  obtain rows where rows: "versions_of g tid eid = versions_of f tid eid @ rows"
    "\<forall>r \<in> set rows. v_submitTime r = t \<and> row_ok tid eid r"
    using assms(2) unfolding appended_def by blast
  have "sorted (map v_submitTime rows)"
    using rows(2) by (induction rows) auto
  moreover have old: "sorted (map v_submitTime (versions_of f tid eid))"
    "\<forall>v \<in> set (versions_of f tid eid).
       row_ok tid eid v \<and> v_submitTime v \<le> tm_lastSubmitTime (sf_txManager f)"
    using assms(1) unfolding hist_ok_def by blast+
  ultimately show "sorted (map v_submitTime (versions_of g tid eid))"
    using rows assms(4) by (fastforce simp: sorted_append)
  show "\<forall>v \<in> set (versions_of g tid eid).
      row_ok tid eid v \<and> v_submitTime v \<le> tm_lastSubmitTime (sf_txManager g)"
    using rows old(2) assms(4,5) by fastforce
next
  fix tid show "distinct (map fst (sf_entityData g tid))"
    using assms(3) by (simp add: keys_ok_def)
qed

lemma hist_ok_keys: "hist_ok f \<Longrightarrow> keys_ok f"
  by (simp add: hist_ok_def keys_ok_def)

lemma keys_ok_cong: "keys_ok f \<Longrightarrow> sf_entityData g = sf_entityData f \<Longrightarrow> keys_ok g"
  by (simp add: keys_ok_def)

end
