(* ===== verification/MemTxManager.thy ===== *)
theory MemTxManager
  imports MemFactory
begin

text \<open>
  \<^verbatim>\<open>plugins/memory/txmanager.go\<close>: snapshot isolation with first-committer-wins. Every operation
  takes the factory state and returns its result with the new state; a clock reading is an
  argument (\<open>now\<close>), and so is a fresh UUID.

  \<^verbatim>\<open>Commit\<close> is split where the source takes and releases \<^verbatim>\<open>mu\<close> inside the \<^verbatim>\<open>entityMu\<close> section:
  \<open>commit_enter\<close> (step 1), \<open>commit_check\<close> (step 3), \<open>validateClaims\<close> (3.5), \<open>nextSubmitTime\<close> and
  \<open>commit_flush\<close> (4 to 5.5), \<open>commit_record\<close> (6). \<open>Commit\<close> composes them; the concurrent model
  interleaves them.
\<close>

definition submitTimeTTL :: time where
  "submitTimeTTL = 1 * hour"

definition active_tx :: "StoreFactory \<Rightarrow> txid \<Rightarrow> TransactionState option" where
  "active_tx f t = (if t \<in> set (tm_active (sf_txManager f)) then sf_txHeap f t else None)"

definition recordUniqueKeys ::
  "txid \<Rightarrow> entityid \<Rightarrow> UniqueKey list \<Rightarrow> TransactionManager \<Rightarrow> TransactionManager" where
  "recordUniqueKeys txID entityID keys m =
     m\<lparr>tm_txUniqueKeys := update2 (tm_txUniqueKeys m) txID entityID keys\<rparr>"

definition superseded_of :: "TransactionManager \<Rightarrow> txid \<Rightarrow> entityid \<Rightarrow> Entity slice" where
  "superseded_of m txID entityID =
     (case map_of (or_nil (tm_supersededSaves m txID)) entityID of None \<Rightarrow> slice_nil | Some s \<Rightarrow> s)"

definition stageSuperseded ::
  "txid \<Rightarrow> entityid \<Rightarrow> Entity option \<Rightarrow> TransactionManager \<Rightarrow> TransactionManager" where
  "stageSuperseded txID entityID prior m =
     (case prior of
        None \<Rightarrow> m
      | Some e \<Rightarrow>
          m\<lparr>tm_supersededSaves := (tm_supersededSaves m)
              (txID \<mapsto> AList.update entityID (slice_append e (superseded_of m txID entityID))
                        (or_nil (tm_supersededSaves m txID)))\<rparr>)"

definition stageScheduledTaskOp ::
  "txid \<Rightarrow> scheduledTaskOp \<Rightarrow> TransactionManager \<Rightarrow> TransactionManager" where
  "stageScheduledTaskOp txID op m =
     m\<lparr>tm_scheduledTaskOps :=
         (tm_scheduledTaskOps m)(txID \<mapsto> or_nil (tm_scheduledTaskOps m txID) @ [op])\<rparr>"

definition nextSubmitTime :: "time \<Rightarrow> TransactionManager \<Rightarrow> time \<times> TransactionManager" where
  "nextSubmitTime now m =
     (let t = if now > tm_lastSubmitTime m then now else tm_lastSubmitTime m + microsecond
      in (t, m\<lparr>tm_lastSubmitTime := t\<rparr>))"

text \<open>The part of \<^verbatim>\<open>Begin\<close>'s critical section that reserves the snapshot time.\<close>

definition reserveSnapshotTime :: "time \<Rightarrow> TransactionManager \<Rightarrow> time \<times> TransactionManager" where
  "reserveSnapshotTime now m =
     (let t = if now < tm_lastSubmitTime m then tm_lastSubmitTime m else now
      in (t, m\<lparr>tm_lastSubmitTime := t\<rparr>))"

definition Begin :: "txid \<Rightarrow> time \<Rightarrow> Ctx \<Rightarrow> StoreFactory \<Rightarrow> (txid \<times> Ctx) result \<times> StoreFactory" where
  "Begin newID now ctx f =
     (case c_User ctx of
        None \<Rightarrow> (Err (ErrMsg ''no user context''), f)
      | Some tid \<Rightarrow>
          if tid = '''' then (Err (ErrMsg ''user context has no tenant''), f)
          else
            let (snap, m) = reserveSnapshotTime now (sf_txManager f);
                tx = \<lparr>tx_ID = newID, tx_TenantID = tid, tx_Origin = c_Origin ctx,
                      tx_SnapshotTime = snap, tx_ReadSet = [], tx_WriteSet = [], tx_Buffer = [],
                      tx_Deletes = [], tx_DeleteAttribution = [],
                      tx_RolledBack = False, tx_Closed = False\<rparr>;
                m' = m\<lparr>tm_active := List.insert newID (tm_active m),
                       tm_txSnapshotSeq := (tm_txSnapshotSeq m)(newID \<mapsto> tm_commitSeq m)\<rparr>
            in (Ok (newID, WithTransaction ctx newID),
                f\<lparr>sf_txManager := m', sf_txHeap := (sf_txHeap f)(newID \<mapsto> tx)\<rparr>))"

definition Join :: "Ctx \<Rightarrow> txid \<Rightarrow> StoreFactory \<Rightarrow> Ctx result" where
  "Join ctx txID f =
     (case active_tx f txID of
        None \<Rightarrow> Err ErrTxNotFound
      | Some tx \<Rightarrow>
          if tx_RolledBack tx then Err ErrTxRolledBack
          else if tx_Closed tx then Err ErrTxAlreadyCommitted
          else if c_User ctx \<noteq> Some (tx_TenantID tx) then Err ErrTxTenantMismatch
          else Ok (WithTransaction ctx txID))"

text \<open>The block of map deletions that every way of ending a transaction performs.\<close>

definition forgetTx :: "txid \<Rightarrow> TransactionManager \<Rightarrow> TransactionManager" where
  "forgetTx txID m =
     m\<lparr>tm_committing := removeAll txID (tm_committing m),
       tm_active := removeAll txID (tm_active m),
       tm_savepoints := (tm_savepoints m)(txID := None),
       tm_txUniqueKeys := (tm_txUniqueKeys m)(txID := None),
       tm_txSnapshotSeq := (tm_txSnapshotSeq m)(txID := None),
       tm_supersededSaves := (tm_supersededSaves m)(txID := None),
       tm_scheduledTaskOps := (tm_scheduledTaskOps m)(txID := None)\<rparr>"

definition commit_enter :: "Ctx \<Rightarrow> txid \<Rightarrow> StoreFactory \<Rightarrow> StoreFactory result" where
  "commit_enter ctx txID f =
     (case active_tx f txID of
        None \<Rightarrow> Err ErrTxNotFound
      | Some tx \<Rightarrow>
          if c_User ctx \<noteq> Some (tx_TenantID tx) then Err ErrTxTenantMismatch
          else if txID \<in> set (tm_committing (sf_txManager f)) then Err ErrTxCommitInProgress
          else Ok (set_tm (\<lambda>m. m\<lparr>tm_committing := txID # tm_committing m\<rparr>) f))"

definition snapshotSeq_of :: "TransactionManager \<Rightarrow> txid \<Rightarrow> int" where
  "snapshotSeq_of m txID = (case tm_txSnapshotSeq m txID of None \<Rightarrow> 0 | Some n \<Rightarrow> n)"

definition hasConflict :: "int \<Rightarrow> committedTx list \<Rightarrow> TransactionState \<Rightarrow> bool" where
  "hasConflict snapshotSeq log tx =
     list_ex (\<lambda>c. ct_seq c > snapshotSeq \<and>
                 list_ex (\<lambda>e. e \<in> set (tx_ReadSet tx) \<or> e \<in> set (tx_WriteSet tx)) (ct_writeSet c)) log"

text \<open>What step 3 captures from the manager's maps when there is no conflict.\<close>

record captured =
  cap_keys :: "entityid \<rightharpoonup> UniqueKey list"
  cap_ops :: "scheduledTaskOp list"
  cap_superseded :: "entityid \<rightharpoonup> Entity slice"

definition commit_check :: "txid \<Rightarrow> TransactionState \<Rightarrow> StoreFactory \<Rightarrow> captured result \<times> StoreFactory" where
  "commit_check txID tx f =
     (let m = sf_txManager f
      in if hasConflict (snapshotSeq_of m txID) (tm_committedLog m) tx
         then (Err ErrConflict, set_tm (forgetTx txID) f)
         else (Ok \<lparr>cap_keys = (\<lambda>e. lookup2 (tm_txUniqueKeys m) txID e),
                   cap_ops = or_nil (tm_scheduledTaskOps m txID),
                   cap_superseded = map_of (or_nil (tm_supersededSaves m txID))\<rparr>, f))"

fun checkClaims ::
  "(claimKey \<rightharpoonup> entityid) \<Rightarrow> entityid list \<Rightarrow> entityid \<Rightarrow> claimKey list \<Rightarrow> (claimKey \<rightharpoonup> entityid)
   \<Rightarrow> (claimKey \<rightharpoonup> entityid) result" where
  "checkClaims uniqueClaims toRelease entityID [] pending = Ok pending"
| "checkClaims uniqueClaims toRelease entityID (k # ks) pending =
     (if \<not> (pending k = None \<or> pending k = Some entityID) then Err ErrUniqueViolation
      else if (case uniqueClaims k of
                 None \<Rightarrow> False
               | Some holder \<Rightarrow> holder \<noteq> entityID \<and> holder \<notin> set toRelease)
           then Err ErrUniqueViolation
      else checkClaims uniqueClaims toRelease entityID ks (pending(k \<mapsto> entityID)))"

definition entity_claim_key :: "tenant \<Rightarrow> Entity \<Rightarrow> UniqueClaim \<Rightarrow> claimKey" where
  "entity_claim_key tid entity =
     claim_key tid (EntityName (model_of entity)) (ModelVersion (model_of entity))"

fun validateClaims ::
  "compute_claims \<Rightarrow> (claimKey \<rightharpoonup> entityid) \<Rightarrow> tenant \<Rightarrow> (entityid \<rightharpoonup> UniqueKey list)
   \<Rightarrow> TransactionState \<Rightarrow> entityid list \<Rightarrow> (claimKey \<rightharpoonup> entityid)
   \<Rightarrow> (entityid \<rightharpoonup> UniqueClaim list) \<Rightarrow> (entityid \<rightharpoonup> UniqueClaim list) result" where
  "validateClaims cc uniqueClaims tid keys tx [] pending computed = Ok computed"
| "validateClaims cc uniqueClaims tid keys tx (entityID # ids) pending computed =
     (case map_of (tx_Buffer tx) entityID of
        None \<Rightarrow> Err (Panic ''nil entity in buffer'')
      | Some entity \<Rightarrow>
          (case cc (or_nil (keys entityID)) (Data entity) of
             Inl e \<Rightarrow> Err e
           | Inr claims \<Rightarrow>
               (case checkClaims uniqueClaims (tx_Deletes tx) entityID
                       (map (entity_claim_key tid entity) claims) pending of
                  Inl e \<Rightarrow> Err e
                | Inr pending' \<Rightarrow>
                    validateClaims cc uniqueClaims tid keys tx ids pending'
                      (computed(entityID \<mapsto> claims)))))"

definition deriveChangeType :: "string \<Rightarrow> bool \<Rightarrow> string" where
  "deriveChangeType callerChangeType hasPriorVersion =
     (if \<not> hasPriorVersion then ''CREATED''
      else if callerChangeType = '''' \<or> callerChangeType = ''CREATED'' then ''UPDATED''
      else callerChangeType)"

definition live_version :: "entityVersion \<Rightarrow> bool" where
  "live_version v \<longleftrightarrow> \<not> v_deleted v \<and> v_entity v \<noteq> None"

text \<open>The backward walk to the latest live row, 0 when there is none.\<close>

definition baseVersion_of :: "entityVersion list \<Rightarrow> int" where
  "baseVersion_of versions =
     (case find live_version (rev versions) of
        None \<Rightarrow> 0
      | Some v \<Rightarrow> (case v_entity v of None \<Rightarrow> 0 | Some e \<Rightarrow> m_Version (Meta e)))"

definition first_creationDate :: "entityVersion list \<Rightarrow> time" where
  "first_creationDate versions =
     (case versions of
        [] \<Rightarrow> 0
      | v # _ \<Rightarrow> (case v_entity v of None \<Rightarrow> 0 | Some e \<Rightarrow> m_CreationDate (Meta e)))"

definition flushRow ::
  "txid \<Rightarrow> tenant \<Rightarrow> time \<Rightarrow> time \<Rightarrow> int \<Rightarrow> bool \<Rightarrow> Entity \<Rightarrow> entityVersion" where
  "flushRow txID tid submitTime creationDate nextVersion hasPrior staged =
     (let changeType = deriveChangeType (m_ChangeType (Meta staged)) hasPrior;
          created = (if creationDate \<noteq> 0 then creationDate
                     else if m_CreationDate (Meta staged) = 0 then submitTime
                     else m_CreationDate (Meta staged));
          saved = staged\<lparr>Meta := (Meta staged)
                    \<lparr>m_Version := nextVersion, m_LastModifiedDate := submitTime,
                     m_TransactionID := txID, m_TenantID := tid, m_ChangeType := changeType,
                     m_CreationDate := created\<rparr>\<rparr>
      in \<lparr>v_entity = Some saved, v_version = nextVersion, v_transactionID = txID,
          v_submitTime = submitTime, v_deleted = False, v_changeType = changeType,
          v_user = m_ChangeUser (Meta staged), v_changeUserKind = m_ChangeUserKind (Meta staged),
          v_executor = m_ChangeExecutor (Meta staged)\<rparr>)"

fun flushRows ::
  "txid \<Rightarrow> tenant \<Rightarrow> time \<Rightarrow> time \<Rightarrow> int \<Rightarrow> bool \<Rightarrow> Entity list \<Rightarrow> entityVersion list" where
  "flushRows txID tid submitTime creationDate base hasPrior [] = []"
| "flushRows txID tid submitTime creationDate base hasPrior (staged # rest) =
     flushRow txID tid submitTime creationDate (base + 1) hasPrior staged
       # flushRows txID tid submitTime creationDate (base + 1) True rest"

definition toFlush :: "captured \<Rightarrow> entityid \<Rightarrow> Entity \<Rightarrow> Entity list" where
  "toFlush cap entityID entity =
     (case cap_superseded cap entityID of None \<Rightarrow> [] | Some s \<Rightarrow> sl_elems s) @ [entity]"

definition flushEntity ::
  "txid \<Rightarrow> tenant \<Rightarrow> time \<Rightarrow> captured \<Rightarrow> (entityid \<rightharpoonup> UniqueClaim list) \<Rightarrow> entityid \<times> Entity
   \<Rightarrow> StoreFactory \<Rightarrow> StoreFactory" where
  "flushEntity txID tid submitTime cap computed p f =
     (let entityID = fst p; entity = snd p;
          versions = versions_of f tid entityID;
          base = baseVersion_of versions;
          rows = flushRows txID tid submitTime (first_creationDate versions) base
                   (versions \<noteq> []) (toFlush cap entityID entity);
          f1 = set_versions tid entityID (versions @ rows) f;
          f2 = recordTxIndex tid entityID txID (base + 1) f1
      in insertClaims entityID tid (EntityName (model_of entity)) (ModelVersion (model_of entity))
           (or_nil (computed entityID)) (releaseClaims tid entityID f2))"

definition tombstoneRow ::
  "txid \<Rightarrow> time \<Rightarrow> int \<Rightarrow> WriteAttribution \<Rightarrow> entityVersion" where
  "tombstoneRow txID submitTime nextVersion a =
     \<lparr>v_entity = None, v_version = nextVersion, v_transactionID = txID,
      v_submitTime = submitTime, v_deleted = True, v_changeType = ''DELETED'',
      v_user = p_ID (Attributed a), v_changeUserKind = p_Kind (Attributed a),
      v_executor = Executor a\<rparr>"

definition flushDelete ::
  "Ctx \<Rightarrow> txid \<Rightarrow> tenant \<Rightarrow> time \<Rightarrow> TransactionState \<Rightarrow> entityid \<Rightarrow> StoreFactory \<Rightarrow> StoreFactory" where
  "flushDelete ctx txID tid submitTime tx entityID f =
     (let attribution = (case map_of (tx_DeleteAttribution tx) entityID of
                           None \<Rightarrow> c_Attribution ctx | Some a \<Rightarrow> a);
          versions = versions_of f tid entityID
      in set_versions tid entityID
           (versions @ [tombstoneRow txID submitTime (baseVersion_of versions + 1) attribution]) f)"

fun applyScheduledTaskOp ::
  "scheduledTaskOp \<Rightarrow> (string \<times> ScheduledTask) list \<Rightarrow> (string \<times> ScheduledTask) list" where
  "applyScheduledTaskOp (scheduledTaskUpsert opID task) dst = AList.update opID task dst"
| "applyScheduledTaskOp (scheduledTaskDelete opID) dst = AList.delete opID dst"

definition commit_flush ::
  "Ctx \<Rightarrow> txid \<Rightarrow> TransactionState \<Rightarrow> captured \<Rightarrow> (entityid \<rightharpoonup> UniqueClaim list) \<Rightarrow> time
   \<Rightarrow> StoreFactory \<Rightarrow> StoreFactory" where
  "commit_flush ctx txID tx cap computed submitTime f =
     (let tid = tx_TenantID tx;
          f1 = fold (releaseClaims tid) (tx_Deletes tx) f;
          f2 = fold (flushEntity txID tid submitTime cap computed) (tx_Buffer tx) f1;
          f3 = fold (flushDelete ctx txID tid submitTime tx) (tx_Deletes tx) f2
      in f3\<lparr>sf_scheduledTasks := fold applyScheduledTaskOp (cap_ops cap) (sf_scheduledTasks f3)\<rparr>)"

definition oldestSnapshot :: "(txid \<rightharpoonup> TransactionState) \<Rightarrow> txid list \<Rightarrow> time" where
  "oldestSnapshot heap active =
     fold (\<lambda>t oldest. case heap t of
             None \<Rightarrow> oldest
           | Some a \<Rightarrow> if oldest = 0 \<or> tx_SnapshotTime a < oldest then tx_SnapshotTime a else oldest)
       active 0"

definition pruneLog :: "time \<Rightarrow> committedTx list \<Rightarrow> committedTx list" where
  "pruneLog oldest log =
     (if oldest \<noteq> 0 then filter (\<lambda>c. \<not> ct_submitTime c < oldest) log else [])"

definition evictSubmitTimes ::
  "time \<Rightarrow> (txid \<rightharpoonup> submitTimeEntry) \<Rightarrow> (txid \<rightharpoonup> submitTimeEntry)" where
  "evictSubmitTimes evictBefore m =
     (\<lambda>id. case m id of
        None \<Rightarrow> None
      | Some e \<Rightarrow> if ste_submitTime e < evictBefore then None else Some e)"

definition commit_record ::
  "txid \<Rightarrow> TransactionState \<Rightarrow> time \<Rightarrow> time \<Rightarrow> StoreFactory \<Rightarrow> StoreFactory" where
  "commit_record txID tx submitTime now f =
     (let m = sf_txManager f;
          seq = tm_commitSeq m + 1;
          log = tm_committedLog m @
                  [\<lparr>ct_id = txID, ct_submitTime = submitTime, ct_seq = seq,
                    ct_writeSet = tx_WriteSet tx\<rparr>];
          times = evictSubmitTimes (now - submitTimeTTL)
                    ((tm_submitTimes m)(txID \<mapsto> \<lparr>ste_submitTime = submitTime,
                                                  ste_tenantID = tx_TenantID tx\<rparr>));
          m1 = forgetTx txID (m\<lparr>tm_commitSeq := seq, tm_submitTimes := times\<rparr>);
          oldest = oldestSnapshot (sf_txHeap f) (tm_active m1)
      in f\<lparr>sf_txManager := m1\<lparr>tm_committedLog := pruneLog oldest log\<rparr>\<rparr>)"

definition closeTx :: "txid \<Rightarrow> StoreFactory \<Rightarrow> StoreFactory" where
  "closeTx txID f =
     f\<lparr>sf_txHeap := (sf_txHeap f)(txID := map_option (\<lambda>tx. tx\<lparr>tx_Closed := True\<rparr>) (sf_txHeap f txID))\<rparr>"

text \<open>
  The body of \<^verbatim>\<open>Commit\<close> from the point where \<^verbatim>\<open>tx.OpMu\<close> and \<^verbatim>\<open>entityMu\<close> are held, with the two
  clock readings of \<^verbatim>\<open>nextSubmitTime\<close> and of the eviction cut-off.
\<close>

definition commit_body ::
  "compute_claims \<Rightarrow> time \<Rightarrow> time \<Rightarrow> Ctx \<Rightarrow> txid \<Rightarrow> TransactionState \<Rightarrow> StoreFactory
   \<Rightarrow> unit result \<times> StoreFactory" where
  "commit_body cc now1 now2 ctx txID tx f =
     (case commit_check txID tx f of
        (Inl e, f1) \<Rightarrow> (Err e, f1)
      | (Inr cap, f1) \<Rightarrow>
          (case validateClaims cc (sf_uniqueClaims f1) (tx_TenantID tx) (cap_keys cap) tx
                  (sort (map fst (tx_Buffer tx))) Map.empty Map.empty of
             Inl e \<Rightarrow> (Err e, set_tm (forgetTx txID) f1)
           | Inr computed \<Rightarrow>
               let (submitTime, m) = nextSubmitTime now1 (sf_txManager f1);
                   f2 = commit_flush ctx txID tx cap computed submitTime (f1\<lparr>sf_txManager := m\<rparr>)
               in (Ok (), commit_record txID tx submitTime now2 f2)))"

definition Commit ::
  "compute_claims \<Rightarrow> time \<Rightarrow> time \<Rightarrow> Ctx \<Rightarrow> txid \<Rightarrow> StoreFactory \<Rightarrow> unit result \<times> StoreFactory" where
  "Commit cc now1 now2 ctx txID f =
     (case commit_enter ctx txID f of
        Inl e \<Rightarrow> (Err e, f)
      | Inr f1 \<Rightarrow>
          (case active_tx f1 txID of
             None \<Rightarrow> (Err ErrTxNotFound, f)
           | Some tx \<Rightarrow> map_prod id (closeTx txID) (commit_body cc now1 now2 ctx txID tx f1)))"

definition rollback_enter :: "Ctx \<Rightarrow> txid \<Rightarrow> StoreFactory \<Rightarrow> unit result" where
  "rollback_enter ctx txID f =
     (case active_tx f txID of
        None \<Rightarrow> Err ErrTxNotFound
      | Some tx \<Rightarrow> if c_User ctx \<noteq> Some (tx_TenantID tx) then Err ErrTxTenantMismatch else Ok ())"

definition markRolledBack :: "txid \<Rightarrow> StoreFactory \<Rightarrow> StoreFactory" where
  "markRolledBack txID f =
     f\<lparr>sf_txHeap := (sf_txHeap f)(txID := map_option (\<lambda>tx. tx\<lparr>tx_RolledBack := True\<rparr>) (sf_txHeap f txID))\<rparr>"

definition rollback_body :: "txid \<Rightarrow> StoreFactory \<Rightarrow> StoreFactory" where
  "rollback_body txID f = closeTx txID (set_tm (forgetTx txID) (markRolledBack txID f))"

definition Rollback :: "Ctx \<Rightarrow> txid \<Rightarrow> StoreFactory \<Rightarrow> unit result \<times> StoreFactory" where
  "Rollback ctx txID f =
     (case rollback_enter ctx txID f of
        Inl e \<Rightarrow> (Err e, f)
      | Inr _ \<Rightarrow> (Ok (), rollback_body txID f))"

definition GetSubmitTime :: "Ctx \<Rightarrow> txid \<Rightarrow> StoreFactory \<Rightarrow> time result" where
  "GetSubmitTime ctx txID f =
     (case active_tx f txID of
        Some tx \<Rightarrow>
          if c_User ctx \<noteq> Some (tx_TenantID tx) then Err ErrTxTenantMismatch
          else Err (ErrMsg ''transaction not yet committed'')
      | None \<Rightarrow>
          (case tm_submitTimes (sf_txManager f) txID of
             Some e \<Rightarrow>
               if c_User ctx \<noteq> Some (ste_tenantID e) then Err ErrTxTenantMismatch
               else Ok (ste_submitTime e)
           | None \<Rightarrow> Err ErrTxNotFound))"

definition CommittedLogLen :: "StoreFactory \<Rightarrow> nat" where
  "CommittedLogLen f = length (tm_committedLog (sf_txManager f))"

text \<open>The lookup, tenant and liveness checks shared by the savepoint operations.\<close>

definition checkOpen :: "TransactionState \<Rightarrow> unit result" where
  "checkOpen tx =
     (if tx_RolledBack tx then Err ErrTxRolledBack
      else if tx_Closed tx then Err ErrTxAlreadyCommitted else Ok ())"

definition activeForTenant :: "Ctx \<Rightarrow> txid \<Rightarrow> StoreFactory \<Rightarrow> TransactionState result" where
  "activeForTenant ctx txID f =
     (case active_tx f txID of
        None \<Rightarrow> Err ErrTxNotFound
      | Some tx \<Rightarrow> if c_User ctx \<noteq> Some (tx_TenantID tx) then Err ErrTxTenantMismatch else Ok tx)"

definition takeSnapshot :: "txid \<Rightarrow> TransactionManager \<Rightarrow> TransactionState \<Rightarrow> savepointSnapshot" where
  "takeSnapshot txID m tx =
     \<lparr>sp_buffer = tx_Buffer tx, sp_readSet = tx_ReadSet tx, sp_writeSet = tx_WriteSet tx,
      sp_deletes = tx_Deletes tx, sp_deleteAttribution = tx_DeleteAttribution tx,
      sp_scheduledTaskOpsLen = length (or_nil (tm_scheduledTaskOps m txID)),
      sp_supersededLens =
        (\<lambda>eid. map_option (\<lambda>s. length (sl_elems s)) (map_of (or_nil (tm_supersededSaves m txID)) eid))\<rparr>"

definition Savepoint :: "string \<Rightarrow> Ctx \<Rightarrow> txid \<Rightarrow> StoreFactory \<Rightarrow> string result \<times> StoreFactory" where
  "Savepoint newID ctx txID f =
     (case activeForTenant ctx txID f of
        Inl e \<Rightarrow> (Err e, f)
      | Inr tx \<Rightarrow>
          (case checkOpen tx of
             Inl e \<Rightarrow> (Err e, f)
           | Inr _ \<Rightarrow>
               (Ok newID,
                set_tm (\<lambda>m. m\<lparr>tm_savepoints :=
                                update2 (tm_savepoints m) txID newID
                                  (takeSnapshot txID m tx)\<rparr>) f)))"

definition restoreTx :: "savepointSnapshot \<Rightarrow> TransactionState \<Rightarrow> TransactionState" where
  "restoreTx snap tx =
     tx\<lparr>tx_Buffer := sp_buffer snap, tx_ReadSet := sp_readSet snap, tx_WriteSet := sp_writeSet snap,
        tx_Deletes := sp_deletes snap, tx_DeleteAttribution := sp_deleteAttribution snap\<rparr>"

definition truncateOps :: "nat \<Rightarrow> scheduledTaskOp list option \<Rightarrow> scheduledTaskOp list option" where
  "truncateOps opsLen ops =
     (if opsLen < length (or_nil ops) then Some (take opsLen (or_nil ops)) else ops)"

fun truncateSuperseded ::
  "(entityid \<rightharpoonup> nat) \<Rightarrow> (entityid \<times> Entity slice) list
   \<Rightarrow> unit result \<times> (entityid \<times> Entity slice) list" where
  "truncateSuperseded lens [] = (Ok (), [])"
| "truncateSuperseded lens ((eid, entries) # rest) =
     (case lens eid of
        None \<Rightarrow> truncateSuperseded lens rest
      | Some l \<Rightarrow>
          (case slice_to l entries of
             None \<Rightarrow> (Err (Panic ''slice bounds out of range''), (eid, entries) # rest)
           | Some s \<Rightarrow> map_prod id (Cons (eid, s)) (truncateSuperseded lens rest)))"

definition RollbackToSavepoint ::
  "Ctx \<Rightarrow> txid \<Rightarrow> string \<Rightarrow> StoreFactory \<Rightarrow> unit result \<times> StoreFactory" where
  "RollbackToSavepoint ctx txID savepointID f =
     (case activeForTenant ctx txID f of
        Inl e \<Rightarrow> (Err e, f)
      | Inr tx \<Rightarrow>
          (case checkOpen tx of
             Inl e \<Rightarrow> (Err e, f)
           | Inr _ \<Rightarrow>
               (case lookup2 (tm_savepoints (sf_txManager f)) txID savepointID of
                  None \<Rightarrow> (Err ErrSavepointNotFound, f)
                | Some snap \<Rightarrow>
                    let m = sf_txManager f;
                        m1 = m\<lparr>tm_scheduledTaskOps := (tm_scheduledTaskOps m)
                               (txID := truncateOps (sp_scheduledTaskOpsLen snap)
                                          (tm_scheduledTaskOps m txID))\<rparr>;
                        (r, trunc) = truncateSuperseded (sp_supersededLens snap)
                                     (or_nil (tm_supersededSaves m txID));
                        m2 = m1\<lparr>tm_supersededSaves := (tm_supersededSaves m)
                               (txID := map_option (\<lambda>_. trunc) (tm_supersededSaves m txID))\<rparr>;
                        m3 = m2\<lparr>tm_savepoints := (tm_savepoints m)
                               (txID := map_option (\<lambda>sps. sps(savepointID := None))
                                          (tm_savepoints m txID))\<rparr>;
                        f1 = set_tx txID (restoreTx snap tx) f
                    in (case r of
                          Inl e \<Rightarrow> (Err e, f1\<lparr>sf_txManager := m2\<rparr>)
                        | Inr _ \<Rightarrow> (Ok (), f1\<lparr>sf_txManager := m3\<rparr>)))))"

definition ReleaseSavepoint ::
  "Ctx \<Rightarrow> txid \<Rightarrow> string \<Rightarrow> StoreFactory \<Rightarrow> unit result \<times> StoreFactory" where
  "ReleaseSavepoint ctx txID savepointID f =
     (case activeForTenant ctx txID f of
        Inl e \<Rightarrow> (Err e, f)
      | Inr tx \<Rightarrow>
          (case lookup2 (tm_savepoints (sf_txManager f)) txID savepointID of
             None \<Rightarrow> (Err ErrSavepointNotFound, f)
           | Some _ \<Rightarrow>
               (Ok (),
                set_tm (\<lambda>m. m\<lparr>tm_savepoints := (tm_savepoints m)
                    (txID := map_option (\<lambda>sps. sps(savepointID := None)) (tm_savepoints m txID))\<rparr>) f)))"

text \<open>
  Well-formedness of a transaction's buffers: the buffer is keyed by entity ID, a staged delete
  and a buffered write exclude each other, both are in the write set, and a delete's attribution
  is recorded exactly for the staged deletes.
\<close>

definition buf_ok ::
  "(entityid \<times> Entity) list \<Rightarrow> entityid list \<Rightarrow> entityid list \<Rightarrow> (entityid \<times> WriteAttribution) list
   \<Rightarrow> bool" where
  "buf_ok buf ws dels attr \<longleftrightarrow>
     distinct (map fst buf) \<and> (\<forall>p \<in> set buf. entity_id (snd p) = fst p) \<and> distinct dels \<and>
     set dels \<inter> fst ` set buf = {} \<and> fst ` set buf \<union> set dels \<subseteq> set ws \<and> fst ` set attr = set dels"

definition tx_ok :: "txid \<Rightarrow> TransactionState \<Rightarrow> bool" where
  "tx_ok t tx \<longleftrightarrow>
     tx_ID tx = t \<and> buf_ok (tx_Buffer tx) (tx_WriteSet tx) (tx_Deletes tx) (tx_DeleteAttribution tx)"

definition snap_ok :: "savepointSnapshot \<Rightarrow> bool" where
  "snap_ok s \<longleftrightarrow> buf_ok (sp_buffer s) (sp_writeSet s) (sp_deletes s) (sp_deleteAttribution s)"

definition sup_ok :: "(entityid \<times> Entity slice) list \<Rightarrow> bool" where
  "sup_ok ss \<longleftrightarrow>
     distinct (map fst ss) \<and> (\<forall>p \<in> set ss. \<forall>e \<in> set (sl_elems (snd p) @ sl_stale (snd p)). entity_id e = fst p)"

definition mem_inv :: "StoreFactory \<Rightarrow> bool" where
  "mem_inv f \<longleftrightarrow>
     hist_ok f \<and> claims_ok f \<and>
     (\<forall>t tx. sf_txHeap f t = Some tx \<longrightarrow>
        tx_ok t tx \<and> tx_SnapshotTime tx \<le> tm_lastSubmitTime (sf_txManager f)) \<and>
     (\<forall>t sp s. lookup2 (tm_savepoints (sf_txManager f)) t sp = Some s \<longrightarrow> snap_ok s) \<and>
     (\<forall>t. sup_ok (or_nil (tm_supersededSaves (sf_txManager f) t)))"

text \<open>The keys one buffered entity claims.\<close>

definition claimedKeys ::
  "tenant \<Rightarrow> (entityid \<rightharpoonup> UniqueClaim list) \<Rightarrow> entityid \<times> Entity \<Rightarrow> claimKey list" where
  "claimedKeys tid computed p = map (entity_claim_key tid (snd p)) (or_nil (computed (fst p)))"

text \<open>
  The submit-time contract between the transaction manager and the writers: a stamp is strictly
  above the floor, a reserved snapshot is at or above it, and both become the new floor.
\<close>

locale submit_clock =
  fixes floor :: "'s \<Rightarrow> time"
    and stamp :: "time \<Rightarrow> 's \<Rightarrow> time \<times> 's"
    and reserve :: "time \<Rightarrow> 's \<Rightarrow> time \<times> 's"
  assumes stamp_above: "floor s < fst (stamp now s)"
    and stamp_floor: "floor (snd (stamp now s)) = fst (stamp now s)"
    and reserve_above: "floor s \<le> fst (reserve now s)"
    and reserve_floor: "floor (snd (reserve now s)) = fst (reserve now s)"
begin

fun issue :: "(bool \<times> time) list \<Rightarrow> 's \<Rightarrow> (bool \<times> time) list" where
  "issue [] s = []"
| "issue ((b, now) # evs) s =
     (let r = (if b then stamp now s else reserve now s) in (b, fst r) # issue evs (snd r))"

lemma issue_above:
  "(b, t) \<in> set (issue evs s) \<Longrightarrow> (if b then floor s < t else floor s \<le> t)"
proof (induction evs s arbitrary: b t rule: issue.induct)
  case (2 b' now evs s)
  have "floor s \<le> floor (snd (if b' then stamp now s else reserve now s))"
    using stamp_above [of s now] reserve_above [of s now]
    by (simp add: stamp_floor reserve_floor)
  then show ?case
    using 2 stamp_above [of s now] reserve_above [of s now]
    by (fastforce simp: Let_def split: if_splits)
qed simp

lemma issue_ordered:
  "sorted_wrt (\<lambda>x y. if fst y then snd x < snd y else snd x \<le> snd y) (issue evs s)"
proof (induction evs s rule: issue.induct)
  case (2 b now evs s)
  let ?r = "if b then stamp now s else reserve now s"
  have "floor (snd ?r) = fst ?r" by (simp add: stamp_floor reserve_floor)
  then show ?case using 2 by (auto simp: Let_def dest: issue_above split: if_splits)
qed simp

end

interpretation sc: submit_clock tm_lastSubmitTime nextSubmitTime reserveSnapshotTime
  by unfold_locales (simp_all add: nextSubmitTime_def reserveSnapshotTime_def Let_def microsecond_def)

lemma nextSubmitTime_eq:
  "nextSubmitTime now m = (t, m') \<Longrightarrow>
   tm_lastSubmitTime m < t \<and> m' = m\<lparr>tm_lastSubmitTime := t\<rparr>"
  using sc.stamp_above [of m now] by (auto simp: nextSubmitTime_def Let_def)

lemma reserveSnapshotTime_eq:
  "reserveSnapshotTime now m = (t, m') \<Longrightarrow>
   tm_lastSubmitTime m \<le> t \<and> m' = m\<lparr>tm_lastSubmitTime := t\<rparr>"
  using sc.reserve_above [of m now] by (auto simp: reserveSnapshotTime_def Let_def)

text \<open>Rows written by a commit.\<close>

lemma flushRow_sel [simp]:
  "v_submitTime (flushRow t tid st cd n hp e) = st" "v_transactionID (flushRow t tid st cd n hp e) = t"
  "v_version (flushRow t tid st cd n hp e) = n" "v_deleted (flushRow t tid st cd n hp e) = False"
  by (simp_all add: flushRow_def Let_def)

lemma row_ok_flushRow: "entity_id e = eid \<Longrightarrow> row_ok tid eid (flushRow t tid st cd n hp e)"
  by (simp add: row_ok_def flushRow_def Let_def)

lemma row_ok_tombstone: "row_ok tid eid (tombstoneRow t st n a)"
  by (simp add: row_ok_def tombstoneRow_def)

lemma flushRows_ok:
  assumes "\<forall>e \<in> set es. entity_id e = eid"
  shows "\<forall>r \<in> set (flushRows t tid st cd b hp es). v_submitTime r = st \<and> row_ok tid eid r"
  using assms by (induction es arbitrary: b hp) (auto simp: row_ok_flushRow)

lemma toFlush_ids:
  assumes "entity_id e = eid" "\<And>s. cap_superseded cap eid = Some s \<Longrightarrow> \<forall>x \<in> set (sl_elems s). entity_id x = eid"
  shows "\<forall>x \<in> set (toFlush cap eid e). entity_id x = eid"
  using assms by (cases "cap_superseded cap eid") (auto simp: toFlush_def)

lemma versions_of_claims [simp]:
  "versions_of (releaseClaims tid eid f) = versions_of f"
  "versions_of (insertClaims eid tid model version cs f) = versions_of f"
  "versions_of (recordTxIndex tid eid t n f) = versions_of f"
  "versions_of (set_tm g f) = versions_of f" "versions_of (set_tx t tx f) = versions_of f"
  by (rule versions_of_cong; simp)+

lemma entityData_flushEntity:
  "sf_entityData (flushEntity t tid st cap computed p f) =
   sf_entityData (set_versions tid (fst p)
     (versions_of f tid (fst p) @
      flushRows t tid st (first_creationDate (versions_of f tid (fst p)))
        (baseVersion_of (versions_of f tid (fst p))) (versions_of f tid (fst p) \<noteq> [])
        (toFlush cap (fst p) (snd p))) f)"
  by (simp add: flushEntity_def Let_def)

lemma appended_flushEntity:
  assumes "entity_id (snd p) = fst p"
    and "\<And>s. cap_superseded cap (fst p) = Some s \<Longrightarrow> \<forall>x \<in> set (sl_elems s). entity_id x = fst p"
  shows "appended st f (flushEntity t tid st cap computed p f)"
  by (rule appended_cong [OF appended_set_versions entityData_flushEntity])
     (rule flushRows_ok, rule toFlush_ids, use assms in auto)

lemma appended_flushDelete: "appended st f (flushDelete ctx t tid st tx eid f)"
  unfolding flushDelete_def Let_def
  by (rule appended_set_versions) (simp add: row_ok_tombstone, simp add: tombstoneRow_def)

lemma keys_ok_flushEntity: "keys_ok f \<Longrightarrow> keys_ok (flushEntity t tid st cap computed p f)"
  by (rule keys_ok_cong [OF keys_ok_set_versions entityData_flushEntity])

lemma keys_ok_flushDelete: "keys_ok f \<Longrightarrow> keys_ok (flushDelete ctx t tid st tx eid f)"
  by (simp add: flushDelete_def Let_def keys_ok_set_versions)

lemma keys_ok_fold: "(\<And>x f. keys_ok f \<Longrightarrow> keys_ok (g x f)) \<Longrightarrow> keys_ok f \<Longrightarrow> keys_ok (fold g xs f)"
  by (induction xs arbitrary: f) auto

lemma fold_frame: "(\<And>x f. sel (g x f) = sel f) \<Longrightarrow> sel (fold g xs f) = sel f"
  by (induction xs arbitrary: f) auto

lemma flushEntity_frame [simp]:
  "sf_txManager (flushEntity t tid st cap computed p f) = sf_txManager f"
  "sf_txHeap (flushEntity t tid st cap computed p f) = sf_txHeap f"
  "sf_scheduledTasks (flushEntity t tid st cap computed p f) = sf_scheduledTasks f"
  by (simp_all add: flushEntity_def Let_def)

lemma flushDelete_frame [simp]:
  "sf_txManager (flushDelete ctx t tid st tx eid f) = sf_txManager f"
  "sf_txHeap (flushDelete ctx t tid st tx eid f) = sf_txHeap f"
  "sf_scheduledTasks (flushDelete ctx t tid st tx eid f) = sf_scheduledTasks f"
  "sf_txIndex (flushDelete ctx t tid st tx eid f) = sf_txIndex f"
  "sf_uniqueClaims (flushDelete ctx t tid st tx eid f) = sf_uniqueClaims f"
  "sf_claimsByEntity (flushDelete ctx t tid st tx eid f) = sf_claimsByEntity f"
  by (simp_all add: flushDelete_def Let_def)

lemma commit_flush_frame [simp]:
  "sf_txManager (commit_flush ctx t tx cap computed st f) = sf_txManager f"
  "sf_txHeap (commit_flush ctx t tx cap computed st f) = sf_txHeap f"
  by (simp_all add: commit_flush_def Let_def fold_frame [where sel = sf_txManager]
      fold_frame [where sel = sf_txHeap])

lemma commit_flush_tasks:
  "sf_scheduledTasks (commit_flush ctx t tx cap computed st f) =
   fold applyScheduledTaskOp (cap_ops cap) (sf_scheduledTasks f)"
  by (simp add: commit_flush_def Let_def fold_frame [where sel = sf_scheduledTasks])

lemma appended_commit_flush:
  assumes "tx_ok t' tx"
    and "\<And>eid s. cap_superseded cap eid = Some s \<Longrightarrow> \<forall>x \<in> set (sl_elems s). entity_id x = eid"
  shows "appended st f (commit_flush ctx t tx cap computed st f)"
proof -
  let ?tid = "tx_TenantID tx"
  let ?f1 = "fold (releaseClaims ?tid) (tx_Deletes tx) f"
  let ?f2 = "fold (flushEntity t ?tid st cap computed) (tx_Buffer tx) ?f1"
  let ?f3 = "fold (flushDelete ctx t ?tid st tx) (tx_Deletes tx) ?f2"
  have "appended st f ?f1" by (rule appended_fold) (rule appended_same, simp)
  also have "appended st ?f1 ?f2"
    using assms by (intro appended_fold appended_flushEntity) (auto simp: tx_ok_def buf_ok_def)
  finally (appended_trans) have "appended st f ?f2" .
  moreover have "appended st ?f2 ?f3" by (intro appended_fold appended_flushDelete)
  ultimately have "appended st f ?f3" by (rule appended_trans)
  then show ?thesis by (rule appended_cong) (simp add: commit_flush_def Let_def)
qed

lemma keys_ok_commit_flush: "keys_ok f \<Longrightarrow> keys_ok (commit_flush ctx t tx cap computed st f)"
proof -
  assume f: "keys_ok f"
  let ?tid = "tx_TenantID tx"
  let ?f1 = "fold (releaseClaims ?tid) (tx_Deletes tx) f"
  let ?f2 = "fold (flushEntity t ?tid st cap computed) (tx_Buffer tx) ?f1"
  have "keys_ok (fold (flushDelete ctx t ?tid st tx) (tx_Deletes tx) ?f2)"
    by (intro keys_ok_fold keys_ok_flushDelete keys_ok_flushEntity f)
       (simp_all add: keys_ok_cong)
  then show ?thesis by (rule keys_ok_cong) (simp add: commit_flush_def Let_def)
qed

text \<open>Validation of the unique-key claims, and what the flush makes of them.\<close>

lemma checkClaims_effect:
  "checkClaims uc rel eid ks pending = Inr p' \<Longrightarrow>
   p' = (\<lambda>k. if k \<in> set ks then Some eid else pending k) \<and>
   (\<forall>k \<in> set ks. pending k \<in> {None, Some eid} \<and> uc k \<in> insert None (Some ` insert eid (set rel)))"
proof (induction ks arbitrary: pending)
  case (Cons a ks)
  then have a: "pending a \<in> {None, Some eid}" "uc a \<in> insert None (Some ` insert eid (set rel))"
    and rest: "checkClaims uc rel eid ks (pending(a \<mapsto> eid)) = Inr p'"
    by (auto split: if_splits option.splits)
  from Cons.IH [OF rest] a show ?case by (auto simp: fun_eq_iff split: if_splits)
qed simp

lemma checkClaims_Ok:
  assumes "checkClaims uc rel eid ks pending = Inr p'"
  shows "p' = (\<lambda>k. if k \<in> set ks then Some eid else pending k)"
    and "k \<in> set ks \<Longrightarrow> pending k \<in> {None, Some eid}"
    and "k \<in> set ks \<Longrightarrow> uc k \<in> insert None (Some ` insert eid (set rel))"
  using checkClaims_effect [OF assms] by blast+

lemma validateClaims_Ok:
  assumes "validateClaims cc uc tid keys tx ids pending computed = Inr computed'" "distinct ids"
  shows "e \<notin> set ids \<Longrightarrow> computed' e = computed e"
    and "e \<in> set ids \<Longrightarrow>
      \<exists>ent cs. map_of (tx_Buffer tx) e = Some ent \<and> cc (or_nil (keys e)) (Data ent) = Inr cs \<and>
        computed' e = Some cs \<and>
        (\<forall>k \<in> set (claimedKeys tid computed' (e, ent)).
           pending k \<in> {None, Some e} \<and> uc k \<in> insert None (Some ` insert e (set (tx_Deletes tx))))"
  using assms
proof (induction ids arbitrary: pending computed e)
  case (Cons i ids)
  {
    case 1
    then show ?case using Cons.IH(1) by (auto split: option.splits sum.splits)
  next
    case 2
    then obtain ent cs p' where i: "map_of (tx_Buffer tx) i = Some ent"
      "cc (or_nil (keys i)) (Data ent) = Inr cs"
      "checkClaims uc (tx_Deletes tx) i (map (entity_claim_key tid ent) cs) pending = Inr p'"
      "validateClaims cc uc tid keys tx ids p' (computed(i \<mapsto> cs)) = Inr computed'" "i \<notin> set ids" "distinct ids"
      by (auto split: option.splits sum.splits)
    have ci: "computed' i = Some cs" using Cons.IH(1) [OF _ i(4,6), of i] i(5) by simp
    show ?case
    proof (cases "e = i")
      case True
      then show ?thesis
        using i ci checkClaims_Ok(2,3) [OF i(3)] by (auto simp: claimedKeys_def)
    next
      case False
      then have "e \<in> set ids" using 2 by simp
      from Cons.IH(2) [OF this i(4,6)] obtain ent' cs' where *:
        "map_of (tx_Buffer tx) e = Some ent'" "cc (or_nil (keys e)) (Data ent') = Inr cs'"
        "computed' e = Some cs'"
        "\<forall>k \<in> set (claimedKeys tid computed' (e, ent')).
           p' k \<in> {None, Some e} \<and> uc k \<in> insert None (Some ` insert e (set (tx_Deletes tx)))"
        by blast
      then show ?thesis using checkClaims_Ok(1) [OF i(3)] False by (auto split: if_splits)
    qed
  }
qed auto

lemma validateClaims_disjoint:
  assumes "validateClaims cc uc tid keys tx ids pending computed = Inr computed'" "distinct ids"
    and "e \<in> set ids" "e' \<in> set ids" "e \<noteq> e'"
    and "map_of (tx_Buffer tx) e = Some ent" "map_of (tx_Buffer tx) e' = Some ent'"
  shows "set (claimedKeys tid computed' (e, ent)) \<inter> set (claimedKeys tid computed' (e', ent')) = {}"
  using assms
proof (induction ids arbitrary: pending computed e e' ent ent')
  case (Cons i ids)
  then obtain enti cs p' where i: "map_of (tx_Buffer tx) i = Some enti"
    "checkClaims uc (tx_Deletes tx) i (map (entity_claim_key tid enti) cs) pending = Inr p'"
    "validateClaims cc uc tid keys tx ids p' (computed(i \<mapsto> cs)) = Inr computed'" "i \<notin> set ids" "distinct ids"
    by (auto split: option.splits sum.splits)
  have ci: "computed' i = Some cs" using validateClaims_Ok(1) [OF i(3,5), of i] i(4) by simp
  have *: "set (claimedKeys tid computed' (i, enti)) \<inter> set (claimedKeys tid computed' (x, entx)) = {}"
    if "x \<in> set ids" "map_of (tx_Buffer tx) x = Some entx" for x entx
  proof -
    have "\<forall>k \<in> set (claimedKeys tid computed' (x, entx)). p' k \<in> {None, Some x}"
      using validateClaims_Ok(2) [OF i(3,5) that(1)] that(2) by auto
    moreover have "\<forall>k \<in> set (claimedKeys tid computed' (i, enti)). p' k = Some i"
      using checkClaims_Ok(1) [OF i(2)] ci by (auto simp: claimedKeys_def)
    ultimately show ?thesis using that(1) i(4) by fastforce
  qed
  show ?case
  proof (cases "e = i \<or> e' = i")
    case True
    then show ?thesis using Cons.prems i(1) * by (metis Int_commute option.inject set_ConsD)
  next
    case False
    then show ?thesis using Cons.IH [OF i(3,5)] Cons.prems by auto
  qed
qed auto

lemma flushEntity_claims:
  "sf_uniqueClaims (flushEntity t tid st cap computed p f) =
   sf_uniqueClaims (insertClaims (fst p) tid (EntityName (model_of (snd p)))
      (ModelVersion (model_of (snd p))) (or_nil (computed (fst p))) (releaseClaims tid (fst p) f))"
  "sf_claimsByEntity (flushEntity t tid st cap computed p f) =
   sf_claimsByEntity (insertClaims (fst p) tid (EntityName (model_of (snd p)))
      (ModelVersion (model_of (snd p))) (or_nil (computed (fst p))) (releaseClaims tid (fst p) f))"
  by (simp_all add: flushEntity_def releaseClaims_def insertClaims_def Let_def)

lemma claimsOf_flushEntity:
  "claimsOf (flushEntity t tid st cap computed p f) tid' e =
     (if tid = tid' \<and> e = fst p then claimedKeys tid computed p else claimsOf f tid' e)"
  using claimsOf_cong [OF flushEntity_claims(2), of t tid st cap computed p f tid' e]
  by (auto simp: claimsOf_insert claimsOf_release claimedKeys_def entity_claim_key_def)

lemma claims_ok_flushEntity:
  assumes "claims_ok f" "\<forall>k \<in> set (claimedKeys tid computed p). sf_uniqueClaims f k \<in> {None, Some (fst p)}"
  shows "claims_ok (flushEntity t tid st cap computed p f)"
  unfolding claims_ok_cong [OF flushEntity_claims(2,1)]
  using assms by (intro claims_ok_replace) (auto simp: claimedKeys_def entity_claim_key_def)

lemma uniqueClaims_flushEntity:
  assumes "claims_ok f" "k \<notin> set (claimedKeys tid computed p)"
  shows "sf_uniqueClaims (flushEntity t tid st cap computed p f) k \<in> {None, sf_uniqueClaims f k}"
  using assms
  by (auto simp: flushEntity_claims uniqueClaims_insert uniqueClaims_release claimedKeys_def
      entity_claim_key_def)

lemma flush_claims:
  assumes "claims_ok f" "distinct (map fst ps)"
    and "\<forall>p \<in> set ps. \<forall>k \<in> set (claimedKeys tid computed p). sf_uniqueClaims f k \<in> {None, Some (fst p)}"
    and "\<forall>p \<in> set ps. \<forall>q \<in> set ps. fst p \<noteq> fst q \<longrightarrow>
           set (claimedKeys tid computed p) \<inter> set (claimedKeys tid computed q) = {}"
  shows "claims_ok (fold (flushEntity t tid st cap computed) ps f) \<and>
         (\<forall>tid' e. claimsOf (fold (flushEntity t tid st cap computed) ps f) tid' e =
            (case map_of ps e of
               Some ent \<Rightarrow> if tid' = tid then claimedKeys tid computed (e, ent) else claimsOf f tid' e
             | None \<Rightarrow> claimsOf f tid' e))"
  using assms
proof (induction ps arbitrary: f)
  case (Cons p ps)
  let ?g = "flushEntity t tid st cap computed p f"
  have g: "claims_ok ?g" using Cons.prems by (intro claims_ok_flushEntity) auto
  have "\<forall>q \<in> set ps. \<forall>k \<in> set (claimedKeys tid computed q). sf_uniqueClaims ?g k \<in> {None, Some (fst q)}"
  proof (intro ballI)
    fix q k assume q: "q \<in> set ps" and k: "k \<in> set (claimedKeys tid computed q)"
    then have "fst p \<noteq> fst q" using Cons.prems(2) by auto
    then have "k \<notin> set (claimedKeys tid computed p)" using Cons.prems(4) q k by fastforce
    from uniqueClaims_flushEntity [OF Cons.prems(1) this, of t st cap]
    moreover have "sf_uniqueClaims f k \<in> {None, Some (fst q)}" using Cons.prems(3) q k by simp
    ultimately show "sf_uniqueClaims ?g k \<in> {None, Some (fst q)}" by auto
  qed
  from Cons.IH [OF g _ this] Cons.prems(2,4)
  have IH: "claims_ok (fold (flushEntity t tid st cap computed) ps ?g)"
    "claimsOf (fold (flushEntity t tid st cap computed) ps ?g) tid' e =
      (case map_of ps e of
         Some ent \<Rightarrow> if tid' = tid then claimedKeys tid computed (e, ent) else claimsOf ?g tid' e
       | None \<Rightarrow> claimsOf ?g tid' e)" for tid' e
    by auto
  have "map_of ps (fst p) = None" using Cons.prems(2) by (simp add: map_of_eq_None_iff)
  then show ?case using IH
    by (cases p) (auto simp: claimsOf_flushEntity split: option.splits)
qed auto

lemma claimsOf_fold_release:
  "claimsOf (fold (releaseClaims tid) ds f) tid' e =
     (if tid' = tid \<and> e \<in> set ds then [] else claimsOf f tid' e)"
  by (induction ds arbitrary: f) (auto simp: claimsOf_release)

lemma claims_ok_fold_release: "claims_ok f \<Longrightarrow> claims_ok (fold (releaseClaims tid) ds f)"
  by (induction ds arbitrary: f) (auto simp: claims_ok_release)

lemma uniqueClaims_fold_release:
  assumes "claims_ok f"
  shows "sf_uniqueClaims (fold (releaseClaims tid) ds f) k =
     (if ck_tenant k = tid \<and> sf_uniqueClaims f k \<in> Some ` set ds then None else sf_uniqueClaims f k)"
  using assms
proof (induction ds arbitrary: f)
  case (Cons d ds)
  have "claims_ok (releaseClaims tid d f)" using Cons.prems by (rule claims_ok_release)
  from Cons.IH [OF this] show ?case
    by (auto simp: uniqueClaims_release claims_ok_D [OF Cons.prems])
qed simp

text \<open>
  The claim index after the flush of a validated transaction: still consistent; a buffered entity
  holds exactly the keys computed for its final value, a deleted one holds none, and the claims
  of every other entity are those it had.
\<close>

lemma commit_flush_claims:
  assumes "claims_ok f" "tx_ok t' tx"
    and v: "validateClaims cc (sf_uniqueClaims f) (tx_TenantID tx) keys tx
              (sort (map fst (tx_Buffer tx))) Map.empty Map.empty = Inr computed"
  shows "claims_ok (commit_flush ctx t tx cap computed st f) \<and>
         (\<forall>tid e. claimsOf (commit_flush ctx t tx cap computed st f) tid e =
            (if tid \<noteq> tx_TenantID tx then claimsOf f tid e
             else case map_of (tx_Buffer tx) e of
                    Some ent \<Rightarrow> claimedKeys tid computed (e, ent)
                  | None \<Rightarrow> if e \<in> set (tx_Deletes tx) then [] else claimsOf f tid e))"
proof -
  let ?tid = "tx_TenantID tx"
  let ?f1 = "fold (releaseClaims ?tid) (tx_Deletes tx) f"
  let ?f2 = "fold (flushEntity t ?tid st cap computed) (tx_Buffer tx) ?f1"
  have d: "distinct (map fst (tx_Buffer tx))" using assms(2) by (simp add: tx_ok_def buf_ok_def)
  then have d': "distinct (sort (map fst (tx_Buffer tx)))" by simp
  have mem: "fst p \<in> set (sort (map fst (tx_Buffer tx)))" "map_of (tx_Buffer tx) (fst p) = Some (snd p)"
    if "p \<in> set (tx_Buffer tx)" for p
    using that d by auto
  have tn: "ck_tenant k = ?tid" if "k \<in> set (claimedKeys ?tid computed p)" for k p
    using that by (auto simp: claimedKeys_def entity_claim_key_def)
  have 1: "claims_ok ?f1" using assms(1) by (rule claims_ok_fold_release)
  have 2: "\<forall>p \<in> set (tx_Buffer tx). \<forall>k \<in> set (claimedKeys ?tid computed p).
      sf_uniqueClaims ?f1 k \<in> {None, Some (fst p)}"
  proof (intro ballI)
    fix p k assume p: "p \<in> set (tx_Buffer tx)" and k: "k \<in> set (claimedKeys ?tid computed p)"
    have "sf_uniqueClaims f k \<in> insert None (Some ` insert (fst p) (set (tx_Deletes tx)))"
      using validateClaims_Ok(2) [OF v d' mem(1) [OF p]] mem(2) [OF p] k by auto
    then show "sf_uniqueClaims ?f1 k \<in> {None, Some (fst p)}"
      using tn [OF k] by (auto simp: uniqueClaims_fold_release [OF assms(1)])
  qed
  have 3: "\<forall>p \<in> set (tx_Buffer tx). \<forall>q \<in> set (tx_Buffer tx). fst p \<noteq> fst q \<longrightarrow>
      set (claimedKeys ?tid computed p) \<inter> set (claimedKeys ?tid computed q) = {}"
    using validateClaims_disjoint [OF v d' mem(1) mem(1) _ mem(2) mem(2)] by simp
  note fc = flush_claims [OF 1 d 2 3, of t st cap]
  have uc: "sf_uniqueClaims (commit_flush ctx t tx cap computed st f) = sf_uniqueClaims ?f2"
    and ce: "sf_claimsByEntity (commit_flush ctx t tx cap computed st f) = sf_claimsByEntity ?f2"
    by (simp_all add: commit_flush_def Let_def fold_frame [where sel = sf_uniqueClaims]
        fold_frame [where sel = sf_claimsByEntity])
  show ?thesis
    unfolding claims_ok_cong [OF ce uc] claimsOf_cong [OF ce]
    using fc by (auto simp: claimsOf_fold_release split: option.splits)
qed

end
