(* ===== verification/MemEntityStore.thy ===== *)
theory MemEntityStore
  imports MemTxManager "HOL-Library.Product_Lexorder"
begin

text \<open>
  \<^verbatim>\<open>plugins/memory/entity_store.go\<close> and the snapshot scan of \<^verbatim>\<open>grouped_stats.go\<close>: the operations of
  \<^verbatim>\<open>EntityStore\<close> for one tenant, outside and inside a transaction. In a transaction an operation
  works on the buffer of the \<open>TransactionState\<close> the context carries; outside it writes a version
  row at once. A dereference of a nil \<^verbatim>\<open>*spi.Entity\<close> is the error \<open>Panic\<close>.
\<close>

abbreviation nil_deref :: "'a result" where
  "nil_deref \<equiv> Err (Panic ''nil pointer dereference'')"

definition unstageDelete :: "entityid \<Rightarrow> TransactionState \<Rightarrow> TransactionState" where
  "unstageDelete eid tx =
     tx\<lparr>tx_Deletes := removeAll eid (tx_Deletes tx),
        tx_DeleteAttribution := AList.delete eid (tx_DeleteAttribution tx)\<rparr>"

text \<open>The loop over the version history up to a time, with its running result and deletion flag.\<close>

fun snapshotWalk :: "time \<Rightarrow> entityVersion list \<Rightarrow> Entity option \<times> bool \<Rightarrow> Entity option \<times> bool" where
  "snapshotWalk t [] acc = acc"
| "snapshotWalk t (v # vs) acc =
     (if \<not> v_submitTime v > t
      then snapshotWalk t vs (if v_deleted v then (None, True) else (v_entity v, False))
      else acc)"

definition getSnapshotVersion :: "StoreFactory \<Rightarrow> tenant \<Rightarrow> entityid \<Rightarrow> time \<Rightarrow> Entity result" where
  "getSnapshotVersion f tid entityID snapshotTime =
     (case snapshotWalk snapshotTime (versions_of f tid entityID) (None, False) of
        (None, _) \<Rightarrow> Err ErrNotFound
      | (Some e, _) \<Rightarrow> Ok e)"

definition stampTx :: "TransactionState \<Rightarrow> Entity \<Rightarrow> Entity" where
  "stampTx tx e = e\<lparr>Meta := (Meta e)\<lparr>m_TransactionID := tx_ID tx\<rparr>\<rparr>"

text \<open>Buffering a write: superseded value, buffer, write set, unique keys.\<close>

definition bufferWrite :: "TransactionState \<Rightarrow> Entity \<Rightarrow> TransactionState" where
  "bufferWrite tx entity =
     tx\<lparr>tx_Buffer := AList.update (entity_id entity) (stampTx tx entity) (tx_Buffer tx),
        tx_WriteSet := List.insert (entity_id entity) (tx_WriteSet tx)\<rparr>"

definition stageWrite :: "Ctx \<Rightarrow> txid \<Rightarrow> TransactionState \<Rightarrow> Entity \<Rightarrow> StoreFactory \<Rightarrow> StoreFactory" where
  "stageWrite ctx t tx entity f =
     (let eid = entity_id entity
      in set_tm (recordUniqueKeys (tx_ID tx) eid (c_UniqueKeys ctx)
                 \<circ> stageSuperseded (tx_ID tx) eid (map_of (tx_Buffer tx) eid))
           (set_tx t (bufferWrite tx entity) f))"

definition nextVersion_of :: "entityVersion list \<Rightarrow> int result" where
  "nextVersion_of versions =
     (case find (\<lambda>v. \<not> v_deleted v) (rev versions) of
        None \<Rightarrow> Ok 1
      | Some v \<Rightarrow> (case v_entity v of None \<Rightarrow> nil_deref | Some e \<Rightarrow> Ok (m_Version (Meta e) + 1)))"

definition claimTaken :: "(claimKey \<rightharpoonup> entityid) \<Rightarrow> entityid \<Rightarrow> claimKey \<Rightarrow> bool" where
  "claimTaken uniqueClaims eid k =
     (case uniqueClaims k of None \<Rightarrow> False | Some holder \<Rightarrow> holder \<noteq> eid)"

definition save_creationDate :: "entityVersion list \<Rightarrow> Entity \<Rightarrow> time \<Rightarrow> time result" where
  "save_creationDate versions entity now =
     (case versions of
        v # _ \<Rightarrow> (case v_entity v of None \<Rightarrow> nil_deref | Some e \<Rightarrow> Ok (m_CreationDate (Meta e)))
      | [] \<Rightarrow> Ok (if m_CreationDate (Meta entity) = 0 then now else m_CreationDate (Meta entity)))"

definition savedRow :: "tenant \<Rightarrow> Entity \<Rightarrow> int \<Rightarrow> time \<Rightarrow> time \<Rightarrow> bool \<Rightarrow> entityVersion" where
  "savedRow tid entity nextVersion now creationDate hasPrior =
     (let md = Meta entity;
          changeType = deriveChangeType (m_ChangeType md) hasPrior;
          saved = \<lparr>Meta = \<lparr>m_ID = m_ID md, m_TenantID = tid, m_ModelRef = m_ModelRef md,
                     m_State = m_State md, m_Version = nextVersion, m_CreationDate = creationDate,
                     m_LastModifiedDate = now, m_TransactionID = m_TransactionID md,
                     m_ChangeType = changeType, m_ChangeUser = m_ChangeUser md,
                     m_ChangeUserKind = m_ChangeUserKind md,
                     m_ChangeExecutor = m_ChangeExecutor md,
                     m_TransitionForLatestSave = m_TransitionForLatestSave md\<rparr>,
                   Data = Data entity\<rparr>
      in \<lparr>v_entity = Some saved, v_version = nextVersion, v_transactionID = m_TransactionID md,
          v_submitTime = now, v_deleted = False, v_changeType = changeType,
          v_user = m_ChangeUser md, v_changeUserKind = m_ChangeUserKind md,
          v_executor = m_ChangeExecutor md\<rparr>)"

definition saveUnlocked ::
  "compute_claims \<Rightarrow> time \<Rightarrow> Ctx \<Rightarrow> tenant \<Rightarrow> Entity \<Rightarrow> StoreFactory \<Rightarrow> int result \<times> StoreFactory" where
  "saveUnlocked cc clock ctx tid entity f =
     (let eid = entity_id entity;
          model = EntityName (model_of entity); version = ModelVersion (model_of entity)
      in case cc (c_UniqueKeys ctx) (Data entity) of
           Inl e \<Rightarrow> (Err e, f)
         | Inr newClaims \<Rightarrow>
             if list_ex (claimTaken (sf_uniqueClaims f) eid) (map (claim_key tid model version) newClaims)
             then (Err ErrUniqueViolation, f)
             else
               let versions = versions_of f tid eid
               in case nextVersion_of versions of
                    Inl e \<Rightarrow> (Err e, f)
                  | Inr nextVersion \<Rightarrow>
                      let (now, m) = nextSubmitTime clock (sf_txManager f);
                          f1 = f\<lparr>sf_txManager := m\<rparr>
                      in case save_creationDate versions entity now of
                           Inl e \<Rightarrow> (Err e, f1)
                         | Inr creationDate \<Rightarrow>
                             let row = savedRow tid entity nextVersion now creationDate (versions \<noteq> []);
                                 f2 = set_versions tid eid (versions @ [row]) f1;
                                 f3 = recordTxIndex tid eid (m_TransactionID (Meta entity)) nextVersion f2
                             in (Ok nextVersion,
                                 insertClaims eid tid model version newClaims (releaseClaims tid eid f3)))"

definition EntityStore_Save ::
  "compute_claims \<Rightarrow> time \<Rightarrow> Ctx \<Rightarrow> tenant \<Rightarrow> Entity \<Rightarrow> StoreFactory \<Rightarrow> int result \<times> StoreFactory" where
  "EntityStore_Save cc clock ctx tid entity f =
     (case GetTransaction f ctx of
        None \<Rightarrow> saveUnlocked cc clock ctx tid entity f
      | Some tx \<Rightarrow>
          (case checkOpen tx of
             Inl e \<Rightarrow> (Err e, f)
           | Inr _ \<Rightarrow>
               let t = the (c_Tx ctx);
                   f1 = stageWrite ctx t tx entity f
               in (Ok 0, set_tx t (unstageDelete (entity_id entity) (bufferWrite tx entity)) f1)))"

definition currentTxIDLocked :: "entityVersion list \<Rightarrow> txid" where
  "currentTxIDLocked versions =
     (if versions = [] then ''''
      else if v_deleted (last versions) then ''''
      else case v_entity (last versions) of
             None \<Rightarrow> ''''
           | Some e \<Rightarrow> m_TransactionID (Meta e))"

definition EntityStore_CompareAndSave ::
  "compute_claims \<Rightarrow> time \<Rightarrow> Ctx \<Rightarrow> tenant \<Rightarrow> Entity \<Rightarrow> txid \<Rightarrow> StoreFactory
   \<Rightarrow> int result \<times> StoreFactory" where
  "EntityStore_CompareAndSave cc clock ctx tid entity expectedTxID f =
     (if expectedTxID = '''' then (Err (ErrMsg ''expectedTxID must not be empty''), f)
      else case GetTransaction f ctx of
        None \<Rightarrow>
          if currentTxIDLocked (versions_of f tid (entity_id entity)) \<noteq> expectedTxID
          then (Err ErrConflict, f)
          else saveUnlocked cc clock ctx tid entity f
      | Some tx \<Rightarrow>
          (case checkOpen tx of
             Inl e \<Rightarrow> (Err e, f)
           | Inr _ \<Rightarrow>
               if entity_id entity \<in> set (tx_Deletes tx) then (Err ErrConflict, f)
               else case map_of (tx_Buffer tx) (entity_id entity) of
                      Some buffered \<Rightarrow>
                        if m_TransactionID (Meta buffered) \<noteq> expectedTxID then (Err ErrConflict, f)
                        else (Ok 0, stageWrite ctx (the (c_Tx ctx)) tx entity f)
                    | None \<Rightarrow>
                        if currentTxIDLocked (versions_of f tid (entity_id entity)) \<noteq> expectedTxID
                        then (Err ErrConflict, f)
                        else (Ok 0, stageWrite ctx (the (c_Tx ctx)) tx entity f)))"

definition addRead :: "entityid \<Rightarrow> TransactionState \<Rightarrow> TransactionState" where
  "addRead eid tx = tx\<lparr>tx_ReadSet := List.insert eid (tx_ReadSet tx)\<rparr>"

definition getLatest :: "entityVersion list \<Rightarrow> Entity result" where
  "getLatest versions =
     (if versions = [] then Err ErrNotFound
      else if v_deleted (last versions) then Err ErrNotFound
      else case v_entity (last versions) of None \<Rightarrow> nil_deref | Some e \<Rightarrow> Ok e)"

definition EntityStore_Get ::
  "Ctx \<Rightarrow> tenant \<Rightarrow> entityid \<Rightarrow> StoreFactory \<Rightarrow> Entity result \<times> StoreFactory" where
  "EntityStore_Get ctx tid entityID f =
     (case GetTransaction f ctx of
        None \<Rightarrow> (getLatest (versions_of f tid entityID), f)
      | Some tx \<Rightarrow>
          (case checkOpen tx of
             Inl e \<Rightarrow> (Err e, f)
           | Inr _ \<Rightarrow>
               if entityID \<in> set (tx_Deletes tx) then (Err ErrNotFound, f)
               else
                 let f1 = set_tx (the (c_Tx ctx)) (addRead entityID tx) f
                 in case map_of (tx_Buffer tx) entityID of
                      Some buffered \<Rightarrow> (Ok buffered, f1)
                    | None \<Rightarrow> (getSnapshotVersion f tid entityID (tx_SnapshotTime tx), f1)))"

definition EntityStore_GetAsAt ::
  "Ctx \<Rightarrow> tenant \<Rightarrow> entityid \<Rightarrow> time \<Rightarrow> StoreFactory \<Rightarrow> Entity result \<times> StoreFactory" where
  "EntityStore_GetAsAt ctx tid entityID asAt f =
     (case GetTransaction f ctx of
        None \<Rightarrow> (getSnapshotVersion f tid entityID asAt, f)
      | Some tx \<Rightarrow>
          (case checkOpen tx of
             Inl e \<Rightarrow> (Err e, f)
           | Inr _ \<Rightarrow>
               (getSnapshotVersion f tid entityID asAt,
                set_tx (the (c_Tx ctx)) (addRead entityID tx) f)))"

definition stageDelete :: "WriteAttribution \<Rightarrow> entityid \<Rightarrow> TransactionState \<Rightarrow> TransactionState" where
  "stageDelete a eid tx =
     tx\<lparr>tx_Deletes := List.insert eid (tx_Deletes tx),
        tx_Buffer := AList.delete eid (tx_Buffer tx),
        tx_WriteSet := List.insert eid (tx_WriteSet tx),
        tx_DeleteAttribution := AList.update eid a (tx_DeleteAttribution tx)\<rparr>"

definition liveLatest :: "entityVersion list \<Rightarrow> bool" where
  "liveLatest versions \<longleftrightarrow> versions \<noteq> [] \<and> \<not> v_deleted (last versions)"

definition EntityStore_Delete ::
  "time \<Rightarrow> Ctx \<Rightarrow> tenant \<Rightarrow> entityid \<Rightarrow> StoreFactory \<Rightarrow> unit result \<times> StoreFactory" where
  "EntityStore_Delete clock ctx tid entityID f =
     (case GetTransaction f ctx of
        Some tx \<Rightarrow>
          (case checkOpen tx of
             Inl e \<Rightarrow> (Err e, f)
           | Inr _ \<Rightarrow>
               if map_of (tx_Buffer tx) entityID = None \<and> \<not> liveLatest (versions_of f tid entityID)
               then (Err ErrNotFound, f)
               else (Ok (), set_tx (the (c_Tx ctx)) (stageDelete (c_Attribution ctx) entityID tx) f))
      | None \<Rightarrow>
          let versions = versions_of f tid entityID
          in if \<not> liveLatest versions then (Err ErrNotFound, f)
             else
               let (deletedAt, m) = nextSubmitTime clock (sf_txManager f);
                   f1 = f\<lparr>sf_txManager := m\<rparr>
               in case v_entity (last versions) of
                    None \<Rightarrow> (nil_deref, f1)
                  | Some e \<Rightarrow>
                      (Ok (),
                       releaseClaims tid entityID
                         (set_versions tid entityID
                            (versions @ [tombstoneRow '''' deletedAt (m_Version (Meta e) + 1)
                                           (c_Attribution ctx)]) f1)))"

text \<open>
  The scan of \<^verbatim>\<open>getAllSnapshotPointersUnlocked\<close> (versions visible at a time) and that of
  \<^verbatim>\<open>currentStatePointersUnlocked\<close> (latest versions), with what one entity contributes to each.
\<close>

definition snapshotRow :: "ModelRef \<Rightarrow> time \<Rightarrow> entityid \<times> entityVersion list \<Rightarrow> Entity list result" where
  "snapshotRow modelRef t p =
     (case fst (snapshotWalk t (snd p) (None, False)) of
        None \<Rightarrow> Ok []
      | Some e \<Rightarrow> Ok (if model_of e = modelRef then [e] else []))"

definition getAllSnapshotPointersUnlocked ::
  "(nat \<Rightarrow> bool) \<Rightarrow> StoreFactory \<Rightarrow> tenant \<Rightarrow> ModelRef \<Rightarrow> time \<Rightarrow> Entity list result" where
  "getAllSnapshotPointersUnlocked err f tid modelRef t =
     pollScan err 0 (snapshotRow modelRef t) (sf_entityData f tid)"

definition latestRow :: "ModelRef \<Rightarrow> entityid \<times> entityVersion list \<Rightarrow> Entity list result" where
  "latestRow modelRef p =
     (if \<not> liveLatest (snd p) then Ok []
      else case v_entity (last (snd p)) of
             None \<Rightarrow> nil_deref
           | Some e \<Rightarrow> Ok (if model_of e = modelRef then [e] else []))"

definition currentStatePointersUnlocked ::
  "(nat \<Rightarrow> bool) \<Rightarrow> StoreFactory \<Rightarrow> tenant \<Rightarrow> ModelRef \<Rightarrow> Entity list result" where
  "currentStatePointersUnlocked err f tid modelRef =
     pollScan err 0 (latestRow modelRef) (sf_entityData f tid)"

text \<open>The non-transactional sweep of \<^verbatim>\<open>DeleteAll\<close>.\<close>

fun deleteAllLoop ::
  "time \<Rightarrow> WriteAttribution \<Rightarrow> tenant \<Rightarrow> ModelRef \<Rightarrow> (entityid \<times> entityVersion list) list
   \<Rightarrow> StoreFactory \<Rightarrow> unit result \<times> StoreFactory" where
  "deleteAllLoop now a tid modelRef [] f = (Ok (), f)"
| "deleteAllLoop now a tid modelRef ((eid, versions) # rest) f =
     (if \<not> liveLatest versions then deleteAllLoop now a tid modelRef rest f
      else case v_entity (last versions) of
             None \<Rightarrow> (nil_deref, f)
           | Some e \<Rightarrow>
               if model_of e = modelRef
               then deleteAllLoop now a tid modelRef rest
                      (releaseClaims tid eid
                         (set_versions tid eid
                            (versions @ [tombstoneRow '''' now (m_Version (Meta e) + 1) a]) f))
               else deleteAllLoop now a tid modelRef rest f)"

definition bufferedOfModel :: "ModelRef \<Rightarrow> TransactionState \<Rightarrow> (entityid \<times> Entity) list" where
  "bufferedOfModel modelRef tx = filter (\<lambda>p. model_of (snd p) = modelRef) (tx_Buffer tx)"

definition EntityStore_DeleteAll ::
  "time \<Rightarrow> Ctx \<Rightarrow> tenant \<Rightarrow> ModelRef \<Rightarrow> StoreFactory \<Rightarrow> unit result \<times> StoreFactory" where
  "EntityStore_DeleteAll clock ctx tid modelRef f =
     (case GetTransaction f ctx of
        Some tx \<Rightarrow>
          (case checkOpen tx of
             Inl e \<Rightarrow> (Err e, f)
           | Inr _ \<Rightarrow>
               (case getAllSnapshotPointersUnlocked (c_Err ctx 0) f tid modelRef (tx_SnapshotTime tx) of
                  Inl e \<Rightarrow> (Err e, f)
                | Inr mainEntities \<Rightarrow>
                    let stage = stageDelete (c_Attribution ctx);
                        tx1 = fold (\<lambda>ent. stage (entity_id ent)) mainEntities tx;
                        tx2 = fold stage (map fst (bufferedOfModel modelRef tx1)) tx1
                    in (Ok (), set_tx (the (c_Tx ctx)) tx2 f)))
      | None \<Rightarrow>
          let (now, m) = nextSubmitTime clock (sf_txManager f)
          in deleteAllLoop now (c_Attribution ctx) tid modelRef (sf_entityData f tid)
               (f\<lparr>sf_txManager := m\<rparr>))"

definition EntityStore_Exists :: "Ctx \<Rightarrow> tenant \<Rightarrow> entityid \<Rightarrow> StoreFactory \<Rightarrow> bool result" where
  "EntityStore_Exists ctx tid entityID f =
     (case GetTransaction f ctx of
        Some tx \<Rightarrow>
          (case checkOpen tx of
             Inl e \<Rightarrow> Err e
           | Inr _ \<Rightarrow>
               if entityID \<in> set (tx_Deletes tx) then Ok False
               else if map_of (tx_Buffer tx) entityID \<noteq> None then Ok True
               else Ok (\<not> isl (getSnapshotVersion f tid entityID (tx_SnapshotTime tx))))
      | None \<Rightarrow> Ok (liveLatest (versions_of f tid entityID)))"

text \<open>\<^verbatim>\<open>countTx\<close> as the list of the states it hands to its \<^verbatim>\<open>tally\<close> callback, in order.\<close>

definition countTx ::
  "Ctx \<Rightarrow> StoreFactory \<Rightarrow> tenant \<Rightarrow> TransactionState \<Rightarrow> ModelRef \<Rightarrow> string list result" where
  "countTx ctx f tid tx modelRef =
     (case getAllSnapshotPointersUnlocked (c_Err ctx 0) f tid modelRef (tx_SnapshotTime tx) of
        Inl e \<Rightarrow> Err e
      | Inr committed \<Rightarrow>
          (case pollScan (c_Err ctx 1) 0
                  (\<lambda>e. if entity_id e \<in> set (tx_Deletes tx) then Ok []
                        else case map_of (tx_Buffer tx) (entity_id e) of
                               Some b \<Rightarrow> Ok (if model_of b = modelRef then [] else [m_State (Meta e)])
                             | None \<Rightarrow> Ok [m_State (Meta e)]) committed of
             Inl e \<Rightarrow> Err e
           | Inr states \<Rightarrow>
               Ok (states @
                   map (\<lambda>p. m_State (Meta (snd p)))
                     (filter (\<lambda>p. fst p \<notin> set (tx_Deletes tx)) (bufferedOfModel modelRef tx)))))"

definition latestOfModel :: "StoreFactory \<Rightarrow> tenant \<Rightarrow> ModelRef \<Rightarrow> Entity list result" where
  "latestOfModel f tid modelRef = pollScan (\<lambda>_. False) 0 (latestRow modelRef) (sf_entityData f tid)"

definition EntityStore_Count :: "Ctx \<Rightarrow> tenant \<Rightarrow> ModelRef \<Rightarrow> StoreFactory \<Rightarrow> int result" where
  "EntityStore_Count ctx tid modelRef f =
     (case GetTransaction f ctx of
        Some tx \<Rightarrow>
          (case checkOpen tx of
             Inl e \<Rightarrow> Err e
           | Inr _ \<Rightarrow> map_sum id (\<lambda>l. int (length l)) (countTx ctx f tid tx modelRef))
      | None \<Rightarrow> map_sum id (\<lambda>l. int (length l)) (latestOfModel f tid modelRef))"

definition tallyStates :: "string list option \<Rightarrow> string list \<Rightarrow> (string \<rightharpoonup> int)" where
  "tallyStates states sts =
     fold (\<lambda>st m. if (case states of None \<Rightarrow> True | Some l \<Rightarrow> st \<in> set l)
                   then m(st \<mapsto> (case m st of None \<Rightarrow> 0 | Some n \<Rightarrow> n) + 1) else m)
       sts Map.empty"

definition EntityStore_CountByState ::
  "Ctx \<Rightarrow> tenant \<Rightarrow> ModelRef \<Rightarrow> string list option \<Rightarrow> StoreFactory \<Rightarrow> (string \<rightharpoonup> int) result" where
  "EntityStore_CountByState ctx tid modelRef states f =
     (if states = Some [] then Ok Map.empty
      else case GetTransaction f ctx of
        Some tx \<Rightarrow>
          (case checkOpen tx of
             Inl e \<Rightarrow> Err e
           | Inr _ \<Rightarrow> map_sum id (tallyStates states) (countTx ctx f tid tx modelRef))
      | None \<Rightarrow>
          map_sum id (\<lambda>es. tallyStates states (map (\<lambda>e. m_State (Meta e)) es))
            (latestOfModel f tid modelRef))"

definition pageSlice :: "Entity list \<Rightarrow> int \<Rightarrow> int \<Rightarrow> Entity list result" where
  "pageSlice rows limit offset =
     (let sorted = sort_key entity_id rows; n = int (length sorted)
      in if offset \<ge> n then Ok []
         else let sum = wrap64 (offset + limit);
                  stop = (if sum > n then n else sum)
              in if stop < offset then Err (Panic ''slice bounds out of range'')
                 else Ok (take (nat (stop - offset)) (drop (nat offset) sorted)))"

text \<open>The merged committed and write-set view of a model inside a transaction.\<close>

definition mergedView :: "ModelRef \<Rightarrow> TransactionState \<Rightarrow> Entity list \<Rightarrow> (entityid \<times> Entity) list" where
  "mergedView modelRef tx mainEntities =
     fold (\<lambda>p. AList.update (fst p) (snd p)) (bufferedOfModel modelRef tx)
       (fold (\<lambda>e. AList.update (entity_id e) e)
          (filter (\<lambda>e. entity_id e \<notin> set (tx_Deletes tx)) mainEntities) [])"

definition EntityStore_GetPage ::
  "Ctx \<Rightarrow> tenant \<Rightarrow> ModelRef \<Rightarrow> int \<Rightarrow> int \<Rightarrow> time option \<Rightarrow> StoreFactory
   \<Rightarrow> Entity list result \<times> StoreFactory" where
  "EntityStore_GetPage ctx tid modelRef limit offset asAt f =
     (if limit < 1 then (Err (ErrMsg ''GetPage: limit must be >= 1''), f)
      else if offset < 0 then (Err (ErrMsg ''GetPage: offset must be >= 0''), f)
      else case asAt of
        Some t \<Rightarrow>
          (case getAllSnapshotPointersUnlocked (c_Err ctx 0) f tid modelRef t of
             Inl e \<Rightarrow> (Err e, f)
           | Inr rows \<Rightarrow> (pageSlice rows limit offset, f))
      | None \<Rightarrow>
          (case GetTransaction f ctx of
             None \<Rightarrow>
               (case currentStatePointersUnlocked (c_Err ctx 0) f tid modelRef of
                  Inl e \<Rightarrow> (Err e, f)
                | Inr rows \<Rightarrow> (pageSlice rows limit offset, f))
           | Some tx \<Rightarrow>
               (case checkOpen tx of
                  Inl e \<Rightarrow> (Err e, f)
                | Inr _ \<Rightarrow>
                    (case getAllSnapshotPointersUnlocked (c_Err ctx 0) f tid modelRef (tx_SnapshotTime tx) of
                       Inl e \<Rightarrow> (Err e, f)
                     | Inr mainEntities \<Rightarrow>
                         (case pageSlice (map snd (mergedView modelRef tx mainEntities)) limit offset of
                            Inl e \<Rightarrow> (Err e, f)
                          | Inr page \<Rightarrow>
                              (Ok page,
                               set_tx (the (c_Tx ctx))
                                 (fold (\<lambda>e. addRead (entity_id e)) page tx) f))))))"

record EntityVersion =
  ev_Entity :: Entity
  ev_ChangeType :: string
  ev_User :: string
  ev_Timestamp :: time
  ev_Version :: int
  ev_AttributedKind :: string
  ev_Executor :: Principal

definition hasVersion :: "int \<Rightarrow> entityVersion \<Rightarrow> bool" where
  "hasVersion version v \<longleftrightarrow>
     (case v_entity v of
        None \<Rightarrow> False
      | Some e \<Rightarrow> \<not> v_deleted v \<and> m_Version (Meta e) = version)"

definition GetVersionByTransaction ::
  "tenant \<Rightarrow> entityid \<Rightarrow> txid \<Rightarrow> StoreFactory \<Rightarrow> EntityVersion result" where
  "GetVersionByTransaction tid entityID txID f =
     (if txID = '''' then Err ErrNotFound
      else case sf_txIndex f tid entityID txID of
        None \<Rightarrow> Err ErrNotFound
      | Some version \<Rightarrow>
          (case find (hasVersion version) (versions_of f tid entityID) of
             None \<Rightarrow> Err ErrNotFound
           | Some v \<Rightarrow>
               (case v_entity v of
                  None \<Rightarrow> Err ErrNotFound
                | Some e \<Rightarrow>
                    Ok \<lparr>ev_Entity = e, ev_ChangeType = v_changeType v, ev_User = v_user v,
                        ev_Timestamp = v_submitTime v, ev_Version = m_Version (Meta e),
                        ev_AttributedKind = v_changeUserKind v, ev_Executor = v_executor v\<rparr>)))"

record EntityVersionMeta =
  vm_Version :: int
  vm_ChangeType :: string
  vm_Timestamp :: time
  vm_User :: string
  vm_AttributedKind :: string
  vm_Executor :: Principal
  vm_TransactionID :: txid
  vm_Deleted :: bool

definition versionMeta :: "entityVersion \<Rightarrow> EntityVersionMeta" where
  "versionMeta v =
     \<lparr>vm_Version = v_version v, vm_ChangeType = v_changeType v, vm_Timestamp = v_submitTime v,
      vm_User = v_user v, vm_AttributedKind = v_changeUserKind v, vm_Executor = v_executor v,
      vm_TransactionID = v_transactionID v, vm_Deleted = (v_changeType v = ''DELETED'')\<rparr>"

definition inWindow :: "time option \<Rightarrow> time option \<Rightarrow> entityVersion \<Rightarrow> bool" where
  "inWindow from until v \<longleftrightarrow>
     (case from of None \<Rightarrow> True | Some t \<Rightarrow> \<not> v_submitTime v < t) \<and>
     (case until of None \<Rightarrow> True | Some t \<Rightarrow> \<not> v_submitTime v > t)"

definition GetVersionMetadata ::
  "tenant \<Rightarrow> entityid \<Rightarrow> time option \<Rightarrow> time option \<Rightarrow> int \<Rightarrow> StoreFactory
   \<Rightarrow> EntityVersionMeta list result" where
  "GetVersionMetadata tid entityID from until limit f =
     (let versions = versions_of f tid entityID
      in if versions = [] then Err ErrNotFound
         else let rows = sort_key (\<lambda>m. (- vm_Timestamp m, - vm_Version m))
                           (map versionMeta (filter (inWindow from until) versions))
              in Ok (if limit > 0 \<and> int (length rows) > limit then take (nat limit) rows else rows))"

end
