(* ===== verification/MemInvariant.thy ===== *)
theory MemInvariant
  imports MemEntityStore
begin

text \<open>
  The store invariant \<open>mem_inv\<close> is preserved by every operation of the in-memory plugin, and the
  main functional properties of single operations rest on it. \<open>memop\<close> names the operations with
  the arguments the environment chooses (contexts, clock readings, fresh UUIDs), \<open>exec\<close> runs one.
\<close>

datatype memop =
    OpBegin txid time Ctx
  | OpCommit time time Ctx txid
  | OpRollback Ctx txid
  | OpSavepoint string Ctx txid
  | OpRollbackToSavepoint Ctx txid string
  | OpReleaseSavepoint Ctx txid string
  | OpSave time Ctx tenant Entity
  | OpCompareAndSave time Ctx tenant Entity txid
  | OpGet Ctx tenant entityid
  | OpGetAsAt Ctx tenant entityid time
  | OpDelete time Ctx tenant entityid
  | OpDeleteAll time Ctx tenant ModelRef
  | OpGetPage Ctx tenant ModelRef int int "time option"

fun exec :: "compute_claims \<Rightarrow> memop \<Rightarrow> StoreFactory \<Rightarrow> StoreFactory" where
  "exec cc (OpBegin t now ctx) f = snd (Begin t now ctx f)"
| "exec cc (OpCommit now1 now2 ctx t) f = snd (Commit cc now1 now2 ctx t f)"
| "exec cc (OpRollback ctx t) f = snd (Rollback ctx t f)"
| "exec cc (OpSavepoint sp ctx t) f = snd (Savepoint sp ctx t f)"
| "exec cc (OpRollbackToSavepoint ctx t sp) f = snd (RollbackToSavepoint ctx t sp f)"
| "exec cc (OpReleaseSavepoint ctx t sp) f = snd (ReleaseSavepoint ctx t sp f)"
| "exec cc (OpSave now ctx tid e) f = snd (EntityStore_Save cc now ctx tid e f)"
| "exec cc (OpCompareAndSave now ctx tid e x) f = snd (EntityStore_CompareAndSave cc now ctx tid e x f)"
| "exec cc (OpGet ctx tid eid) f = snd (EntityStore_Get ctx tid eid f)"
| "exec cc (OpGetAsAt ctx tid eid t) f = snd (EntityStore_GetAsAt ctx tid eid t f)"
| "exec cc (OpDelete now ctx tid eid) f = snd (EntityStore_Delete now ctx tid eid f)"
| "exec cc (OpDeleteAll now ctx tid ref) f = snd (EntityStore_DeleteAll now ctx tid ref f)"
| "exec cc (OpGetPage ctx tid ref limit offset asAt) f = snd (EntityStore_GetPage ctx tid ref limit offset asAt f)"

abbreviation floor_of :: "StoreFactory \<Rightarrow> time" where
  "floor_of f \<equiv> tm_lastSubmitTime (sf_txManager f)"

text \<open>Introduction rules for the invariant.\<close>

lemma mem_inv_D:
  assumes "mem_inv f"
  shows "hist_ok f" "claims_ok f"
    "sf_txHeap f t = Some tx \<Longrightarrow> tx_ok t tx \<and> tx_SnapshotTime tx \<le> floor_of f"
    "lookup2 (tm_savepoints (sf_txManager f)) t sp = Some s \<Longrightarrow> snap_ok s"
    "sup_ok (or_nil (tm_supersededSaves (sf_txManager f) t))"
  using assms by (auto simp: mem_inv_def)

lemma mem_inv_new: "mem_inv NewStoreFactory"
  by (simp add: mem_inv_def hist_ok_new claims_ok_new)
     (simp add: NewStoreFactory_def NewTransactionManager_def lookup2_def sup_ok_def)

text \<open>A step that leaves the committed data alone.\<close>

lemma mem_inv_frame:
  assumes "mem_inv f" "sf_entityData g = sf_entityData f"
    and "sf_uniqueClaims g = sf_uniqueClaims f" "sf_claimsByEntity g = sf_claimsByEntity f"
    and "floor_of f \<le> floor_of g"
    and "\<And>t tx. sf_txHeap g t = Some tx \<Longrightarrow> tx_ok t tx \<and> tx_SnapshotTime tx \<le> floor_of g"
    and "\<And>t sp s. lookup2 (tm_savepoints (sf_txManager g)) t sp = Some s \<Longrightarrow> snap_ok s"
    and "\<And>t. sup_ok (or_nil (tm_supersededSaves (sf_txManager g) t))"
  shows "mem_inv g"
  unfolding mem_inv_def
  using assms(6-8) hist_ok_cong [OF mem_inv_D(1) [OF assms(1)] assms(2,5)]
    claims_ok_cong [OF assms(4,3)] mem_inv_D(2) [OF assms(1)] by simp

lemma mem_inv_set_tx:
  assumes "mem_inv f" "sf_txHeap f t = Some tx" "tx_ok t tx'" "tx_SnapshotTime tx' = tx_SnapshotTime tx"
  shows "mem_inv (set_tx t tx' f)"
  using assms mem_inv_D [OF assms(1)]
  by (intro mem_inv_frame [OF assms(1)]) (auto split: if_splits)

lemma mem_inv_set_tm:
  assumes "mem_inv f" "tm_lastSubmitTime (sf_txManager f) \<le> tm_lastSubmitTime (g (sf_txManager f))"
    and "\<And>t sp s. lookup2 (tm_savepoints (g (sf_txManager f))) t sp = Some s \<Longrightarrow> snap_ok s"
    and "\<And>t. sup_ok (or_nil (tm_supersededSaves (g (sf_txManager f)) t))"
  shows "mem_inv (set_tm g f)"
proof (rule mem_inv_frame [OF assms(1)])
  fix t tx assume "sf_txHeap (set_tm g f) t = Some tx"
  then show "tx_ok t tx \<and> tx_SnapshotTime tx \<le> floor_of (set_tm g f)"
    using mem_inv_D(3) [OF assms(1), of t tx] assms(2) by simp
qed (use assms(2-4) in simp_all)

lemma mem_inv_manager:
  assumes "mem_inv f" "m = sf_txManager f\<lparr>tm_lastSubmitTime := t\<rparr>" "floor_of f \<le> t"
  shows "mem_inv (f\<lparr>sf_txManager := m\<rparr>)"
  using mem_inv_set_tm [OF assms(1), of "\<lambda>_. m"] assms mem_inv_D(4,5) [OF assms(1)]
  by (simp add: set_tm_def)

text \<open>Well-formed buffers.\<close>

lemma buf_ok_write:
  assumes "buf_ok buf ws dels attr" "entity_id e = k"
  shows "buf_ok (AList.update k e buf) (List.insert k ws) (removeAll k dels) (AList.delete k attr)"
  using assms by (auto simp: buf_ok_def distinct_removeAll dest: in_alist_updateD)

lemma buf_ok_write_live:
  assumes "buf_ok buf ws dels attr" "entity_id e = k" "k \<notin> set dels"
  shows "buf_ok (AList.update k e buf) (List.insert k ws) dels attr"
  using buf_ok_write [OF assms(1,2)] assms(1,3) by (simp add: buf_ok_def)

lemma buf_ok_delete:
  assumes "buf_ok buf ws dels attr"
  shows "buf_ok (AList.delete k buf) (List.insert k ws) (List.insert k dels) (AList.update k a attr)"
  using assms by (auto simp: buf_ok_def dest: in_alist_deleteD)

lemma entity_id_stampTx [simp]: "entity_id (stampTx tx e) = entity_id e"
  by (simp add: stampTx_def)

lemma tx_ok_write:
  assumes "tx_ok t tx" shows "tx_ok t (unstageDelete (entity_id e) (bufferWrite tx e))"
  using assms buf_ok_write [of _ _ _ _ "stampTx tx e"]
  by (simp add: tx_ok_def unstageDelete_def bufferWrite_def)

lemma tx_ok_write_live:
  assumes "tx_ok t tx" "entity_id e \<notin> set (tx_Deletes tx)" shows "tx_ok t (bufferWrite tx e)"
  using assms buf_ok_write_live [of _ _ _ _ "stampTx tx e"]
  by (simp add: tx_ok_def bufferWrite_def)

lemma tx_ok_stageDelete: "tx_ok t tx \<Longrightarrow> tx_ok t (stageDelete a eid tx)"
  by (simp add: tx_ok_def stageDelete_def buf_ok_delete)

lemma tx_ok_addRead: "tx_ok t tx \<Longrightarrow> tx_ok t (addRead eid tx)"
  by (simp add: tx_ok_def addRead_def)

lemma tx_ok_fold: "(\<And>x tx. tx_ok t tx \<Longrightarrow> tx_ok t (g x tx)) \<Longrightarrow> tx_ok t tx \<Longrightarrow> tx_ok t (fold g xs tx)"
  by (induction xs arbitrary: tx) auto

lemma tx_snapshot_frame [simp]:
  "tx_SnapshotTime (unstageDelete eid tx) = tx_SnapshotTime tx"
  "tx_SnapshotTime (bufferWrite tx e) = tx_SnapshotTime tx"
  "tx_SnapshotTime (stageDelete a eid tx) = tx_SnapshotTime tx"
  "tx_SnapshotTime (addRead eid tx) = tx_SnapshotTime tx"
  "tx_SnapshotTime (restoreTx s tx) = tx_SnapshotTime tx"
  by (simp_all add: unstageDelete_def bufferWrite_def stageDelete_def addRead_def restoreTx_def)

lemma tx_ok_restore: "tx_ok t tx \<Longrightarrow> snap_ok s \<Longrightarrow> tx_ok t (restoreTx s tx)"
  by (simp add: tx_ok_def snap_ok_def restoreTx_def)

lemma snap_ok_take: "tx_ok t tx \<Longrightarrow> snap_ok (takeSnapshot t' m tx)"
  by (simp add: tx_ok_def snap_ok_def takeSnapshot_def)

text \<open>Superseded values stay filed under their own ID, also through truncation.\<close>

lemma sup_ok_append:
  assumes "sup_ok ss" "entity_id e = k"
  shows "sup_ok (AList.update k (slice_append e (case map_of ss k of None \<Rightarrow> slice_nil | Some s \<Rightarrow> s)) ss)"
proof -
  let ?s = "case map_of ss k of None \<Rightarrow> slice_nil | Some s \<Rightarrow> s"
  have "\<forall>x \<in> set (sl_elems ?s @ sl_stale ?s). entity_id x = k"
    using assms(1) by (auto simp: sup_ok_def slice_nil_def split: option.split dest!: map_of_SomeD)
  then have "\<forall>x \<in> set (sl_elems (slice_append e ?s) @ sl_stale (slice_append e ?s)). entity_id x = k"
    using assms(2) by (auto simp: slice_append_def dest: in_set_tl)
  then show ?thesis using assms(1) by (auto simp: sup_ok_def dest!: in_alist_updateD)
qed

lemma keys_truncate:
  "set (map fst (snd (truncateSuperseded lens ss))) \<subseteq> set (map fst ss)"
  by (induction lens ss rule: truncateSuperseded.induct) (auto split: option.splits)

lemma sup_ok_truncate: "sup_ok ss \<Longrightarrow> sup_ok (snd (truncateSuperseded lens ss))"
proof (induction lens ss rule: truncateSuperseded.induct)
  case (2 lens eid entries rest)
  have "\<forall>e \<in> set (sl_elems s @ sl_stale s). entity_id e = eid" if "slice_to l entries = Some s" for l s
    using that "2.prems" by (auto simp: slice_to_def sup_ok_def Let_def split: if_splits)
      (metis append_take_drop_id Un_iff set_append)+
  moreover have "eid \<notin> set (map fst (snd (truncateSuperseded lens rest)))"
    using "2.prems" keys_truncate [of lens rest] by (auto simp: sup_ok_def)
  ultimately show ?case using 2 by (auto simp: sup_ok_def split: option.splits)
qed simp

lemma sup_ok_Nil [simp]: "sup_ok []"
  by (simp add: sup_ok_def)

text \<open>The operations of the transaction manager.\<close>

lemma lookup2_delete [simp]:
  "lookup2 (m(a := None)) a' b = (if a = a' then None else lookup2 m a' b)"
  by (simp add: lookup2_def)

lemma forgetTx_sel [simp]:
  "tm_lastSubmitTime (forgetTx t m) = tm_lastSubmitTime m"
  "tm_commitSeq (forgetTx t m) = tm_commitSeq m" "tm_committedLog (forgetTx t m) = tm_committedLog m"
  "tm_submitTimes (forgetTx t m) = tm_submitTimes m"
  "tm_active (forgetTx t m) = removeAll t (tm_active m)"
  "tm_savepoints (forgetTx t m) = (tm_savepoints m)(t := None)"
  "tm_supersededSaves (forgetTx t m) = (tm_supersededSaves m)(t := None)"
  "tm_txSnapshotSeq (forgetTx t m) = (tm_txSnapshotSeq m)(t := None)"
  "tm_committing (forgetTx t m) = removeAll t (tm_committing m)"
  by (simp_all add: forgetTx_def)

lemma mem_inv_forget: "mem_inv f \<Longrightarrow> mem_inv (set_tm (forgetTx t) f)"
  by (rule mem_inv_set_tm) (auto simp: mem_inv_D split: if_splits)

lemma mem_inv_heap_flag:
  assumes "mem_inv f" "\<And>tx. tx_ok t tx \<Longrightarrow> tx_ok t (g tx)" "\<And>tx. tx_SnapshotTime (g tx) = tx_SnapshotTime tx"
  shows "mem_inv (f\<lparr>sf_txHeap := (sf_txHeap f)(t := map_option g (sf_txHeap f t))\<rparr>)"
  using assms mem_inv_D [OF assms(1)]
  by (intro mem_inv_frame [OF assms(1)]) (auto split: if_splits)

lemma mem_inv_closeTx: "mem_inv f \<Longrightarrow> mem_inv (closeTx t f)"
  unfolding closeTx_def by (rule mem_inv_heap_flag) (simp_all add: tx_ok_def)

lemma mem_inv_markRolledBack: "mem_inv f \<Longrightarrow> mem_inv (markRolledBack t f)"
  unfolding markRolledBack_def by (rule mem_inv_heap_flag) (simp_all add: tx_ok_def)

lemma mem_inv_Rollback: "mem_inv f \<Longrightarrow> mem_inv (snd (Rollback ctx t f))"
  by (auto simp: Rollback_def rollback_body_def mem_inv_closeTx mem_inv_forget mem_inv_markRolledBack
      split: sum.split)

lemma mem_inv_Begin:
  assumes "mem_inv f" shows "mem_inv (snd (Begin t now ctx f))"
proof (cases "\<exists>tid. c_User ctx = Some tid \<and> tid \<noteq> ''''")
  case True
  then obtain tid where tid: "c_User ctx = Some tid" "tid \<noteq> ''''" by blast
  obtain snap m where r: "reserveSnapshotTime now (sf_txManager f) = (snap, m)" by fastforce
  let ?g = "snd (Begin t now ctx f)"
  have m: "floor_of f \<le> snap" "m = sf_txManager f\<lparr>tm_lastSubmitTime := snap\<rparr>"
    using reserveSnapshotTime_eq [OF r] by simp_all
  have heap: "tx_ok t' tx \<and> tx_SnapshotTime tx \<le> floor_of ?g" if "sf_txHeap ?g t' = Some tx" for t' tx
  proof (cases "t' = t")
    case True
    then show ?thesis using that tid r m by (auto simp: Begin_def Let_def tx_ok_def buf_ok_def)
  next
    case False
    then have "sf_txHeap f t' = Some tx" using that tid r by (simp add: Begin_def Let_def)
    then show ?thesis using mem_inv_D(3) [OF assms] tid r m by (fastforce simp: Begin_def Let_def)
  qed
  show ?thesis
    by (rule mem_inv_frame [OF assms _ _ _ _ heap])
       (use tid r m mem_inv_D(4,5) [OF assms] in \<open>auto simp: Begin_def Let_def\<close>)
next
  case False
  then show ?thesis using assms by (auto simp: Begin_def split: option.split)
qed

lemma mem_inv_commit_enter: "mem_inv f \<Longrightarrow> commit_enter ctx t f = Inr g \<Longrightarrow> mem_inv g"
  by (auto simp: commit_enter_def mem_inv_D split: option.splits if_splits intro!: mem_inv_set_tm)

lemma cap_superseded_ok:
  assumes "mem_inv f" "commit_check t tx f = (Inr cap, g)" "cap_superseded cap eid = Some s"
  shows "\<forall>x \<in> set (sl_elems s). entity_id x = eid"
proof -
  have "map_of (or_nil (tm_supersededSaves (sf_txManager f) t)) eid = Some s"
    using assms(2,3) by (auto simp: commit_check_def Let_def split: if_splits)
  from map_of_SomeD [OF this] show ?thesis
    using mem_inv_D(5) [OF assms(1), of t] by (fastforce simp: sup_ok_def)
qed

lemma commit_check_state:
  "commit_check t tx f = (r, g) \<Longrightarrow>
   (case r of Inl e \<Rightarrow> e = ErrConflict \<and> g = set_tm (forgetTx t) f | Inr cap \<Rightarrow> g = f)"
  by (auto simp: commit_check_def Let_def split: if_splits)

lemma mem_inv_flush:
  assumes "mem_inv f" "tx_ok t tx"
    and "\<And>eid s. cap_superseded cap eid = Some s \<Longrightarrow> \<forall>x \<in> set (sl_elems s). entity_id x = eid"
    and "validateClaims cc (sf_uniqueClaims f) (tx_TenantID tx) keys tx
           (sort (map fst (tx_Buffer tx))) Map.empty Map.empty = Inr computed"
    and n: "nextSubmitTime now (sf_txManager f) = (st, m)"
  shows "mem_inv (commit_flush ctx t tx cap computed st (f\<lparr>sf_txManager := m\<rparr>))"
    and "appended st f (commit_flush ctx t tx cap computed st (f\<lparr>sf_txManager := m\<rparr>))"
proof -
  let ?g = "f\<lparr>sf_txManager := m\<rparr>"
  let ?h = "commit_flush ctx t tx cap computed st ?g"
  note m = nextSubmitTime_eq [OF n]
  have g: "mem_inv ?g" using mem_inv_manager [OF assms(1)] m by simp
  have "appended st ?g ?h" using assms(2,3) by (rule appended_commit_flush)
  then show ap: "appended st f ?h" by (rule appended_cong_left) simp
  have "hist_ok ?h"
  proof (rule hist_ok_appended [OF mem_inv_D(1) [OF assms(1)] ap])
    show "keys_ok ?h" using mem_inv_D(1) [OF g] by (simp add: keys_ok_commit_flush hist_ok_keys)
  qed (use m in simp_all)
  moreover have "claims_ok ?h"
    using commit_flush_claims [OF mem_inv_D(2) [OF g] assms(2)] assms(4) by simp
  ultimately show "mem_inv ?h" using mem_inv_D(3-5) [OF g] by (simp add: mem_inv_def)
qed

lemma commit_record_frame [simp]:
  "sf_entityData (commit_record t tx st now f) = sf_entityData f"
  "sf_uniqueClaims (commit_record t tx st now f) = sf_uniqueClaims f"
  "sf_claimsByEntity (commit_record t tx st now f) = sf_claimsByEntity f"
  "sf_txHeap (commit_record t tx st now f) = sf_txHeap f"
  "sf_scheduledTasks (commit_record t tx st now f) = sf_scheduledTasks f"
  "floor_of (commit_record t tx st now f) = floor_of f"
  by (simp_all add: commit_record_def Let_def)

lemma mem_inv_commit_record: "mem_inv f \<Longrightarrow> mem_inv (commit_record t tx st now f)"
  by (rule mem_inv_frame [of f])
     (auto simp: mem_inv_D commit_record_def Let_def split: if_splits)

lemma mem_inv_commit_body:
  assumes "mem_inv f" "sf_txHeap f t = Some tx"
  shows "mem_inv (snd (commit_body cc now1 now2 ctx t tx f))"
proof (cases "commit_check t tx f")
  case (Pair r g)
  show ?thesis
  proof (cases r)
    case (Inl e)
    then show ?thesis
      using commit_check_state [OF Pair] Pair mem_inv_forget [OF assms(1)] by (simp add: commit_body_def)
  next
    case (Inr cap)
    then have g: "g = f" using commit_check_state [OF Pair] by simp
    let ?v = "validateClaims cc (sf_uniqueClaims f) (tx_TenantID tx) (cap_keys cap) tx
                (sort (map fst (tx_Buffer tx))) Map.empty Map.empty"
    obtain st m where n: "nextSubmitTime now1 (sf_txManager f) = (st, m)" by fastforce
    show ?thesis
    proof (cases ?v)
      case Inl then show ?thesis
        using Inr g Pair mem_inv_forget [OF assms(1)] by (simp add: commit_body_def)
    next
      case v: (Inr computed)
      have "tx_ok t tx" using mem_inv_D(3) [OF assms] by simp
      then have "mem_inv (commit_flush ctx t tx cap computed st (f\<lparr>sf_txManager := m\<rparr>))"
        using cap_superseded_ok [OF assms(1) Pair [unfolded Inr]] v n
        by (rule mem_inv_flush(1) [OF assms(1)])
      then show ?thesis
        using v Inr g Pair n by (simp add: commit_body_def mem_inv_commit_record)
    qed
  qed
qed

lemma mem_inv_Commit:
  assumes "mem_inv f" shows "mem_inv (snd (Commit cc now1 now2 ctx t f))"
proof (cases "commit_enter ctx t f")
  case (Inr g)
  have g: "mem_inv g" using mem_inv_commit_enter [OF assms Inr] .
  show ?thesis
  proof (cases "active_tx g t")
    case (Some tx)
    then have "sf_txHeap g t = Some tx" by (simp add: active_tx_def split: if_splits)
    from mem_inv_commit_body [OF g this] Inr Some show ?thesis
      by (simp add: Commit_def mem_inv_closeTx)
  qed (use Inr assms in \<open>simp add: Commit_def\<close>)
qed (use assms in \<open>simp add: Commit_def\<close>)

lemma activeForTenant_heap: "activeForTenant ctx t f = Inr tx \<Longrightarrow> sf_txHeap f t = Some tx"
  by (auto simp: activeForTenant_def active_tx_def split: option.splits if_splits)

lemma mem_inv_Savepoint:
  assumes "mem_inv f" shows "mem_inv (snd (Savepoint sp ctx t f))"
proof -
  have "mem_inv (set_tm (\<lambda>m. m\<lparr>tm_savepoints :=
      update2 (tm_savepoints m) t sp (takeSnapshot t m tx)\<rparr>) f)" if "sf_txHeap f t = Some tx" for tx
    using mem_inv_D(4,5) [OF assms] snap_ok_take [of t tx] mem_inv_D(3) [OF assms that]
    by (intro mem_inv_set_tm [OF assms]) (auto simp: lookup2_update2 split: if_splits)
  then show ?thesis
    using assms by (auto simp: Savepoint_def dest: activeForTenant_heap split: sum.split)
qed

lemma lookup2_drop:
  "lookup2 (m(a := map_option (\<lambda>n. n(b := None)) (m a))) a' b' = Some s \<Longrightarrow> lookup2 m a' b' = Some s"
  by (auto simp: lookup2_def split: if_splits option.splits)

lemma mem_inv_ReleaseSavepoint:
  assumes "mem_inv f" shows "mem_inv (snd (ReleaseSavepoint ctx t sp f))"
proof -
  have "mem_inv (set_tm (\<lambda>m. m\<lparr>tm_savepoints := (tm_savepoints m)
      (t := map_option (\<lambda>sps. sps(sp := None)) (tm_savepoints m t))\<rparr>) f)"
    using mem_inv_D(4,5) [OF assms]
    by (intro mem_inv_set_tm [OF assms]) (auto dest!: lookup2_drop)
  then show ?thesis using assms by (simp add: ReleaseSavepoint_def split: sum.split option.split)
qed

lemma mem_inv_RollbackToSavepoint:
  assumes "mem_inv f" shows "mem_inv (snd (RollbackToSavepoint ctx t sp f))"
proof (cases "activeForTenant ctx t f")
  case (Inr tx)
  note inv = mem_inv_D [OF assms]
  have heap: "sf_txHeap f t = Some tx" using Inr by (rule activeForTenant_heap)
  show ?thesis
  proof (cases "checkOpen tx = Inr () \<and> lookup2 (tm_savepoints (sf_txManager f)) t sp \<noteq> None")
    case False
    then show ?thesis using Inr assms
      by (auto simp: RollbackToSavepoint_def split: sum.splits option.splits)
  next
    case True
    then obtain s where s: "lookup2 (tm_savepoints (sf_txManager f)) t sp = Some s" by blast
    let ?f1 = "set_tx t (restoreTx s tx) f"
    have f1: "mem_inv ?f1"
      using inv(3) [OF heap] inv(4) [OF s] by (intro mem_inv_set_tx [OF assms heap] tx_ok_restore) auto
    have sup: "sup_ok (snd (truncateSuperseded (sp_supersededLens s)
        (or_nil (tm_supersededSaves (sf_txManager f) t))))"
      using inv(5) by (rule sup_ok_truncate)
    obtain r trunc where tr: "truncateSuperseded (sp_supersededLens s)
        (or_nil (tm_supersededSaves (sf_txManager f) t)) = (r, trunc)" by fastforce
    have man: "mem_inv (?f1\<lparr>sf_txManager := m\<rparr>)"
      if fl: "tm_lastSubmitTime m = floor_of f"
        and sps: "\<And>t' sp' s'. lookup2 (tm_savepoints m) t' sp' = Some s' \<Longrightarrow>
           lookup2 (tm_savepoints (sf_txManager f)) t' sp' = Some s'"
        and ss: "tm_supersededSaves m = (tm_supersededSaves (sf_txManager f))
           (t := map_option (\<lambda>_. trunc) (tm_supersededSaves (sf_txManager f) t))" for m
    proof -
      have "mem_inv (set_tm (\<lambda>_. m) ?f1)"
      proof (rule mem_inv_set_tm [OF f1])
        show "sup_ok (or_nil (tm_supersededSaves m t'))" for t'
          using ss inv(5) [of t'] sup tr
          by (cases "tm_supersededSaves (sf_txManager f) t") auto
        show "snap_ok s'" if "lookup2 (tm_savepoints m) t' sp' = Some s'" for t' sp' s'
          using inv(4) sps that by blast
      qed (simp add: fl)
      then show ?thesis by (simp add: set_tm_def)
    qed
    show ?thesis
      using True Inr s tr
      by (auto simp: RollbackToSavepoint_def Let_def dest!: lookup2_drop split: sum.split intro!: man)
  qed
qed (use assms in \<open>simp add: RollbackToSavepoint_def\<close>)

text \<open>The operations of the entity store.\<close>

lemma GetTransaction_SomeD:
  "GetTransaction f ctx = Some tx \<Longrightarrow> c_Tx ctx \<noteq> None \<and> sf_txHeap f (the (c_Tx ctx)) = Some tx"
  by (auto simp: GetTransaction_def split: option.splits)

lemma tx_in_buffer_id: "tx_ok t tx \<Longrightarrow> map_of (tx_Buffer tx) k = Some e \<Longrightarrow> entity_id e = k"
  by (fastforce simp: tx_ok_def buf_ok_def dest: map_of_SomeD)

lemma sup_ok_stageSuperseded:
  assumes "\<And>t. sup_ok (or_nil (tm_supersededSaves m t))" "\<And>b. prior = Some b \<Longrightarrow> entity_id b = eid"
  shows "sup_ok (or_nil (tm_supersededSaves (stageSuperseded t eid prior m) t'))"
proof (cases prior)
  case (Some b)
  then show ?thesis
    using assms(1) [of t'] sup_ok_append [OF assms(1) [of t] assms(2) [OF Some]]
    by (simp add: stageSuperseded_def superseded_of_def)
qed (simp add: stageSuperseded_def assms(1))

lemma mem_inv_stageWrite:
  assumes "mem_inv f" "sf_txHeap f t = Some tx" "tx_ok t tx'" "tx_SnapshotTime tx' = tx_SnapshotTime tx"
  shows "mem_inv (set_tm (recordUniqueKeys (tx_ID tx) (entity_id e) ks
           \<circ> stageSuperseded (tx_ID tx) (entity_id e) (map_of (tx_Buffer tx) (entity_id e)))
         (set_tx t tx' f))"
proof -
  have ok: "tx_ok t tx" using mem_inv_D(3) [OF assms(1,2)] by simp
  have f1: "mem_inv (set_tx t tx' f)" using assms by (rule mem_inv_set_tx)
  show ?thesis
  proof (rule mem_inv_set_tm [OF f1])
    fix t'
    show "sup_ok (or_nil (tm_supersededSaves ((recordUniqueKeys (tx_ID tx) (entity_id e) ks
       \<circ> stageSuperseded (tx_ID tx) (entity_id e) (map_of (tx_Buffer tx) (entity_id e)))
         (sf_txManager (set_tx t tx' f))) t'))"
      using sup_ok_stageSuperseded [OF mem_inv_D(5) [OF assms(1)] tx_in_buffer_id [OF ok]]
      by (simp add: recordUniqueKeys_def)
  next
    fix t' sp' s'
    assume "lookup2 (tm_savepoints ((recordUniqueKeys (tx_ID tx) (entity_id e) ks
       \<circ> stageSuperseded (tx_ID tx) (entity_id e) (map_of (tx_Buffer tx) (entity_id e)))
         (sf_txManager (set_tx t tx' f)))) t' sp' = Some s'"
    then show "snap_ok s'" using mem_inv_D(4) [OF assms(1)]
      by (auto simp: recordUniqueKeys_def stageSuperseded_def split: option.splits)
  qed (simp add: recordUniqueKeys_def stageSuperseded_def split: option.split)
qed

lemma saveUnlocked_cases:
  obtains (fail) e where "saveUnlocked cc clock ctx tid entity f = (Err e, f)"
  | (panic) e t m where "nextSubmitTime clock (sf_txManager f) = (t, m)"
      "saveUnlocked cc clock ctx tid entity f = (Err e, f\<lparr>sf_txManager := m\<rparr>)"
  | (ok) cs n t m cd where
      "cc (c_UniqueKeys ctx) (Data entity) = Inr cs"
      "\<forall>c \<in> set cs. \<not> claimTaken (sf_uniqueClaims f) (entity_id entity) (entity_claim_key tid entity c)"
      "nextVersion_of (versions_of f tid (entity_id entity)) = Inr n"
      "nextSubmitTime clock (sf_txManager f) = (t, m)"
      "save_creationDate (versions_of f tid (entity_id entity)) entity t = Inr cd"
      "saveUnlocked cc clock ctx tid entity f =
        (Ok n, insertClaims (entity_id entity) tid (EntityName (model_of entity))
                 (ModelVersion (model_of entity)) cs
           (releaseClaims tid (entity_id entity)
              (recordTxIndex tid (entity_id entity) (m_TransactionID (Meta entity)) n
                 (set_versions tid (entity_id entity)
                    (versions_of f tid (entity_id entity) @
                     [savedRow tid entity n t cd (versions_of f tid (entity_id entity) \<noteq> [])])
                    (f\<lparr>sf_txManager := m\<rparr>)))))"
proof (cases "cc (c_UniqueKeys ctx) (Data entity)")
  case Inl then show thesis using fail by (simp add: saveUnlocked_def Let_def)
next
  case cs: (Inr cs)
  obtain t m where n: "nextSubmitTime clock (sf_txManager f) = (t, m)" by fastforce
  show thesis
  proof (cases "list_ex (claimTaken (sf_uniqueClaims f) (entity_id entity)) (map (entity_claim_key tid entity) cs)")
    case True
    then show thesis using fail cs by (simp add: saveUnlocked_def Let_def entity_claim_key_def)
  next
    case free: False
    show thesis
    proof (cases "nextVersion_of (versions_of f tid (entity_id entity))")
      case Inl then show thesis using fail free cs by (simp add: saveUnlocked_def Let_def entity_claim_key_def)
    next
      case v: (Inr nv)
      show thesis
      proof (cases "save_creationDate (versions_of f tid (entity_id entity)) entity t")
        case Inl then show thesis
          using panic [OF n] free cs v n by (simp add: saveUnlocked_def Let_def entity_claim_key_def)
      next
        case (Inr cd) then show thesis
          using ok [OF cs _ v n Inr] free cs v n
          by (simp add: saveUnlocked_def Let_def entity_claim_key_def list_ex_iff)
      qed
    qed
  qed
qed

lemma row_ok_savedRow: "row_ok tid (entity_id e) (savedRow tid e n t cd hp)"
  by (simp add: row_ok_def savedRow_def Let_def)

lemma savedRow_sel [simp]:
  "v_submitTime (savedRow tid e n t cd hp) = t" "v_deleted (savedRow tid e n t cd hp) = False"
  "v_version (savedRow tid e n t cd hp) = n"
  by (simp_all add: savedRow_def Let_def)

text \<open>A step that appends rows under one new stamp.\<close>

lemma mem_inv_appended:
  assumes "mem_inv f" "appended st f g" "keys_ok g" "floor_of f < st" "floor_of g = st" "claims_ok g"
    and "sf_txHeap g = sf_txHeap f"
    and "tm_savepoints (sf_txManager g) = tm_savepoints (sf_txManager f)"
    and "tm_supersededSaves (sf_txManager g) = tm_supersededSaves (sf_txManager f)"
  shows "mem_inv g"
proof -
  have "hist_ok g"
    by (rule hist_ok_appended [OF mem_inv_D(1) [OF assms(1)] assms(2,3)]) (use assms(4,5) in simp_all)
  moreover have "tx_ok t tx \<and> tx_SnapshotTime tx \<le> st" if "sf_txHeap f t = Some tx" for t tx
    using mem_inv_D(3) [OF assms(1) that] assms(4) by simp
  ultimately show ?thesis
    using assms(5-9) mem_inv_D(4,5) [OF assms(1)] by (simp add: mem_inv_def)
qed

lemma mem_inv_saveUnlocked:
  assumes "mem_inv f" shows "mem_inv (snd (saveUnlocked cc clock ctx tid entity f))"
proof (cases rule: saveUnlocked_cases [of cc clock ctx tid entity f])
  case (fail e) then show ?thesis using assms by simp
next
  case (panic e t m)
  then show ?thesis using mem_inv_manager [OF assms] nextSubmitTime_eq [OF panic(1)] by simp
next
  case (ok cs n t m cd)
  note m = nextSubmitTime_eq [OF ok(4)]
  let ?eid = "entity_id entity"
  let ?f1 = "f\<lparr>sf_txManager := m\<rparr>"
  let ?f2 = "set_versions tid ?eid (versions_of f tid ?eid @
              [savedRow tid entity n t cd (versions_of f tid ?eid \<noteq> [])]) ?f1"
  let ?f3 = "recordTxIndex tid ?eid (m_TransactionID (Meta entity)) n ?f2"
  let ?g = "snd (saveUnlocked cc clock ctx tid entity f)"
  have vs: "versions_of ?f1 = versions_of f" by (rule versions_of_cong) simp
  have ed: "sf_entityData ?g = sf_entityData ?f2" by (simp add: ok(6))
  have "appended t ?f1 ?f2"
    using appended_set_versions [of "[savedRow tid entity n t cd (versions_of f tid ?eid \<noteq> [])]" t tid ?eid ?f1]
    by (simp add: row_ok_savedRow vs)
  then have ap: "appended t f ?g"
    by (rule appended_cong [OF appended_cong_left ed]) simp
  have "keys_ok ?f2"
    by (rule keys_ok_set_versions, rule keys_ok_cong [OF hist_ok_keys [OF mem_inv_D(1) [OF assms]]]) simp
  then have ky: "keys_ok ?g" by (rule keys_ok_cong) (rule ed)
  have "claims_ok ?f3 = claims_ok f" by (rule claims_ok_cong) simp_all
  moreover have free: "sf_uniqueClaims f (entity_claim_key tid entity c) \<in> {None, Some ?eid}"
    if "c \<in> set cs" for c
    using ok(2) that by (cases "sf_uniqueClaims f (entity_claim_key tid entity c)") (auto simp: claimTaken_def)
  ultimately have cl: "claims_ok ?g"
    using ok(6) mem_inv_D(2) [OF assms]
    by (simp, intro claims_ok_replace) (auto simp: entity_claim_key_def)
  show ?thesis
    by (rule mem_inv_appended [OF assms ap ky _ _ cl]) (use m ok(6) in simp_all)
qed

lemma stageWrite_set_tx:
  "set_tx t tx' (stageWrite ctx t tx e f) =
     set_tm (recordUniqueKeys (tx_ID tx) (entity_id e) (c_UniqueKeys ctx)
        \<circ> stageSuperseded (tx_ID tx) (entity_id e) (map_of (tx_Buffer tx) (entity_id e)))
       (set_tx t tx' f)"
  by (simp add: stageWrite_def set_tx_def set_tm_def Let_def)

lemma mem_inv_Save:
  assumes "mem_inv f" shows "mem_inv (snd (EntityStore_Save cc clock ctx tid e f))"
proof (cases "GetTransaction f ctx")
  case (Some tx)
  note h = GetTransaction_SomeD [OF Some]
  have "tx_ok (the (c_Tx ctx)) tx" using mem_inv_D(3) [OF assms] h by blast
  from mem_inv_stageWrite [OF assms conjunct2 [OF h] tx_ok_write [OF this]] assms Some show ?thesis
    by (simp add: EntityStore_Save_def stageWrite_set_tx Let_def split: sum.split)
qed (simp add: EntityStore_Save_def mem_inv_saveUnlocked assms)

lemma mem_inv_CompareAndSave:
  assumes "mem_inv f" shows "mem_inv (snd (EntityStore_CompareAndSave cc clock ctx tid e x f))"
proof (cases "GetTransaction f ctx")
  case (Some tx)
  note h = GetTransaction_SomeD [OF Some]
  have ok: "tx_ok (the (c_Tx ctx)) tx" using mem_inv_D(3) [OF assms] h by blast
  have "mem_inv (stageWrite ctx (the (c_Tx ctx)) tx e f)" if "entity_id e \<notin> set (tx_Deletes tx)"
    using mem_inv_stageWrite [OF assms conjunct2 [OF h] tx_ok_write_live [OF ok that]]
    by (simp add: stageWrite_def Let_def)
  then show ?thesis
    using assms Some by (simp add: EntityStore_CompareAndSave_def split: sum.split option.split)
qed (use assms in \<open>simp add: EntityStore_CompareAndSave_def mem_inv_saveUnlocked\<close>)

lemma mem_inv_addRead:
  assumes "mem_inv f" "GetTransaction f ctx = Some tx"
  shows "mem_inv (set_tx (the (c_Tx ctx)) (addRead eid tx) f)"
  using GetTransaction_SomeD [OF assms(2)] mem_inv_D(3) [OF assms(1)]
  by (intro mem_inv_set_tx [OF assms(1)]) (auto intro: tx_ok_addRead)

lemma mem_inv_Get: "mem_inv f \<Longrightarrow> mem_inv (snd (EntityStore_Get ctx tid eid f))"
  by (auto simp: EntityStore_Get_def Let_def mem_inv_addRead split: option.split sum.split)

lemma mem_inv_GetAsAt: "mem_inv f \<Longrightarrow> mem_inv (snd (EntityStore_GetAsAt ctx tid eid t f))"
  by (auto simp: EntityStore_GetAsAt_def mem_inv_addRead split: option.split sum.split)

lemma fold_snapshot:
  "(\<And>x tx. tx_SnapshotTime (g x tx) = tx_SnapshotTime tx) \<Longrightarrow>
   tx_SnapshotTime (fold g xs tx) = tx_SnapshotTime tx"
  by (rule fold_frame)

lemma mem_inv_GetPage:
  assumes "mem_inv f" shows "mem_inv (snd (EntityStore_GetPage ctx tid ref limit offset asAt f))"
proof -
  have "mem_inv (set_tx (the (c_Tx ctx)) (fold (\<lambda>e. addRead (entity_id e)) page tx) f)"
    if "GetTransaction f ctx = Some tx" for tx page
    using GetTransaction_SomeD [OF that] mem_inv_D(3) [OF assms]
    by (intro mem_inv_set_tx [OF assms]) (auto intro!: tx_ok_fold tx_ok_addRead simp: fold_snapshot)
  then show ?thesis
    using assms by (auto simp: EntityStore_GetPage_def split: option.split sum.split)
qed

text \<open>One tombstone, outside a transaction.\<close>

lemma tombstone_step:
  fixes t :: time and n :: int and a :: WriteAttribution
  assumes "claims_ok f" "keys_ok f" "vs = versions_of f tid eid"
  defines "g \<equiv> releaseClaims tid eid (set_versions tid eid (vs @ [tombstoneRow '''' t n a]) f)"
  shows "appended t f g" "claims_ok g" "keys_ok g" "sf_txManager g = sf_txManager f" "sf_txHeap g = sf_txHeap f"
proof -
  show "appended t f g" unfolding g_def assms(3)
    by (rule appended_cong [OF appended_set_versions [of "[tombstoneRow '''' t n a]"]])
       (simp_all add: row_ok_tombstone, simp add: tombstoneRow_def)
  have "claims_ok (set_versions tid eid (vs @ [tombstoneRow '''' t n a]) f) = claims_ok f"
    by (rule claims_ok_cong) simp_all
  then show "claims_ok g" unfolding g_def using assms(1) by (simp add: claims_ok_release)
  show "keys_ok g" unfolding g_def
    by (rule keys_ok_cong [OF keys_ok_set_versions [OF assms(2)]]) simp
qed (simp_all add: g_def)

lemma deleteAllLoop_step:
  assumes "deleteAllLoop t a tid ref es f = (r, g)" "claims_ok f" "keys_ok f"
    and "distinct (map fst es)" "\<forall>p \<in> set es. versions_of f tid (fst p) = snd p"
  shows "appended t f g \<and> claims_ok g \<and> keys_ok g \<and> sf_txManager g = sf_txManager f \<and> sf_txHeap g = sf_txHeap f"
  using assms
proof (induction t a tid ref es f rule: deleteAllLoop.induct)
  case (2 t a tid ref eid vs rest f)
  have vs: "vs = versions_of f tid eid" using "2.prems"(5) by simp
  show ?case
  proof (cases "liveLatest vs \<and> (\<exists>e. v_entity (last vs) = Some e \<and> model_of e = ref)")
    case True
    then obtain e where e: "liveLatest vs" "v_entity (last vs) = Some e" "model_of e = ref" by blast
    let ?h = "releaseClaims tid eid (set_versions tid eid
                (vs @ [tombstoneRow '''' t (m_Version (Meta e) + 1) a]) f)"
    note h = tombstone_step [OF "2.prems"(2,3) vs, of t "m_Version (Meta e) + 1" a]
    have "\<forall>p \<in> set rest. versions_of ?h tid (fst p) = snd p" using "2.prems"(4,5) by auto
    from "2.IH"(2) [OF _ e(2,3) _ h(2,3) _ this] e "2.prems"(1,4)
    have "appended t ?h g \<and> claims_ok g \<and> keys_ok g \<and> sf_txManager g = sf_txManager ?h \<and> sf_txHeap g = sf_txHeap ?h"
      by simp
    then show ?thesis using h appended_trans [OF h(1)] by simp
  next
    case False
    then show ?thesis
      using "2.IH"(1,3) "2.prems" by (auto simp: appended_same split: if_splits option.splits)
  qed
qed (auto simp: appended_same)

lemma mem_inv_Delete:
  assumes "mem_inv f" shows "mem_inv (snd (EntityStore_Delete clock ctx tid eid f))"
proof (cases "GetTransaction f ctx")
  case (Some tx)
  note h = GetTransaction_SomeD [OF Some]
  have "mem_inv (set_tx (the (c_Tx ctx)) (stageDelete a eid tx) f)" for a
    using h mem_inv_D(3) [OF assms] by (intro mem_inv_set_tx [OF assms]) (auto intro: tx_ok_stageDelete)
  then show ?thesis using Some assms by (simp add: EntityStore_Delete_def split: sum.split)
next
  case None
  obtain t m where n: "nextSubmitTime clock (sf_txManager f) = (t, m)" by fastforce
  note m = nextSubmitTime_eq [OF n]
  let ?f1 = "f\<lparr>sf_txManager := m\<rparr>"
  have f1: "mem_inv ?f1" using mem_inv_manager [OF assms] m by simp
  have "mem_inv (releaseClaims tid eid (set_versions tid eid (versions_of f tid eid @ [tombstoneRow '''' t k a]) ?f1))"
    (is "mem_inv ?g") for k a
  proof -
    have vs: "versions_of f tid eid = versions_of ?f1 tid eid" by (simp add: versions_of_def)
    note s = tombstone_step [OF mem_inv_D(2) [OF f1] hist_ok_keys [OF mem_inv_D(1) [OF f1]] vs, of t k a]
    have "appended t f ?g" by (rule appended_cong_left [OF s(1)]) simp
    then show ?thesis by (rule mem_inv_appended [OF assms _ s(3) _ _ s(2)]) (use s(4,5) m in simp_all)
  qed
  then show ?thesis
    using None n assms f1 by (simp add: EntityStore_Delete_def Let_def split: option.split)
qed

lemma versions_of_entry:
  "keys_ok f \<Longrightarrow> p \<in> set (sf_entityData f tid) \<Longrightarrow> versions_of f tid (fst p) = snd p"
  by (cases p) (simp add: versions_of_def keys_ok_def map_of_is_SomeI)

lemma mem_inv_DeleteAll:
  assumes "mem_inv f" shows "mem_inv (snd (EntityStore_DeleteAll clock ctx tid ref f))"
proof (cases "GetTransaction f ctx")
  case (Some tx)
  note h = GetTransaction_SomeD [OF Some]
  have "mem_inv (set_tx (the (c_Tx ctx)) (fold (stageDelete a) ys (fold (\<lambda>e. stageDelete a (entity_id e)) xs tx)) f)"
    for a xs ys
    using h mem_inv_D(3) [OF assms]
    by (intro mem_inv_set_tx [OF assms]) (auto intro!: tx_ok_fold tx_ok_stageDelete simp: fold_snapshot)
  then show ?thesis using Some assms by (simp add: EntityStore_DeleteAll_def Let_def split: sum.split)
next
  case None
  obtain t m where n: "nextSubmitTime clock (sf_txManager f) = (t, m)" by fastforce
  note m = nextSubmitTime_eq [OF n]
  let ?f1 = "f\<lparr>sf_txManager := m\<rparr>"
  have f1: "mem_inv ?f1" using mem_inv_manager [OF assms] m by simp
  have ky: "keys_ok ?f1" using mem_inv_D(1) [OF f1] by (rule hist_ok_keys)
  obtain r g where l: "deleteAllLoop t (c_Attribution ctx) tid ref (sf_entityData f tid) ?f1 = (r, g)" by fastforce
  have "appended t ?f1 g \<and> claims_ok g \<and> keys_ok g \<and> sf_txManager g = sf_txManager ?f1 \<and> sf_txHeap g = sf_txHeap ?f1"
    by (rule deleteAllLoop_step [OF l mem_inv_D(2) [OF f1] ky])
       (use ky versions_of_entry [OF ky, of _ tid] in \<open>auto simp: keys_ok_def\<close>)
  then have "mem_inv g"
    using m by (intro mem_inv_appended [OF assms, of t g]) (auto elim: appended_cong_left)
  then show ?thesis using None n l by (simp add: EntityStore_DeleteAll_def)
qed

lemmas mem_inv_ops =
  mem_inv_Begin mem_inv_Commit mem_inv_Rollback mem_inv_Savepoint mem_inv_RollbackToSavepoint
  mem_inv_ReleaseSavepoint mem_inv_Save mem_inv_CompareAndSave mem_inv_Get mem_inv_GetAsAt
  mem_inv_Delete mem_inv_DeleteAll mem_inv_GetPage

lemma mem_inv_exec: "mem_inv f \<Longrightarrow> mem_inv (exec cc op f)"
  by (cases op) (simp_all add: mem_inv_ops)

end
