(* ===== verification/MemProperties.thy ===== *)
theory MemProperties
  imports MemInvariant
begin

text \<open>
  Properties of the operations of the in-memory store run one at a time: reads against the version
  history, read-your-own-writes, the effect of a commit and of an abort, compare-and-save, tenant
  isolation and savepoints.
\<close>

definition visibleRows :: "time \<Rightarrow> entityVersion list \<Rightarrow> entityVersion list" where
  "visibleRows t versions = filter (\<lambda>v. v_submitTime v \<le> t) versions"

text \<open>
  What a reader at time \<open>t\<close> sees of an entity: the entity of the last row stamped at or before
  \<open>t\<close>, nothing when there is no such row or the row is a tombstone.
\<close>

definition visibleAt :: "StoreFactory \<Rightarrow> tenant \<Rightarrow> entityid \<Rightarrow> time \<Rightarrow> Entity option" where
  "visibleAt f tid eid t =
     (let vs = visibleRows t (versions_of f tid eid) in if vs = [] then None else v_entity (last vs))"

text \<open>The committed state of a tenant, the part of the store another tenant must not touch.\<close>

definition tenantView ::
  "StoreFactory \<Rightarrow> tenant \<Rightarrow> (entityid \<times> entityVersion list) list \<times> (entityid \<Rightarrow> claimKey list) \<times>
   (claimKey \<Rightarrow> entityid option)" where
  "tenantView f tid =
     (sf_entityData f tid, claimsOf f tid,
      \<lambda>k. if ck_tenant k = tid then sf_uniqueClaims f k else None)"

text \<open>The tenant whose committed state an operation may write.\<close>

fun opTenant :: "memop \<Rightarrow> StoreFactory \<Rightarrow> tenant option" where
  "opTenant (OpCommit _ _ _ t) f = map_option tx_TenantID (active_tx f t)"
| "opTenant (OpSave _ _ tid _) f = Some tid"
| "opTenant (OpCompareAndSave _ _ tid _ _) f = Some tid"
| "opTenant (OpDelete _ _ tid _) f = Some tid"
| "opTenant (OpDeleteAll _ _ tid _) f = Some tid"
| "opTenant _ f = None"

text \<open>The operations one transaction's client may run between a savepoint and its rollback.\<close>

datatype txop =
    TSave Ctx tenant Entity
  | TCompareAndSave Ctx tenant Entity txid
  | TGet Ctx tenant entityid
  | TDelete Ctx tenant entityid
  | TDeleteAll Ctx tenant ModelRef
  | TStageTask scheduledTaskOp

fun runTx :: "compute_claims \<Rightarrow> txid \<Rightarrow> txop \<Rightarrow> StoreFactory \<Rightarrow> StoreFactory" where
  "runTx cc t (TSave ctx tid e) f = snd (EntityStore_Save cc 0 (WithTransaction ctx t) tid e f)"
| "runTx cc t (TCompareAndSave ctx tid e x) f =
     snd (EntityStore_CompareAndSave cc 0 (WithTransaction ctx t) tid e x f)"
| "runTx cc t (TGet ctx tid eid) f = snd (EntityStore_Get (WithTransaction ctx t) tid eid f)"
| "runTx cc t (TDelete ctx tid eid) f = snd (EntityStore_Delete 0 (WithTransaction ctx t) tid eid f)"
| "runTx cc t (TDeleteAll ctx tid ref) f = snd (EntityStore_DeleteAll 0 (WithTransaction ctx t) tid ref f)"
| "runTx cc t (TStageTask op) f = set_tm (stageScheduledTaskOp t op) f"

text \<open>
  What work inside transaction \<open>t\<close> leaves alone, and what it only appends to.
\<close>

definition txFrame :: "TransactionState \<Rightarrow> txid \<times> tenant \<times> Principal \<times> time \<times> bool \<times> bool" where
  "txFrame tx = (tx_ID tx, tx_TenantID tx, tx_Origin tx, tx_SnapshotTime tx, tx_RolledBack tx, tx_Closed tx)"

definition txExt :: "txid \<Rightarrow> StoreFactory \<Rightarrow> StoreFactory \<Rightarrow> bool" where
  "txExt t f g \<longleftrightarrow>
     map_option txFrame (sf_txHeap g t) = map_option txFrame (sf_txHeap f t) \<and>
     tm_savepoints (sf_txManager g) = tm_savepoints (sf_txManager f) \<and>
     tm_active (sf_txManager g) = tm_active (sf_txManager f) \<and>
     sf_entityData g = sf_entityData f \<and> sf_scheduledTasks g = sf_scheduledTasks f \<and>
     (\<exists>xs. or_nil (tm_scheduledTaskOps (sf_txManager g) t) =
            or_nil (tm_scheduledTaskOps (sf_txManager f) t) @ xs) \<and>
     (\<forall>eid. \<exists>xs. sl_elems (superseded_of (sf_txManager g) t eid) =
                   sl_elems (superseded_of (sf_txManager f) t eid) @ xs) \<and>
     (\<forall>eid. map_of (or_nil (tm_supersededSaves (sf_txManager f) t)) eid \<noteq> None \<longrightarrow>
            map_of (or_nil (tm_supersededSaves (sf_txManager g) t)) eid \<noteq> None)"

text \<open>The rows a commit appends for one buffered entity with history \<open>vs\<close>.\<close>

definition bufferedRows ::
  "txid \<Rightarrow> tenant \<Rightarrow> time \<Rightarrow> captured \<Rightarrow> entityid \<Rightarrow> Entity \<Rightarrow> entityVersion list \<Rightarrow> entityVersion list" where
  "bufferedRows t tid st cap eid e vs =
     flushRows t tid st (first_creationDate vs) (baseVersion_of vs) (vs \<noteq> []) (toFlush cap eid e)"

text \<open>The times the manager hands out: stamps of writes (\<open>True\<close>) and snapshots of \<^verbatim>\<open>Begin\<close> (\<open>False\<close>).\<close>

fun issueTimes :: "(bool \<times> time) list \<Rightarrow> TransactionManager \<Rightarrow> (bool \<times> time) list" where
  "issueTimes [] m = []"
| "issueTimes ((b, now) # evs) m =
     (let (t, m') = (if b then nextSubmitTime now m else reserveSnapshotTime now m) in (b, t) # issueTimes evs m')"

text \<open>Concrete inputs for the instances below.\<close>

definition noClaims :: compute_claims where
  "noClaims keys d = Ok []"

definition sysPrincipal :: Principal where
  "sysPrincipal = \<lparr>p_ID = ''sys'', p_Kind = ''SYSTEM''\<rparr>"

definition ctxOf :: "tenant \<Rightarrow> txid option \<Rightarrow> Ctx" where
  "ctxOf tid t =
     \<lparr>c_User = Some tid, c_Tx = t, c_UniqueKeys = [],
      c_Attribution = \<lparr>Attributed = sysPrincipal, Executor = sysPrincipal\<rparr>,
      c_Origin = sysPrincipal, c_Err = (\<lambda>_ _. False)\<rparr>"

definition mkEntity :: "entityid \<Rightarrow> txid \<Rightarrow> string \<Rightarrow> bytes \<Rightarrow> Entity" where
  "mkEntity eid t st d =
     \<lparr>Meta = \<lparr>m_ID = eid, m_TenantID = '''', m_ModelRef = \<lparr>EntityName = ''m'', ModelVersion = ''1''\<rparr>,
        m_State = st, m_Version = 0, m_CreationDate = 0, m_LastModifiedDate = 0, m_TransactionID = t,
        m_ChangeType = '''', m_ChangeUser = '''', m_ChangeUserKind = '''',
        m_ChangeExecutor = sysPrincipal, m_TransitionForLatestSave = ''''\<rparr>, Data = d\<rparr>"

definition twoVersions :: StoreFactory where
  "twoVersions =
     exec noClaims (OpSave 9 (ctxOf ''t'' None) ''t'' (mkEntity ''e'' ''y'' ''B'' ''2''))
       (exec noClaims (OpSave 5 (ctxOf ''t'' None) ''t'' (mkEntity ''e'' ''x'' ''A'' ''1'')) NewStoreFactory)"

text \<open>A store with one entity \<open>d\<close> and an open transaction \<open>x\<close> that has written \<open>e\<close> and deleted \<open>d\<close>.\<close>

definition openTx :: StoreFactory where
  "openTx = fold (exec noClaims)
     [OpSave 5 (ctxOf ''t'' None) ''t'' (mkEntity ''d'' ''x0'' ''A'' ''1''),
      OpBegin ''x'' 6 (ctxOf ''t'' None),
      OpSave 0 (ctxOf ''t'' (Some ''x'')) ''t'' (mkEntity ''e'' '''' ''A'' ''2''),
      OpDelete 0 (ctxOf ''t'' (Some ''x'')) ''t'' ''d''] NewStoreFactory"

text \<open>Snapshot reads.\<close>

lemma snapshotWalk_sorted:
  assumes "sorted (map v_submitTime vs)"
  shows "snapshotWalk t vs acc =
     (let fs = visibleRows t vs
      in if fs = [] then acc
         else if v_deleted (last fs) then (None, True) else (v_entity (last fs), False))"
  using assms
proof (induction vs arbitrary: acc)
  case (Cons v vs)
  show ?case
  proof (cases "v_submitTime v \<le> t")
    case True
    then show ?thesis using Cons by (auto simp: visibleRows_def Let_def)
  next
    case False
    then have "visibleRows t vs = []" using Cons.prems by (auto simp: visibleRows_def filter_empty_conv)
    then show ?thesis using False by (simp add: visibleRows_def Let_def)
  qed
qed (simp add: visibleRows_def Let_def)

lemma snapshotWalk_later:
  "\<forall>r \<in> set rows. t < v_submitTime r \<Longrightarrow> snapshotWalk t (vs @ rows) acc = snapshotWalk t vs acc"
proof (induction vs arbitrary: acc)
  case Nil then show ?case by (cases rows) auto
qed simp

lemma getSnapshotVersion_visible:
  assumes "hist_ok f"
  shows "getSnapshotVersion f tid eid t =
     (case visibleAt f tid eid t of None \<Rightarrow> Err ErrNotFound | Some e \<Rightarrow> Ok e)"
proof -
  let ?vs = "versions_of f tid eid"
  have s: "sorted (map v_submitTime ?vs)" and r: "\<forall>v \<in> set ?vs. row_ok tid eid v"
    using assms by (auto simp: hist_ok_def)
  have d: "v_deleted v \<longleftrightarrow> v_entity v = None" if "v \<in> set ?vs" for v
    using r that by (auto simp: row_ok_def split: option.splits)
  have l: "last (visibleRows t ?vs) \<in> set ?vs" if "visibleRows t ?vs \<noteq> []"
    using last_in_set [OF that] by (simp add: visibleRows_def)
  show ?thesis
    unfolding getSnapshotVersion_def visibleAt_def snapshotWalk_sorted [OF s] Let_def
    using d [OF l] by (auto split: option.splits)
qed

text \<open>
  C22. For every well-formed state, reading an entity at a time returns exactly the entity of the
  last version row stamped at or before that time, and reports ``not found'' when there is no such
  row or it is a tombstone.
\<close>

theorem getSnapshotVersion_correct:
  assumes "mem_inv f"
  shows "getSnapshotVersion f tid eid t =
     (case visibleAt f tid eid t of None \<Rightarrow> Err ErrNotFound | Some e \<Rightarrow> Ok e)"
  using mem_inv_D(1) [OF assms] by (rule getSnapshotVersion_visible)

lemma openTx_inv: "mem_inv openTx"
  unfolding openTx_def by (simp only: fold_simps id_apply, intro mem_inv_exec mem_inv_new)

lemma twoVersions_inv: "mem_inv twoVersions"
  unfolding twoVersions_def by (intro mem_inv_exec mem_inv_new)

theorem getSnapshotVersion_correct_witness:
  "getSnapshotVersion twoVersions ''t'' ''e'' 7 =
     (case visibleAt twoVersions ''t'' ''e'' 7 of None \<Rightarrow> Err ErrNotFound | Some e \<Rightarrow> Ok e) \<and>
   map_option Data (visibleAt twoVersions ''t'' ''e'' 7) = Some ''1''"
  by (rule conjI, rule getSnapshotVersion_correct [OF twoVersions_inv], code_simp)

text \<open>
  C10. Starting from the empty store, every sequence of operations (with any contexts, clock
  readings, transaction IDs and any claim function) leads to a state satisfying the store
  invariant: version histories ordered and well formed, no stamp above the floor, a consistent
  unique-key index, and transactions whose buffer and staged deletes are disjoint, keyed by entity
  ID and contained in the write set.
\<close>

theorem mem_inv_run: "mem_inv (fold (exec cc) ops NewStoreFactory)"
proof -
  have "mem_inv f \<Longrightarrow> mem_inv (fold (exec cc) ops f)" for f
    by (induction ops arbitrary: f) (auto intro: mem_inv_exec)
  then show ?thesis using mem_inv_new .
qed

lemma issueTimes_issue: "issueTimes evs m = sc.issue evs m"
  by (induction evs m rule: issueTimes.induct) (auto simp: Let_def split: prod.split)

text \<open>
  C23. The submit-time clock: in any interleaving of stamps (writes) and snapshot reservations
  (\<^verbatim>\<open>Begin\<close>), and for any clock readings, every stamp is strictly later than everything issued
  before it, and every reserved snapshot is at or after everything issued before it.
\<close>

theorem submit_times_ordered:
  "sorted_wrt (\<lambda>x y. if fst y then snd x < snd y else snd x \<le> snd y) (issueTimes evs m)"
  unfolding issueTimes_issue by (rule sc.issue_ordered)

text \<open>The committed histories after the flush of a commit.\<close>

lemma versions_of_flushEntity:
  "versions_of (flushEntity t tid st cap computed p f) tid' eid =
     (if tid' = tid \<and> eid = fst p
      then versions_of f tid eid @ bufferedRows t tid st cap eid (snd p) (versions_of f tid eid)
      else versions_of f tid' eid)"
  using versions_of_cong [OF entityData_flushEntity [of t tid st cap computed p f]]
  by (auto simp: bufferedRows_def)

lemma versions_of_fold_flushEntity:
  assumes "distinct (map fst ps)"
  shows "versions_of (fold (flushEntity t tid st cap computed) ps f) tid' eid =
     (case map_of ps eid of
        Some e \<Rightarrow>
          if tid' = tid
          then versions_of f tid eid @ bufferedRows t tid st cap eid e (versions_of f tid eid)
          else versions_of f tid' eid
      | None \<Rightarrow> versions_of f tid' eid)"
  using assms
proof (induction ps arbitrary: f)
  case (Cons p ps)
  have "map_of ps (fst p) = None" using Cons.prems by (simp add: map_of_eq_None_iff)
  then show ?case
    using Cons by (cases p) (auto simp: versions_of_flushEntity split: option.splits)
qed simp

lemma versions_of_fold_flushDelete:
  assumes "distinct ds"
  shows "versions_of (fold (flushDelete ctx t tid st tx) ds f) tid' eid =
     (if tid' = tid \<and> eid \<in> set ds
      then versions_of f tid eid @
           [tombstoneRow t st (baseVersion_of (versions_of f tid eid) + 1)
              (case map_of (tx_DeleteAttribution tx) eid of None \<Rightarrow> c_Attribution ctx | Some a \<Rightarrow> a)]
      else versions_of f tid' eid)"
  using assms
proof (induction ds arbitrary: f)
  case (Cons d ds)
  then show ?case by (auto simp: flushDelete_def Let_def)
qed simp

lemma versions_of_commit_flush:
  assumes "tx_ok t' tx"
  shows "versions_of (commit_flush ctx t tx cap computed st f) tid eid =
     (if tid \<noteq> tx_TenantID tx then versions_of f tid eid
      else case map_of (tx_Buffer tx) eid of
        Some e \<Rightarrow> versions_of f tid eid @ bufferedRows t tid st cap eid e (versions_of f tid eid)
      | None \<Rightarrow>
          if eid \<in> set (tx_Deletes tx)
          then versions_of f tid eid @
               [tombstoneRow t st (baseVersion_of (versions_of f tid eid) + 1)
                  (case map_of (tx_DeleteAttribution tx) eid of None \<Rightarrow> c_Attribution ctx | Some a \<Rightarrow> a)]
          else versions_of f tid eid)"
proof -
  let ?tid = "tx_TenantID tx"
  let ?f1 = "fold (releaseClaims ?tid) (tx_Deletes tx) f"
  let ?f2 = "fold (flushEntity t ?tid st cap computed) (tx_Buffer tx) ?f1"
  let ?f3 = "fold (flushDelete ctx t ?tid st tx) (tx_Deletes tx) ?f2"
  have d: "distinct (map fst (tx_Buffer tx))" "distinct (tx_Deletes tx)"
    "\<And>e. map_of (tx_Buffer tx) eid = Some e \<Longrightarrow> eid \<notin> set (tx_Deletes tx)"
    using assms by (auto simp: tx_ok_def buf_ok_def dest!: map_of_SomeD) force
  have "sf_entityData ?f1 = sf_entityData f" by (rule fold_frame) simp
  then have v1: "versions_of ?f1 = versions_of f" by (rule versions_of_cong)
  have "sf_entityData (commit_flush ctx t tx cap computed st f) = sf_entityData ?f3"
    by (simp add: commit_flush_def Let_def)
  then have "versions_of (commit_flush ctx t tx cap computed st f) = versions_of ?f3"
    by (rule versions_of_cong)
  then show ?thesis
    using d(3) by (auto simp: versions_of_fold_flushDelete [OF d(2)] versions_of_fold_flushEntity [OF d(1)] v1
        split: option.splits)
qed

lemma flushRows_append:
  "flushRows t tid st cd b hp (es @ [e]) =
     flushRows t tid st cd b hp es @ [flushRow t tid st cd (b + int (length es) + 1) (hp \<or> es \<noteq> []) e]"
  by (induction es arbitrary: b hp) (auto simp: algebra_simps)

lemma last_bufferedRows:
  "\<exists>n hp. last (bufferedRows t tid st cap eid e vs) = flushRow t tid st (first_creationDate vs) n hp e"
  "bufferedRows t tid st cap eid e vs \<noteq> []"
  by (auto simp: bufferedRows_def toFlush_def flushRows_append)

lemma commit_body_Ok:
  assumes "commit_body cc now1 now2 ctx t tx f = (Ok (), g)"
  obtains cap computed st m where
    "\<not> hasConflict (snapshotSeq_of (sf_txManager f) t) (tm_committedLog (sf_txManager f)) tx"
    "commit_check t tx f = (Inr cap, f)"
    "validateClaims cc (sf_uniqueClaims f) (tx_TenantID tx) (cap_keys cap) tx
       (sort (map fst (tx_Buffer tx))) Map.empty Map.empty = Inr computed"
    "nextSubmitTime now1 (sf_txManager f) = (st, m)"
    "g = commit_record t tx st now2 (commit_flush ctx t tx cap computed st (f\<lparr>sf_txManager := m\<rparr>))"
proof -
  obtain r f1 where c: "commit_check t tx f = (r, f1)" by fastforce
  then obtain cap where cap: "r = Inr cap" "f1 = f"
    using assms commit_check_state [OF c] by (cases r) (auto simp: commit_body_def)
  have nc: "\<not> hasConflict (snapshotSeq_of (sf_txManager f) t) (tm_committedLog (sf_txManager f)) tx"
    using c cap by (auto simp: commit_check_def Let_def split: if_splits)
  show thesis
    using assms c cap nc
    by (auto simp: commit_body_def Let_def split: sum.splits prod.splits intro!: that)
qed

lemma Commit_Ok:
  assumes "Commit cc now1 now2 ctx t f = (Ok (), g)"
  obtains tx f1 h where "active_tx f t = Some tx" "c_User ctx = Some (tx_TenantID tx)"
    "t \<notin> set (tm_committing (sf_txManager f))"
    "f1 = set_tm (\<lambda>m. m\<lparr>tm_committing := t # tm_committing m\<rparr>) f"
    "commit_body cc now1 now2 ctx t tx f1 = (Ok (), h)" "g = closeTx t h"
proof -
  obtain f1 where e: "commit_enter ctx t f = Inr f1" using assms by (cases "commit_enter ctx t f") (auto simp: Commit_def)
  then obtain tx where tx: "active_tx f t = Some tx" "c_User ctx = Some (tx_TenantID tx)"
    "t \<notin> set (tm_committing (sf_txManager f))"
    "f1 = set_tm (\<lambda>m. m\<lparr>tm_committing := t # tm_committing m\<rparr>) f"
    by (auto simp: commit_enter_def split: option.splits if_splits)
  then have "active_tx f1 t = Some tx" by (simp add: active_tx_def split: if_splits)
  then show thesis
    using assms e tx that by (cases "commit_body cc now1 now2 ctx t tx f1") (auto simp: Commit_def)
qed

lemma validateClaims_noClaims:
  "set ids \<subseteq> fst ` set (tx_Buffer tx) \<Longrightarrow>
   \<exists>c. validateClaims noClaims uc tid keys tx ids pending computed = Inr c"
proof (induction ids arbitrary: pending computed)
  case (Cons i ids)
  then obtain e where "map_of (tx_Buffer tx) i = Some e"
    by (cases "map_of (tx_Buffer tx) i") (auto simp: map_of_eq_None_iff)
  then show ?case using Cons by (simp add: noClaims_def)
qed simp

lemma Commit_noClaims:
  assumes "active_tx f t = Some tx" "c_User ctx = Some (tx_TenantID tx)"
    and "tm_committing (sf_txManager f) = []" "tm_committedLog (sf_txManager f) = []"
  shows "fst (Commit noClaims now1 now2 ctx t f) = Ok ()"
proof -
  let ?f1 = "set_tm (\<lambda>m. m\<lparr>tm_committing := t # tm_committing m\<rparr>) f"
  have e: "commit_enter ctx t f = Inr ?f1" "active_tx ?f1 t = Some tx"
    using assms by (simp_all add: commit_enter_def active_tx_def split: if_splits)
  obtain cap where cap: "commit_check t tx ?f1 = (Inr cap, ?f1)"
    using assms(4) by (simp add: commit_check_def hasConflict_def Let_def)
  obtain c where "validateClaims noClaims (sf_uniqueClaims ?f1) (tx_TenantID tx) (cap_keys cap) tx
      (sort (map fst (tx_Buffer tx))) Map.empty Map.empty = Inr c"
    using validateClaims_noClaims [of "sort (map fst (tx_Buffer tx))" tx] by fastforce
  then show ?thesis
    using e cap by (simp add: Commit_def commit_body_def split: prod.split)
qed

lemma versions_of_Commit:
  assumes "mem_inv f" "Commit cc now1 now2 ctx t f = (Ok (), g)"
  obtains tx cap st where "active_tx f t = Some tx" "tx_ok t tx" "floor_of f < st" "floor_of g = st"
    "\<And>tid eid. versions_of g tid eid =
       (if tid \<noteq> tx_TenantID tx then versions_of f tid eid
        else case map_of (tx_Buffer tx) eid of
          Some e \<Rightarrow> versions_of f tid eid @ bufferedRows t tid st cap eid e (versions_of f tid eid)
        | None \<Rightarrow>
            if eid \<in> set (tx_Deletes tx)
            then versions_of f tid eid @
                 [tombstoneRow t st (baseVersion_of (versions_of f tid eid) + 1)
                    (case map_of (tx_DeleteAttribution tx) eid of None \<Rightarrow> c_Attribution ctx | Some a \<Rightarrow> a)]
            else versions_of f tid eid)"
proof (rule Commit_Ok [OF assms(2)])
  fix tx f1 h
  assume c: "active_tx f t = Some tx" "f1 = set_tm (\<lambda>m. m\<lparr>tm_committing := t # tm_committing m\<rparr>) f"
    "commit_body cc now1 now2 ctx t tx f1 = (Ok (), h)" "g = closeTx t h"
  have heap: "sf_txHeap f t = Some tx" using c(1) by (simp add: active_tx_def split: if_splits)
  have ok: "tx_ok t tx" using mem_inv_D(3) [OF assms(1) heap] by simp
  show thesis
  proof (rule commit_body_Ok [OF c(3)])
    fix cap computed st m
    assume b: "nextSubmitTime now1 (sf_txManager f1) = (st, m)"
      "h = commit_record t tx st now2 (commit_flush ctx t tx cap computed st (f1\<lparr>sf_txManager := m\<rparr>))"
    have ed: "sf_entityData g = sf_entityData (commit_flush ctx t tx cap computed st (f1\<lparr>sf_txManager := m\<rparr>))"
      by (simp add: c(4) b(2) closeTx_def)
    have vs: "versions_of (f1\<lparr>sf_txManager := m\<rparr>) = versions_of f"
      by (rule versions_of_cong) (simp add: c(2))
    show thesis
    proof (rule that [OF c(1) ok, of st cap])
      show "floor_of f < st" "floor_of g = st"
        using nextSubmitTime_eq [OF b(1)] by (simp_all add: c(2,4) b(2) closeTx_def)
    qed (unfold versions_of_cong [OF ed] versions_of_commit_flush [OF ok] vs, rule refl)
  qed
qed



text \<open>
  C21. A \<^verbatim>\<open>Commit\<close> that reports an error leaves the committed data, the transaction index, the claim
  index and the scheduled tasks as they were, and so does every \<^verbatim>\<open>Rollback\<close>: no part of an aborted
  transaction's buffer or of its staged operations reaches the store.
\<close>

theorem abort_leaves_store:
  "(case Commit cc now1 now2 ctx t f of
      (Inl e, g) \<Rightarrow> sf_entityData g = sf_entityData f \<and> sf_txIndex g = sf_txIndex f \<and>
        sf_uniqueClaims g = sf_uniqueClaims f \<and> sf_claimsByEntity g = sf_claimsByEntity f \<and>
        sf_scheduledTasks g = sf_scheduledTasks f
    | (Inr _, g) \<Rightarrow> True) \<and>
   (let g = snd (Rollback ctx' t' f) in
      sf_entityData g = sf_entityData f \<and> sf_txIndex g = sf_txIndex f \<and>
      sf_uniqueClaims g = sf_uniqueClaims f \<and> sf_claimsByEntity g = sf_claimsByEntity f \<and>
      sf_scheduledTasks g = sf_scheduledTasks f)"
proof
  show "case Commit cc now1 now2 ctx t f of
      (Inl e, g) \<Rightarrow> sf_entityData g = sf_entityData f \<and> sf_txIndex g = sf_txIndex f \<and>
        sf_uniqueClaims g = sf_uniqueClaims f \<and> sf_claimsByEntity g = sf_claimsByEntity f \<and>
        sf_scheduledTasks g = sf_scheduledTasks f
    | (Inr _, g) \<Rightarrow> True"
    by (auto simp: Commit_def commit_enter_def commit_body_def commit_check_def closeTx_def Let_def
        split: sum.splits prod.splits option.splits if_splits)
qed (auto simp: Rollback_def rollback_body_def closeTx_def markRolledBack_def split: sum.split)

text \<open>Operations inside a transaction.\<close>

lemma checkOpen_iff: "checkOpen tx = Inr u \<longleftrightarrow> \<not> tx_RolledBack tx \<and> \<not> tx_Closed tx"
  by (simp add: checkOpen_def)

lemma in_tx_simps:
  "c_Tx ctx = Some t \<Longrightarrow> GetTransaction f ctx = sf_txHeap f t"
  by (simp add: GetTransaction_def)

lemma Save_in_tx:
  assumes "c_Tx ctx = Some t" "sf_txHeap f t = Some tx" "checkOpen tx = Ok ()"
  shows "fst (EntityStore_Save cc now ctx tid e f) = Ok 0"
    and "sf_txHeap (snd (EntityStore_Save cc now ctx tid e f)) =
           (sf_txHeap f)(t \<mapsto> unstageDelete (entity_id e) (bufferWrite tx e))"
    and "sf_entityData (snd (EntityStore_Save cc now ctx tid e f)) = sf_entityData f"
  using assms by (simp_all add: EntityStore_Save_def in_tx_simps Let_def stageWrite_def)

lemma Delete_in_tx:
  assumes "c_Tx ctx = Some t" "sf_txHeap f t = Some tx" "checkOpen tx = Ok ()"
    and "map_of (tx_Buffer tx) eid \<noteq> None \<or> liveLatest (versions_of f tid eid)"
  shows "EntityStore_Delete now ctx tid eid f = (Ok (), set_tx t (stageDelete (c_Attribution ctx) eid tx) f)"
  using assms by (auto simp: EntityStore_Delete_def in_tx_simps)





text \<open>Tenant isolation.\<close>

lemma tenantView_cong:
  "sf_entityData g = sf_entityData f \<Longrightarrow> sf_uniqueClaims g = sf_uniqueClaims f \<Longrightarrow>
   sf_claimsByEntity g = sf_claimsByEntity f \<Longrightarrow> tenantView g tid = tenantView f tid"
  by (simp add: tenantView_def claimsOf_def fun_eq_iff)

lemma tenantView_eqI:
  assumes "claims_ok f" "claims_ok g" "sf_entityData g tid = sf_entityData f tid"
    and "\<And>eid. claimsOf g tid eid = claimsOf f tid eid"
  shows "tenantView g tid = tenantView f tid"
proof -
  have "sf_uniqueClaims g k = sf_uniqueClaims f k" if "ck_tenant k = tid" for k
    using claims_ok_D [OF assms(1), of k tid] claims_ok_D [OF assms(2), of k tid] assms(4) that
    by (metis not_Some_eq)
  then show ?thesis using assms(3,4) by (simp add: tenantView_def fun_eq_iff)
qed

lemma entityData_other_tenant:
  "tid' \<noteq> tid \<Longrightarrow> sf_entityData (set_versions tid eid vs f) tid' = sf_entityData f tid'"
  by (simp add: set_versions_def)

lemma claimsOf_frame [simp]:
  "claimsOf (recordTxIndex tid eid t n f) = claimsOf f"
  "claimsOf (set_versions tid eid vs f) = claimsOf f"
  "claimsOf (f\<lparr>sf_txManager := m\<rparr>) = claimsOf f"
  by (simp_all add: claimsOf_def fun_eq_iff)

lemma saveUnlocked_isolated:
  assumes "mem_inv f" "tid' \<noteq> tid"
  shows "tenantView (snd (saveUnlocked cc clock ctx tid e f)) tid' = tenantView f tid'"
proof (cases rule: saveUnlocked_cases [of cc clock ctx tid e f])
  case (ok cs n t m cd)
  show ?thesis
  proof (rule tenantView_eqI)
    show "claims_ok (snd (saveUnlocked cc clock ctx tid e f))"
      using mem_inv_D(2) [OF mem_inv_saveUnlocked [OF assms(1)]] .
  qed (use ok(6) assms mem_inv_D(2) in \<open>auto simp: entityData_other_tenant claimsOf_insert claimsOf_release\<close>)
next
  case (panic e' t m)
  then show ?thesis by (simp, intro tenantView_cong) simp_all
qed simp

lemma commit_flush_entityData_other:
  assumes "tid' \<noteq> tx_TenantID tx"
  shows "sf_entityData (commit_flush ctx t tx cap computed st f) tid' = sf_entityData f tid'"
proof -
  have "sf_entityData (flushEntity t (tx_TenantID tx) st cap computed p g) tid' = sf_entityData g tid'" for p g
    using entityData_flushEntity [of t "tx_TenantID tx" st cap computed p g] assms
    by (simp add: entityData_other_tenant)
  moreover have "sf_entityData (flushDelete ctx t (tx_TenantID tx) st tx d g) tid' = sf_entityData g tid'" for d g
    using assms by (simp add: flushDelete_def Let_def entityData_other_tenant)
  ultimately show ?thesis
    by (simp add: commit_flush_def Let_def fold_frame [where sel = "\<lambda>f. sf_entityData f tid'"])
qed

lemma Commit_isolated:
  assumes "mem_inv f" "\<And>tx. active_tx f t = Some tx \<Longrightarrow> tid' \<noteq> tx_TenantID tx"
  shows "tenantView (snd (Commit cc now1 now2 ctx t f)) tid' = tenantView f tid'"
proof (cases "fst (Commit cc now1 now2 ctx t f)")
  case (Inl e)
  then show ?thesis
    by (intro tenantView_cong)
       (auto simp: Commit_def commit_enter_def commit_body_def commit_check_def closeTx_def Let_def
        split: sum.splits prod.splits option.splits if_splits)
next
  case (Inr u)
  then have "Commit cc now1 now2 ctx t f = (Ok (), snd (Commit cc now1 now2 ctx t f))" by (simp add: prod_eq_iff)
  then show ?thesis
  proof (rule Commit_Ok)
    fix tx f1 h
    assume c: "active_tx f t = Some tx" "f1 = set_tm (\<lambda>m. m\<lparr>tm_committing := t # tm_committing m\<rparr>) f"
      "commit_body cc now1 now2 ctx t tx f1 = (Ok (), h)" "snd (Commit cc now1 now2 ctx t f) = closeTx t h"
    have heap: "sf_txHeap f t = Some tx" using c(1) by (simp add: active_tx_def split: if_splits)
    have ok: "tx_ok t tx" using mem_inv_D(3) [OF assms(1) heap] by simp
    from c(3) show ?thesis
    proof (rule commit_body_Ok)
      fix cap computed st m
      assume b: "validateClaims cc (sf_uniqueClaims f1) (tx_TenantID tx) (cap_keys cap) tx
         (sort (map fst (tx_Buffer tx))) Map.empty Map.empty = Inr computed"
        "h = commit_record t tx st now2 (commit_flush ctx t tx cap computed st (f1\<lparr>sf_txManager := m\<rparr>))"
      let ?f2 = "f1\<lparr>sf_txManager := m\<rparr>" and ?h = "commit_flush ctx t tx cap computed st (f1\<lparr>sf_txManager := m\<rparr>)"
      have "claims_ok ?f2 = claims_ok f" by (rule claims_ok_cong) (simp_all add: c(2))
      then have ok2: "claims_ok ?f2" using mem_inv_D(2) [OF assms(1)] by simp
      have cl: "claims_ok ?h" "\<And>eid. claimsOf ?h tid' eid = claimsOf ?f2 tid' eid"
        using commit_flush_claims [OF ok2 ok, of cc "cap_keys cap" computed ctx t cap st] b(1) assms(2) [OF c(1)]
        by simp_all
      have "tenantView ?h tid' = tenantView ?f2 tid'"
        by (rule tenantView_eqI [OF ok2 cl(1) commit_flush_entityData_other cl(2)])
           (use assms(2) c(1) in simp)
      moreover have "tenantView ?f2 tid' = tenantView f tid'" by (rule tenantView_cong) (simp_all add: c(2))
      moreover have "tenantView (snd (Commit cc now1 now2 ctx t f)) tid' = tenantView ?h tid'"
        by (rule tenantView_cong) (simp_all add: c(4) b(2) closeTx_def)
      ultimately show ?thesis by simp
    qed
  qed
qed

lemma deleteAllLoop_isolated:
  assumes "tid' \<noteq> tid"
  shows "sf_entityData (snd (deleteAllLoop t a tid ref es f)) tid' = sf_entityData f tid' \<and>
         (\<forall>eid. claimsOf (snd (deleteAllLoop t a tid ref es f)) tid' eid = claimsOf f tid' eid)"
  using assms
  by (induction t a tid ref es f rule: deleteAllLoop.induct)
     (auto simp: entityData_other_tenant claimsOf_release split: option.splits)

lemma Delete_isolated:
  assumes "mem_inv f" "tid' \<noteq> tid"
  shows "tenantView (snd (EntityStore_Delete clock ctx tid eid f)) tid' = tenantView f tid'"
proof (rule tenantView_eqI)
  show "claims_ok f" "claims_ok (snd (EntityStore_Delete clock ctx tid eid f))"
    using mem_inv_D(2) assms(1) mem_inv_Delete [OF assms(1)] by blast+
  show "sf_entityData (snd (EntityStore_Delete clock ctx tid eid f)) tid' = sf_entityData f tid'"
    using assms(2) by (auto simp: EntityStore_Delete_def Let_def entityData_other_tenant
        split: option.split sum.split prod.split)
  show "claimsOf (snd (EntityStore_Delete clock ctx tid eid f)) tid' e = claimsOf f tid' e" for e
    using assms(2) by (auto simp: EntityStore_Delete_def Let_def claimsOf_release
        split: option.split sum.split prod.split intro: claimsOf_cong)
qed

lemma DeleteAll_isolated:
  assumes "mem_inv f" "tid' \<noteq> tid"
  shows "tenantView (snd (EntityStore_DeleteAll clock ctx tid ref f)) tid' = tenantView f tid'"
proof (rule tenantView_eqI)
  show "claims_ok f" "claims_ok (snd (EntityStore_DeleteAll clock ctx tid ref f))"
    using mem_inv_D(2) assms(1) mem_inv_DeleteAll [OF assms(1)] by blast+
  show "sf_entityData (snd (EntityStore_DeleteAll clock ctx tid ref f)) tid' = sf_entityData f tid'"
    using deleteAllLoop_isolated [OF assms(2)]
    by (auto simp: EntityStore_DeleteAll_def Let_def split: option.split sum.split prod.split)
  show "claimsOf (snd (EntityStore_DeleteAll clock ctx tid ref f)) tid' e = claimsOf f tid' e" for e
    using deleteAllLoop_isolated [OF assms(2)]
    by (auto simp: EntityStore_DeleteAll_def Let_def split: option.split sum.split prod.split intro: claimsOf_cong)
qed

lemma exec_no_tenant_frame:
  assumes "opTenant op f = None"
  shows "sf_entityData (exec cc op f) = sf_entityData f"
    "sf_uniqueClaims (exec cc op f) = sf_uniqueClaims f"
    "sf_claimsByEntity (exec cc op f) = sf_claimsByEntity f"
  using assms
  by (cases op; auto simp: Begin_def Commit_def commit_enter_def Rollback_def rollback_body_def closeTx_def
      markRolledBack_def Savepoint_def RollbackToSavepoint_def ReleaseSavepoint_def EntityStore_Get_def
      EntityStore_GetAsAt_def EntityStore_GetPage_def Let_def
      split: option.split sum.split prod.split)+

lemma Save_isolated:
  assumes "mem_inv f" "tid' \<noteq> tid"
  shows "tenantView (snd (EntityStore_Save cc clock ctx tid e f)) tid' = tenantView f tid'"
  by (auto simp: EntityStore_Save_def Let_def stageWrite_def saveUnlocked_isolated [OF assms]
      split: option.split sum.split intro: tenantView_cong)

lemma CompareAndSave_isolated:
  assumes "mem_inv f" "tid' \<noteq> tid"
  shows "tenantView (snd (EntityStore_CompareAndSave cc clock ctx tid e x f)) tid' = tenantView f tid'"
  by (auto simp: EntityStore_CompareAndSave_def Let_def stageWrite_def saveUnlocked_isolated [OF assms]
      split: option.split sum.split intro: tenantView_cong)



text \<open>Savepoints.\<close>

lemma txExt_refl: "txExt t f f"
  by (simp add: txExt_def)

lemma txExt_trans:
  assumes "txExt t f g" "txExt t g h" shows "txExt t f h"
proof -
  have "\<exists>xs. sl_elems (superseded_of (sf_txManager h) t eid) =
      sl_elems (superseded_of (sf_txManager f) t eid) @ xs" for eid
    using assms unfolding txExt_def by (metis append_assoc)
  moreover have "\<exists>xs. or_nil (tm_scheduledTaskOps (sf_txManager h) t) =
      or_nil (tm_scheduledTaskOps (sf_txManager f) t) @ xs"
    using assms unfolding txExt_def by (metis append_assoc)
  ultimately show ?thesis using assms by (auto simp: txExt_def)
qed

lemma txFrame_simps [simp]:
  "txFrame (unstageDelete eid tx) = txFrame tx" "txFrame (bufferWrite tx e) = txFrame tx"
  "txFrame (stageDelete a eid tx) = txFrame tx" "txFrame (addRead eid tx) = txFrame tx"
  "txFrame (restoreTx s tx) = txFrame tx"
  by (simp_all add: txFrame_def unstageDelete_def bufferWrite_def stageDelete_def addRead_def restoreTx_def)

lemma txExt_set_tx:
  "sf_txHeap f t = Some tx \<Longrightarrow> txFrame tx' = txFrame tx \<Longrightarrow> txExt t f (set_tx t tx' f)"
  by (simp add: txExt_def)

lemma txExt_stage:
  assumes "sf_txHeap f t = Some tx" "txFrame tx' = txFrame tx" "tx_ID tx = t"
  shows "txExt t f (set_tm (recordUniqueKeys (tx_ID tx) eid ks \<circ> stageSuperseded (tx_ID tx) eid prior) (set_tx t tx' f))"
  using assms
  by (auto simp: txExt_def recordUniqueKeys_def stageSuperseded_def superseded_of_def slice_append_def
      split: option.split)

lemma txExt_runTx:
  assumes "sf_txHeap f t = Some tx" "tx_ID tx = t" shows "txExt t f (runTx cc t op f)"
proof -
  have g: "GetTransaction f (WithTransaction ctx t) = Some tx" for ctx
    using assms(1) by (simp add: GetTransaction_def WithTransaction_def)
  have c: "c_Tx (WithTransaction ctx t) = Some t" for ctx by (simp add: WithTransaction_def)
  have w: "txExt t f (stageWrite ctx t tx e f)" for ctx e
    using txExt_stage [OF assms(1) _ assms(2), of "bufferWrite tx e"] by (simp add: stageWrite_def Let_def)
  have s: "txExt t f (set_tx t (unstageDelete (entity_id e) (bufferWrite tx e)) (stageWrite ctx t tx e f))" for ctx e
    using txExt_stage [OF assms(1) _ assms(2)] by (simp add: stageWrite_set_tx)
  have d: "txFrame (fold (stageDelete a) ys (fold (\<lambda>e. stageDelete a (entity_id e)) xs tx)) = txFrame tx" for a xs ys
    by (simp add: fold_frame [where sel = txFrame])
  have k: "txExt t f (set_tm (stageScheduledTaskOp t op') f)" for op'
    by (simp add: txExt_def stageScheduledTaskOp_def superseded_of_def)
  show ?thesis
    by (cases op)
       (auto simp: EntityStore_Save_def EntityStore_CompareAndSave_def EntityStore_Get_def
          EntityStore_Delete_def EntityStore_DeleteAll_def g c Let_def txExt_refl s w k
          txExt_set_tx [OF assms(1)] d split: sum.split option.split)
qed

lemma txExt_run:
  assumes "sf_txHeap f t = Some tx" "tx_ID tx = t" shows "txExt t f (fold (runTx cc t) ops f)"
  using assms
proof (induction ops arbitrary: f tx)
  case (Cons op ops)
  have s: "txExt t f (runTx cc t op f)" using Cons.prems by (rule txExt_runTx)
  then obtain tx' where "sf_txHeap (runTx cc t op f) t = Some tx'" "tx_ID tx' = t"
    using Cons.prems by (auto simp: txExt_def txFrame_def)
  from txExt_trans [OF s Cons.IH [OF this]] show ?case by simp
qed (simp add: txExt_refl)

lemma truncateSuperseded_restores:
  assumes "distinct (map fst ss)"
    and "\<And>eid s l. map_of ss eid = Some s \<Longrightarrow> lens eid = Some l \<Longrightarrow> l \<le> length (sl_elems s)"
  shows "fst (truncateSuperseded lens ss) = Ok () \<and>
    (\<forall>eid. map_option sl_elems (map_of (snd (truncateSuperseded lens ss)) eid) =
       (case map_of ss eid of None \<Rightarrow> None | Some s \<Rightarrow> map_option (\<lambda>l. take l (sl_elems s)) (lens eid)))"
  using assms
proof (induction lens ss rule: truncateSuperseded.induct)
  case (2 lens eid s rest)
  have n: "map_of rest eid = None" using "2.prems"(1) by (simp add: map_of_eq_None_iff)
  have r: "\<And>x s l. map_of rest x = Some s \<Longrightarrow> lens x = Some l \<Longrightarrow> l \<le> length (sl_elems s)"
    using "2.prems"(2) n by (metis map_of_Cons_code(2) option.distinct(1))
  show ?case
  proof (cases "lens eid")
    case None
    then show ?thesis using "2.IH"(1) [OF None] "2.prems"(1) r n by (auto split: option.split)
  next
    case (Some l)
    then have l: "l \<le> length (sl_elems s)" using "2.prems"(2) [of eid s l] by simp
    then obtain s' where s': "slice_to l s = Some s'" "sl_elems s' = take l (sl_elems s)"
      by (simp add: slice_to_def Let_def)
    then show ?thesis
      using "2.IH"(2) [OF Some s'(1)] "2.prems"(1) r n Some by (auto split: option.split)
  qed
qed simp

lemma mem_inv_stageTask: "mem_inv f \<Longrightarrow> mem_inv (set_tm (stageScheduledTaskOp t op) f)"
  by (rule mem_inv_set_tm) (simp_all add: stageScheduledTaskOp_def mem_inv_D)

lemma mem_inv_run_tx: "mem_inv f \<Longrightarrow> mem_inv (fold (runTx cc t) ops f)"
proof (induction ops arbitrary: f)
  case (Cons op ops)
  have "mem_inv (runTx cc t op f)"
    using Cons.prems by (cases op) (simp_all add: mem_inv_ops mem_inv_stageTask)
  then show ?case using Cons.IH by simp
qed simp

lemma txExt_open:
  assumes "txExt t f g" "activeForTenant ctx t f = Ok tx" "checkOpen tx = Ok ()"
  obtains tx2 where "activeForTenant ctx t g = Ok tx2" "checkOpen tx2 = Ok ()" "sf_txHeap g t = Some tx2"
    "txFrame tx2 = txFrame tx"
proof -
  have a: "t \<in> set (tm_active (sf_txManager f))" "sf_txHeap f t = Some tx" "c_User ctx = Some (tx_TenantID tx)"
    using assms(2) by (auto simp: activeForTenant_def active_tx_def split: option.splits if_splits)
  obtain tx2 where tx2: "sf_txHeap g t = Some tx2" "txFrame tx2 = txFrame tx"
    using assms(1) a(2) by (auto simp: txExt_def)
  have "activeForTenant ctx t g = Ok tx2"
    using assms(1) a tx2 by (simp add: activeForTenant_def active_tx_def txExt_def txFrame_def)
  moreover have "checkOpen tx2 = Ok ()" using assms(3) tx2(2) by (simp add: checkOpen_iff txFrame_def)
  ultimately show thesis using tx2 that by blast
qed

text \<open>Truncating to the lengths recorded at \<open>f\<close> undoes what was appended since.\<close>

lemma txExt_truncate:
  assumes "txExt t f g" "mem_inv g" "lens = sp_supersededLens (takeSnapshot t (sf_txManager f) tx)"
  defines "ss \<equiv> or_nil (tm_supersededSaves (sf_txManager g) t)"
  shows "fst (truncateSuperseded lens ss) = Ok ()"
    and "map_option sl_elems (map_of (snd (truncateSuperseded lens ss)) eid) =
         map_option sl_elems (map_of (or_nil (tm_supersededSaves (sf_txManager f) t)) eid)"
proof -
  let ?ss0 = "or_nil (tm_supersededSaves (sf_txManager f) t)"
  have lens: "lens = (\<lambda>eid. map_option (\<lambda>s. length (sl_elems s)) (map_of ?ss0 eid))"
    by (simp add: assms(3) takeSnapshot_def)
  have grow: "\<exists>s xs. map_of ss e = Some s \<and> sl_elems s = sl_elems s0 @ xs"
    if "map_of ?ss0 e = Some s0" for e s0
  proof -
    from that obtain s where s: "map_of ss e = Some s"
      using assms(1) unfolding txExt_def ss_def by (metis not_Some_eq)
    have "\<exists>xs. sl_elems (superseded_of (sf_txManager g) t e) = sl_elems (superseded_of (sf_txManager f) t e) @ xs"
      using assms(1) by (simp add: txExt_def)
    then show ?thesis using s that by (simp add: superseded_of_def ss_def)
  qed
  have bound: "l \<le> length (sl_elems s)" if "map_of ss e = Some s" "lens e = Some l" for e s l
    using that grow by (fastforce simp: lens)
  have d: "distinct (map fst ss)" using mem_inv_D(5) [OF assms(2), of t] by (simp add: sup_ok_def ss_def)
  have t: "fst (truncateSuperseded lens ss) = Ok ()"
    "map_option sl_elems (map_of (snd (truncateSuperseded lens ss)) e) =
       (case map_of ss e of None \<Rightarrow> None | Some s \<Rightarrow> map_option (\<lambda>l. take l (sl_elems s)) (lens e))" for e
    using truncateSuperseded_restores [OF d, of lens] bound by simp_all
  show "fst (truncateSuperseded lens ss) = Ok ()" by (rule t)
  show "map_option sl_elems (map_of (snd (truncateSuperseded lens ss)) eid) = map_option sl_elems (map_of ?ss0 eid)"
  proof (cases "map_of ?ss0 eid")
    case None then show ?thesis using t(2) [of eid] by (auto simp: lens split: option.splits)
  next
    case (Some s0) then show ?thesis using t(2) [of eid] grow [OF Some] by (auto simp: lens)
  qed
qed

lemma RollbackToSavepoint_effect:
  assumes "activeForTenant ctx t f = Ok tx" "checkOpen tx = Ok ()"
    and "lookup2 (tm_savepoints (sf_txManager f)) t sp = Some snap"
    and "truncateSuperseded (sp_supersededLens snap) (or_nil (tm_supersededSaves (sf_txManager f) t)) = (Ok (), trunc)"
    and "RollbackToSavepoint ctx t sp f = (r, g)"
  shows "r = Ok ()" "sf_txHeap g = (sf_txHeap f)(t \<mapsto> restoreTx snap tx)"
    "sf_entityData g = sf_entityData f" "sf_scheduledTasks g = sf_scheduledTasks f"
    "tm_scheduledTaskOps (sf_txManager g) t =
       truncateOps (sp_scheduledTaskOpsLen snap) (tm_scheduledTaskOps (sf_txManager f) t)"
    "tm_supersededSaves (sf_txManager g) t = map_option (\<lambda>_. trunc) (tm_supersededSaves (sf_txManager f) t)"
  using assms(5) assms(1-4) by (auto simp: RollbackToSavepoint_def Let_def)

lemma superseded_of_eqI:
  assumes "map_option sl_elems (map_of (or_nil (tm_supersededSaves m t)) eid) =
           map_option sl_elems (map_of (or_nil (tm_supersededSaves m' t)) eid)"
  shows "sl_elems (superseded_of m t eid) = sl_elems (superseded_of m' t eid)"
  using assms by (auto simp: superseded_of_def split: option.splits)



end
