(* ===== verification/MemConcurrent.thy ===== *)
theory MemConcurrent
  imports MemProperties
begin

text \<open>
  Concurrent transactions. Goroutines run the operations of the manager and of the store, and the
  mutexes of \<^verbatim>\<open>plugins/memory\<close> decide how they interleave:

  \<^item> \<^verbatim>\<open>TransactionManager.mu\<close> makes each access to the manager's maps one step;
  \<^item> \<^verbatim>\<open>StoreFactory.entityMu\<close> is held by one committing goroutine from the conflict check to the
    record of the commit (\<open>cs_entity\<close>), and keeps every operation that reads or writes the
    committed data out; operations that only use \<^verbatim>\<open>mu\<close> and \<^verbatim>\<open>tx.OpMu\<close> still interleave;
  \<^item> \<^verbatim>\<open>tx.OpMu\<close> is held for writing by a committing goroutine (\<open>cs_opmu\<close>); an operation inside that
    transaction waits.

  \<^verbatim>\<open>Commit\<close> is four steps, \<^verbatim>\<open>Rollback\<close> two, every other operation one (a client runs the operations
  of one transaction one after another). Commits are recorded in the ghost history \<open>cs_hist\<close>. With
  \<open>d = True\<close> the relation only contains the runs in which no client calls \<^verbatim>\<open>Rollback\<close> on a
  transaction while another of its calls is inside \<^verbatim>\<open>Commit\<close>, and conversely.
\<close>

type_synonym goroutine = nat

datatype pc =
    Idle
  | CommitEntered Ctx txid
  | CommitChecked Ctx txid captured "entityid \<Rightarrow> UniqueClaim list option"
  | CommitFlushed Ctx txid time
  | RollbackEntered Ctx txid

record commitRec =
  ch_id :: txid
  ch_snapshot :: time
  ch_reads :: "entityid list"
  ch_writes :: "entityid list"
  ch_submit :: time

record cstate =
  cs_f :: StoreFactory
  cs_opmu :: "txid \<rightharpoonup> goroutine"
  cs_entity :: "goroutine option"
  cs_pc :: "goroutine \<Rightarrow> pc"
  cs_hist :: "commitRec list"

fun storeOp :: "memop \<Rightarrow> bool" where
  "storeOp (OpBegin _ _ _) = False"
| "storeOp (OpCommit _ _ _ _) = False"
| "storeOp (OpRollback _ _) = False"
| "storeOp _ = True"

text \<open>The transaction whose \<^verbatim>\<open>OpMu\<close> an operation takes.\<close>

fun opTx :: "memop \<Rightarrow> txid option" where
  "opTx (OpSavepoint _ _ t) = Some t"
| "opTx (OpRollbackToSavepoint _ t _) = Some t"
| "opTx (OpSave _ ctx _ _) = c_Tx ctx"
| "opTx (OpCompareAndSave _ ctx _ _ _) = c_Tx ctx"
| "opTx (OpGet ctx _ _) = c_Tx ctx"
| "opTx (OpGetAsAt ctx _ _ _) = c_Tx ctx"
| "opTx (OpDelete _ ctx _ _) = c_Tx ctx"
| "opTx (OpDeleteAll _ ctx _ _) = c_Tx ctx"
| "opTx (OpGetPage ctx _ _ _ _ asAt) = (if asAt = None then c_Tx ctx else None)"
| "opTx _ = None"

text \<open>Whether the operation takes \<^verbatim>\<open>entityMu\<close> in the given state.\<close>

definition inBufferView :: "StoreFactory \<Rightarrow> Ctx \<Rightarrow> entityid \<Rightarrow> bool" where
  "inBufferView f ctx eid =
     (case GetTransaction f ctx of
        None \<Rightarrow> False
      | Some tx \<Rightarrow> eid \<in> set (tx_Deletes tx) \<or> map_of (tx_Buffer tx) eid \<noteq> None)"

fun needsEntity :: "memop \<Rightarrow> StoreFactory \<Rightarrow> bool" where
  "needsEntity (OpSave _ ctx _ _) f = (GetTransaction f ctx = None)"
| "needsEntity (OpCompareAndSave _ ctx _ e _) f = (\<not> inBufferView f ctx (entity_id e))"
| "needsEntity (OpGet ctx _ eid) f = (\<not> inBufferView f ctx eid)"
| "needsEntity (OpDelete _ ctx _ eid) f = (\<not> inBufferView f ctx eid)"
| "needsEntity (OpGetAsAt _ _ _ _) f = True"
| "needsEntity (OpDeleteAll _ _ _ _) f = True"
| "needsEntity (OpGetPage _ _ _ _ _ _) f = True"
| "needsEntity _ f = False"

definition rollbackPending :: "cstate \<Rightarrow> txid \<Rightarrow> bool" where
  "rollbackPending s t \<longleftrightarrow> (\<exists>p ctx. cs_pc s p = RollbackEntered ctx t)"

definition goto :: "goroutine \<Rightarrow> pc \<Rightarrow> cstate \<Rightarrow> cstate" where
  "goto p l s = s\<lparr>cs_pc := (cs_pc s)(p := l)\<rparr>"

definition claimsVerdict ::
  "compute_claims \<Rightarrow> StoreFactory \<Rightarrow> captured \<Rightarrow> TransactionState \<Rightarrow> (entityid \<rightharpoonup> UniqueClaim list) result" where
  "claimsVerdict cc f cap tx =
     validateClaims cc (sf_uniqueClaims f) (tx_TenantID tx) (cap_keys cap) tx
       (sort (map fst (tx_Buffer tx))) Map.empty Map.empty"

definition commitRec_of :: "txid \<Rightarrow> TransactionState \<Rightarrow> time \<Rightarrow> commitRec" where
  "commitRec_of t tx st =
     \<lparr>ch_id = t, ch_snapshot = tx_SnapshotTime tx, ch_reads = tx_ReadSet tx,
      ch_writes = tx_WriteSet tx, ch_submit = st\<rparr>"

inductive cstep :: "compute_claims \<Rightarrow> bool \<Rightarrow> cstate \<Rightarrow> cstate \<Rightarrow> bool" for cc d where
  begin_step:
    "\<lbrakk>sf_txHeap (cs_f s) t = None; 0 < now\<rbrakk> \<Longrightarrow>
     cstep cc d s (s\<lparr>cs_f := snd (Begin t now ctx (cs_f s))\<rparr>)"
| op_step:
    "\<lbrakk>storeOp op; \<forall>t. opTx op = Some t \<longrightarrow> cs_opmu s t = None;
      needsEntity op (cs_f s) \<longrightarrow> cs_entity s = None\<rbrakk> \<Longrightarrow>
     cstep cc d s (s\<lparr>cs_f := exec cc op (cs_f s)\<rparr>)"
| commit_enter_step:
    "\<lbrakk>cs_pc s p = Idle; commit_enter ctx t (cs_f s) = Inr f; d \<longrightarrow> \<not> rollbackPending s t\<rbrakk> \<Longrightarrow>
     cstep cc d s (goto p (CommitEntered ctx t) (s\<lparr>cs_f := f\<rparr>))"
| commit_conflict_step:
    "\<lbrakk>cs_pc s p = CommitEntered ctx t; cs_opmu s t = None; cs_entity s = None;
      sf_txHeap (cs_f s) t = Some tx; commit_check t tx (cs_f s) = (Inl e, f)\<rbrakk> \<Longrightarrow>
     cstep cc d s (goto p Idle (s\<lparr>cs_f := closeTx t f\<rparr>))"
| commit_violation_step:
    "\<lbrakk>cs_pc s p = CommitEntered ctx t; cs_opmu s t = None; cs_entity s = None;
      sf_txHeap (cs_f s) t = Some tx; commit_check t tx (cs_f s) = (Inr cap, f);
      claimsVerdict cc f cap tx = Inl e\<rbrakk> \<Longrightarrow>
     cstep cc d s (goto p Idle (s\<lparr>cs_f := closeTx t (set_tm (forgetTx t) f)\<rparr>))"
| commit_checked_step:
    "\<lbrakk>cs_pc s p = CommitEntered ctx t; cs_opmu s t = None; cs_entity s = None;
      sf_txHeap (cs_f s) t = Some tx; commit_check t tx (cs_f s) = (Inr cap, f);
      claimsVerdict cc f cap tx = Inr computed\<rbrakk> \<Longrightarrow>
     cstep cc d s (goto p (CommitChecked ctx t cap computed)
                     (s\<lparr>cs_f := f, cs_opmu := (cs_opmu s)(t \<mapsto> p), cs_entity := Some p\<rparr>))"
| commit_flush_step:
    "\<lbrakk>cs_pc s p = CommitChecked ctx t cap computed; sf_txHeap (cs_f s) t = Some tx; 0 < now;
      nextSubmitTime now (sf_txManager (cs_f s)) = (st, m)\<rbrakk> \<Longrightarrow>
     cstep cc d s (goto p (CommitFlushed ctx t st)
                     (s\<lparr>cs_f := commit_flush ctx t tx cap computed st ((cs_f s)\<lparr>sf_txManager := m\<rparr>)\<rparr>))"
| commit_record_step:
    "\<lbrakk>cs_pc s p = CommitFlushed ctx t st; sf_txHeap (cs_f s) t = Some tx\<rbrakk> \<Longrightarrow>
     cstep cc d s (goto p Idle
                     (s\<lparr>cs_f := closeTx t (commit_record t tx st now (cs_f s)),
                        cs_opmu := (cs_opmu s)(t := None), cs_entity := None,
                        cs_hist := cs_hist s @ [commitRec_of t tx st]\<rparr>))"
| rollback_enter_step:
    "\<lbrakk>cs_pc s p = Idle; rollback_enter ctx t (cs_f s) = Inr ();
      d \<longrightarrow> t \<notin> set (tm_committing (sf_txManager (cs_f s)))\<rbrakk> \<Longrightarrow>
     cstep cc d s (goto p (RollbackEntered ctx t) s)"
| rollback_step:
    "\<lbrakk>cs_pc s p = RollbackEntered ctx t; cs_opmu s t = None\<rbrakk> \<Longrightarrow>
     cstep cc d s (goto p Idle (s\<lparr>cs_f := rollback_body t (cs_f s)\<rparr>))"

definition cinit :: "cstate \<Rightarrow> bool" where
  "cinit s \<longleftrightarrow>
     s = \<lparr>cs_f = NewStoreFactory, cs_opmu = Map.empty, cs_entity = None, cs_pc = (\<lambda>_. Idle), cs_hist = []\<rparr>"

text \<open>
  The lock discipline: the holder of \<^verbatim>\<open>entityMu\<close> is the goroutine between check and record, and it
  also holds its transaction's \<^verbatim>\<open>OpMu\<close>; the claims it computed are still the verdict on the store.
\<close>

fun pcTx :: "pc \<Rightarrow> txid option" where
  "pcTx (CommitChecked _ t _ _) = Some t"
| "pcTx (CommitFlushed _ t _) = Some t"
| "pcTx _ = None"

fun pcCommit :: "pc \<Rightarrow> txid option" where
  "pcCommit (CommitEntered _ t) = Some t"
| "pcCommit l = pcTx l"

definition verdict_ok :: "compute_claims \<Rightarrow> StoreFactory \<Rightarrow> TransactionState \<Rightarrow> pc \<Rightarrow> bool" where
  "verdict_ok cc f tx l =
     (case l of
        CommitChecked ctx t cap computed \<Rightarrow>
          claimsVerdict cc f cap tx = Inr computed \<and>
          (\<forall>eid sl. cap_superseded cap eid = Some sl \<longrightarrow> (\<forall>x \<in> set (sl_elems sl). entity_id x = eid))
      | _ \<Rightarrow> True)"

definition lock_ok :: "compute_claims \<Rightarrow> cstate \<Rightarrow> bool" where
  "lock_ok cc s =
     (case cs_entity s of
        None \<Rightarrow> cs_opmu s = Map.empty \<and> (\<forall>q. pcTx (cs_pc s q) = None)
      | Some p \<Rightarrow>
          (\<exists>t tx. pcTx (cs_pc s p) = Some t \<and> cs_opmu s = [t \<mapsto> p] \<and> sf_txHeap (cs_f s) t = Some tx \<and>
             (\<forall>q. q \<noteq> p \<longrightarrow> pcTx (cs_pc s q) = None) \<and> verdict_ok cc (cs_f s) tx (cs_pc s p)))"

text \<open>
  The first-committer-wins discipline. An active transaction's baseline covers every commit
  stamped after its snapshot, and such a commit is still in the log; a transaction past the check
  has no overlap with any commit stamped after its snapshot.
\<close>

definition overlaps :: "entityid list \<Rightarrow> TransactionState \<Rightarrow> bool" where
  "overlaps ws tx \<longleftrightarrow> (\<exists>e \<in> set ws. e \<in> set (tx_ReadSet tx) \<or> e \<in> set (tx_WriteSet tx))"

definition logged :: "TransactionManager \<Rightarrow> int \<Rightarrow> commitRec \<Rightarrow> bool" where
  "logged m n c \<longleftrightarrow>
     (\<exists>r \<in> set (tm_committedLog m). n < ct_seq r \<and> ct_submitTime r = ch_submit c \<and> ct_writeSet r = ch_writes c)"

definition active_ok :: "cstate \<Rightarrow> bool" where
  "active_ok s \<longleftrightarrow>
     (\<forall>t \<in> set (tm_active (sf_txManager (cs_f s))). \<exists>tx n.
        sf_txHeap (cs_f s) t = Some tx \<and> 0 < tx_SnapshotTime tx \<and>
        tm_txSnapshotSeq (sf_txManager (cs_f s)) t = Some n \<and> n \<le> tm_commitSeq (sf_txManager (cs_f s)) \<and>
        (\<forall>c \<in> set (cs_hist s). tx_SnapshotTime tx < ch_submit c \<longrightarrow> logged (sf_txManager (cs_f s)) n c))"

definition phase_ok :: "cstate \<Rightarrow> bool" where
  "phase_ok s \<longleftrightarrow>
     (\<forall>p t. pcCommit (cs_pc s p) = Some t \<longrightarrow>
        t \<in> set (tm_active (sf_txManager (cs_f s))) \<and> t \<in> set (tm_committing (sf_txManager (cs_f s)))) \<and>
     (\<forall>p q t. pcCommit (cs_pc s p) = Some t \<and> pcCommit (cs_pc s q) = Some t \<longrightarrow> p = q) \<and>
     (\<forall>p ctx t. cs_pc s p = RollbackEntered ctx t \<longrightarrow> t \<notin> set (tm_committing (sf_txManager (cs_f s)))) \<and>
     (\<forall>p t tx. pcTx (cs_pc s p) = Some t \<and> sf_txHeap (cs_f s) t = Some tx \<longrightarrow>
        (\<forall>c \<in> set (cs_hist s). tx_SnapshotTime tx < ch_submit c \<longrightarrow> \<not> overlaps (ch_writes c) tx)) \<and>
     (\<forall>p ctx t st. cs_pc s p = CommitFlushed ctx t st \<longrightarrow>
        st \<le> floor_of (cs_f s) \<and> (\<forall>c \<in> set (cs_hist s). ch_submit c < st)) \<and>
     (\<forall>c \<in> set (cs_hist s). ch_submit c \<le> floor_of (cs_f s))"

definition hist_fcw :: "commitRec list \<Rightarrow> bool" where
  "hist_fcw h \<longleftrightarrow>
     (\<forall>i j. i < j \<and> j < length h \<longrightarrow>
        ch_submit (h ! i) < ch_submit (h ! j) \<and>
        (ch_snapshot (h ! j) < ch_submit (h ! i) \<longrightarrow>
           set (ch_writes (h ! i)) \<inter> (set (ch_reads (h ! j)) \<union> set (ch_writes (h ! j))) = {}))"

text \<open>The effect of a store operation on the manager and on the transactions.\<close>

definition managerFrame where
  "managerFrame m =
     (tm_active m, tm_committing m, tm_committedLog m, tm_commitSeq m, tm_txSnapshotSeq m, tm_submitTimes m)"

text \<open>
  A store operation is a quiet step: it keeps the manager's bookkeeping, touches at most the
  buffers of the transaction it runs in, and appends at most rows stamped above the floor.
\<close>

definition quiet :: "txid option \<Rightarrow> StoreFactory \<Rightarrow> StoreFactory \<Rightarrow> bool" where
  "quiet ot f g \<longleftrightarrow>
     managerFrame (sf_txManager g) = managerFrame (sf_txManager f) \<and> floor_of f \<le> floor_of g \<and>
     (\<forall>t. map_option txFrame (sf_txHeap g t) = map_option txFrame (sf_txHeap f t)) \<and>
     (\<forall>t. ot \<noteq> Some t \<longrightarrow> sf_txHeap g t = sf_txHeap f t) \<and>
     (\<exists>st. floor_of f < st \<and> appended st f g)"

definition store_ok :: "compute_claims \<Rightarrow> cstate \<Rightarrow> bool" where
  "store_ok cc s \<longleftrightarrow> mem_inv (cs_f s) \<and> lock_ok cc s"

definition fcw_ok :: "cstate \<Rightarrow> bool" where
  "fcw_ok s \<longleftrightarrow> active_ok s \<and> phase_ok s \<and> hist_fcw (cs_hist s)"

text \<open>
  A scheduler for concrete runs: \<open>cexec\<close> is the step that an action of one goroutine takes, \<open>None\<close>
  when a lock keeps it out.
\<close>

datatype cact =
    ABegin time Ctx txid
  | AOp memop
  | AEnter goroutine Ctx txid
  | ACheck goroutine
  | AFlush goroutine time
  | ARecord goroutine time
  | ARollbackEnter goroutine Ctx txid
  | ARollback goroutine

fun cexec :: "compute_claims \<Rightarrow> cact \<Rightarrow> cstate \<Rightarrow> cstate option" where
  "cexec cc (ABegin now ctx t) s =
     (if sf_txHeap (cs_f s) t = None \<and> 0 < now
      then Some (s\<lparr>cs_f := snd (Begin t now ctx (cs_f s))\<rparr>) else None)"
| "cexec cc (AOp op) s =
     (if storeOp op \<and> (case opTx op of None \<Rightarrow> True | Some t \<Rightarrow> cs_opmu s t = None) \<and>
         (needsEntity op (cs_f s) \<longrightarrow> cs_entity s = None)
      then Some (s\<lparr>cs_f := exec cc op (cs_f s)\<rparr>) else None)"
| "cexec cc (AEnter p ctx t) s =
     (case (cs_pc s p, commit_enter ctx t (cs_f s)) of
        (Idle, Inr f) \<Rightarrow> Some (goto p (CommitEntered ctx t) (s\<lparr>cs_f := f\<rparr>))
      | _ \<Rightarrow> None)"
| "cexec cc (ACheck p) s =
     (case cs_pc s p of
        CommitEntered ctx t \<Rightarrow>
          (case sf_txHeap (cs_f s) t of
             None \<Rightarrow> None
           | Some tx \<Rightarrow>
               if cs_opmu s t \<noteq> None \<or> cs_entity s \<noteq> None then None
               else (case commit_check t tx (cs_f s) of
                       (Inl e, f) \<Rightarrow> Some (goto p Idle (s\<lparr>cs_f := closeTx t f\<rparr>))
                     | (Inr cap, f) \<Rightarrow>
                         (case claimsVerdict cc f cap tx of
                            Inl e \<Rightarrow> Some (goto p Idle (s\<lparr>cs_f := closeTx t (set_tm (forgetTx t) f)\<rparr>))
                          | Inr computed \<Rightarrow>
                              Some (goto p (CommitChecked ctx t cap computed)
                                (s\<lparr>cs_f := f, cs_opmu := (cs_opmu s)(t \<mapsto> p), cs_entity := Some p\<rparr>)))))
      | _ \<Rightarrow> None)"
| "cexec cc (AFlush p now) s =
     (case cs_pc s p of
        CommitChecked ctx t cap computed \<Rightarrow>
          (case sf_txHeap (cs_f s) t of
             None \<Rightarrow> None
           | Some tx \<Rightarrow>
               if 0 < now
               then (case nextSubmitTime now (sf_txManager (cs_f s)) of (st, m) \<Rightarrow>
                       Some (goto p (CommitFlushed ctx t st)
                         (s\<lparr>cs_f := commit_flush ctx t tx cap computed st ((cs_f s)\<lparr>sf_txManager := m\<rparr>)\<rparr>)))
               else None)
      | _ \<Rightarrow> None)"
| "cexec cc (ARecord p now) s =
     (case cs_pc s p of
        CommitFlushed ctx t st \<Rightarrow>
          (case sf_txHeap (cs_f s) t of
             None \<Rightarrow> None
           | Some tx \<Rightarrow>
               Some (goto p Idle
                 (s\<lparr>cs_f := closeTx t (commit_record t tx st now (cs_f s)),
                    cs_opmu := (cs_opmu s)(t := None), cs_entity := None,
                    cs_hist := cs_hist s @ [commitRec_of t tx st]\<rparr>)))
      | _ \<Rightarrow> None)"
| "cexec cc (ARollbackEnter p ctx t) s =
     (case (cs_pc s p, rollback_enter ctx t (cs_f s)) of
        (Idle, Inr ()) \<Rightarrow> Some (goto p (RollbackEntered ctx t) s)
      | _ \<Rightarrow> None)"
| "cexec cc (ARollback p) s =
     (case cs_pc s p of
        RollbackEntered ctx t \<Rightarrow>
          if cs_opmu s t = None then Some (goto p Idle (s\<lparr>cs_f := rollback_body t (cs_f s)\<rparr>)) else None
      | _ \<Rightarrow> None)"

fun crun :: "compute_claims \<Rightarrow> cact list \<Rightarrow> cstate \<Rightarrow> cstate option" where
  "crun cc [] s = Some s"
| "crun cc (a # as) s = (case cexec cc a s of None \<Rightarrow> None | Some s1 \<Rightarrow> crun cc as s1)"

fun isRollback :: "cact \<Rightarrow> bool" where
  "isRollback (ARollbackEnter _ _ _) = True"
| "isRollback (ARollback _) = True"
| "isRollback _ = False"

definition cstart :: cstate where
  "cstart = \<lparr>cs_f = NewStoreFactory, cs_opmu = Map.empty, cs_entity = None, cs_pc = (\<lambda>_. Idle), cs_hist = []\<rparr>"

text \<open>Two transactions that overlap in time and write different entities, and the two racing calls.\<close>

definition twoWriters :: "cact list" where
  "twoWriters =
     [ABegin 5 (ctxOf ''t'' None) ''x'', ABegin 6 (ctxOf ''t'' None) ''y'',
      AOp (OpSave 0 (ctxOf ''t'' (Some ''x'')) ''t'' (mkEntity ''d'' '''' ''A'' ''1'')),
      AOp (OpSave 0 (ctxOf ''t'' (Some ''y'')) ''t'' (mkEntity ''e'' '''' ''A'' ''2'')),
      AEnter 0 (ctxOf ''t'' None) ''x'', AEnter 1 (ctxOf ''t'' None) ''y'',
      ACheck 1, AFlush 1 20, ARecord 1 21, ACheck 0, AFlush 0 30, ARecord 0 31]"

definition rollbackRace :: "cact list" where
  "rollbackRace =
     [ABegin 5 (ctxOf ''t'' None) ''x'',
      AOp (OpSave 0 (ctxOf ''t'' (Some ''x'')) ''t'' (mkEntity ''d'' '''' ''A'' ''1'')),
      AEnter 0 (ctxOf ''t'' None) ''x'', ARollbackEnter 1 (ctxOf ''t'' None) ''x'', ARollback 1,
      ACheck 0, AFlush 0 20, ARecord 0 21]"

lemma managerFrame_simps [simp]:
  "managerFrame (recordUniqueKeys t e ks m) = managerFrame m"
  "managerFrame (stageSuperseded t e pr m) = managerFrame m"
  "managerFrame (m\<lparr>tm_lastSubmitTime := x\<rparr>) = managerFrame m"
  "managerFrame (m\<lparr>tm_savepoints := y\<rparr>) = managerFrame m"
  "managerFrame (m\<lparr>tm_scheduledTaskOps := z\<rparr>) = managerFrame m"
  "managerFrame (m\<lparr>tm_supersededSaves := w\<rparr>) = managerFrame m"
  by (simp_all add: managerFrame_def recordUniqueKeys_def stageSuperseded_def split: option.split)

lemma GetTransaction_heap: "GetTransaction f ctx = Some tx \<Longrightarrow> \<exists>t. c_Tx ctx = Some t \<and> sf_txHeap f t = Some tx"
  by (auto simp: GetTransaction_def split: option.splits)

lemma saveUnlocked_frame:
  "managerFrame (sf_txManager (snd (saveUnlocked cc clock ctx tid e f))) = managerFrame (sf_txManager f)"
  "sf_txHeap (snd (saveUnlocked cc clock ctx tid e f)) = sf_txHeap f"
  "floor_of f \<le> floor_of (snd (saveUnlocked cc clock ctx tid e f))"
  "\<exists>st. floor_of f < st \<and> appended st f (snd (saveUnlocked cc clock ctx tid e f))"
proof -
  have "managerFrame (sf_txManager g) = managerFrame (sf_txManager f) \<and> sf_txHeap g = sf_txHeap f \<and>
        floor_of f \<le> floor_of g \<and> (\<exists>st. floor_of f < st \<and> appended st f g)"
    if "g = snd (saveUnlocked cc clock ctx tid e f)" for g
  proof (cases rule: saveUnlocked_cases [of cc clock ctx tid e f])
    case (fail err)
    then show ?thesis using that by (auto intro!: exI [of _ "floor_of f + 1"] appended_same)
  next
    case (panic err t m)
    then show ?thesis using that nextSubmitTime_eq [OF panic(1)]
      by (auto intro!: exI [of _ "floor_of f + 1"] appended_same)
  next
    case (ok cs n t m cd)
    let ?rows = "[savedRow tid e n t cd (versions_of f tid (entity_id e) \<noteq> [])]"
    have "appended t f (set_versions tid (entity_id e) (versions_of f tid (entity_id e) @ ?rows) f)"
      by (rule appended_set_versions) (simp add: row_ok_savedRow)
    then have "appended t f g"
      by (rule appended_cong) (simp add: that ok(6) set_versions_def)
    then show ?thesis using that ok(6) nextSubmitTime_eq [OF ok(4)] by auto
  qed
  then show "managerFrame (sf_txManager (snd (saveUnlocked cc clock ctx tid e f))) = managerFrame (sf_txManager f)"
    "sf_txHeap (snd (saveUnlocked cc clock ctx tid e f)) = sf_txHeap f"
    "floor_of f \<le> floor_of (snd (saveUnlocked cc clock ctx tid e f))"
    "\<exists>st. floor_of f < st \<and> appended st f (snd (saveUnlocked cc clock ctx tid e f))"
    by blast+
qed

lemma quiet_refl: "quiet ot f f"
  by (auto simp: quiet_def intro!: exI [of _ "floor_of f + 1"] appended_same)

lemma quiet_set_tx:
  assumes "sf_txHeap f t = Some tx" "txFrame tx' = txFrame tx"
  shows "quiet (Some t) f (set_tx t tx' f)"
  using assms by (auto simp: quiet_def intro!: exI [of _ "floor_of f + 1"] appended_same)

lemma quiet_set_tm:
  assumes "quiet ot f g" "managerFrame (h (sf_txManager g)) = managerFrame (sf_txManager g)"
    and "tm_lastSubmitTime (h (sf_txManager g)) = floor_of g"
  shows "quiet ot f (set_tm h g)"
  using assms by (simp add: quiet_def appended_def)

lemma quiet_manager:
  assumes "quiet ot f g" "managerFrame m = managerFrame (sf_txManager g)" "tm_lastSubmitTime m = floor_of g"
  shows "quiet ot f (g\<lparr>sf_txManager := m\<rparr>)"
  using quiet_set_tm [OF assms(1), of "\<lambda>_. m"] assms(2,3) by (simp add: set_tm_def)

lemma quiet_saveUnlocked: "quiet ot f (snd (saveUnlocked cc clock ctx tid e f))"
  using saveUnlocked_frame(3,4) [of f cc clock ctx tid e] by (simp add: quiet_def saveUnlocked_frame(1,2))

lemma staging_floor [simp]:
  "tm_lastSubmitTime (recordUniqueKeys t e ks m) = tm_lastSubmitTime m"
  "tm_lastSubmitTime (stageSuperseded t e pr m) = tm_lastSubmitTime m"
  by (simp_all add: recordUniqueKeys_def stageSuperseded_def split: option.split)

lemma quiet_stageWrite:
  assumes "sf_txHeap f t = Some tx" "txFrame tx' = txFrame tx"
  shows "quiet (Some t) f (set_tx t tx' (stageWrite ctx t tx e f))"
  unfolding stageWrite_set_tx by (rule quiet_set_tm [OF quiet_set_tx [OF assms]]) simp_all

lemma stageWrite_idem: "stageWrite ctx t tx e f = set_tx t (bufferWrite tx e) (stageWrite ctx t tx e f)"
  by (simp add: stageWrite_def set_tx_def set_tm_def Let_def)

lemma quiet_stamped:
  assumes "nextSubmitTime clock (sf_txManager f) = (t, m)" "appended t (f\<lparr>sf_txManager := m\<rparr>) g"
    and "sf_txManager g = m" "sf_txHeap g = sf_txHeap f"
  shows "quiet ot f g"
proof -
  have "appended t f g" using assms(2) by (rule appended_cong_left) simp
  then show ?thesis using nextSubmitTime_eq [OF assms(1)] assms(3,4) by (auto simp: quiet_def)
qed

lemma quiet_Delete:
  assumes "mem_inv f" shows "quiet (c_Tx ctx) f (snd (EntityStore_Delete clock ctx tid eid f))"
proof (cases "GetTransaction f ctx")
  case (Some tx)
  then obtain t where t: "c_Tx ctx = Some t" "sf_txHeap f t = Some tx" using GetTransaction_heap by blast
  have "quiet (Some t) f (set_tx t (stageDelete a eid tx) f)" for a by (rule quiet_set_tx [OF t(2)]) simp
  then show ?thesis using Some t(1) by (simp add: EntityStore_Delete_def quiet_refl split: sum.split)
next
  case None
  obtain t m where n: "nextSubmitTime clock (sf_txManager f) = (t, m)" by fastforce
  let ?f1 = "f\<lparr>sf_txManager := m\<rparr>"
  have f1: "mem_inv ?f1" using mem_inv_manager [OF assms] nextSubmitTime_eq [OF n] by simp
  have vs: "versions_of f tid eid = versions_of ?f1 tid eid" by (simp add: versions_of_def)
  note s = tombstone_step [OF mem_inv_D(2) [OF f1] hist_ok_keys [OF mem_inv_D(1) [OF f1]] vs]
  have "quiet (c_Tx ctx) f (releaseClaims tid eid (set_versions tid eid
      (versions_of f tid eid @ [tombstoneRow '''' t k a]) ?f1))" for k a
    by (rule quiet_stamped [OF n s(1)]) simp_all
  moreover have "quiet (c_Tx ctx) f ?f1" by (rule quiet_stamped [OF n appended_same]) simp_all
  ultimately show ?thesis
    using None n by (simp add: EntityStore_Delete_def Let_def quiet_refl split: option.split)
qed

lemma quiet_DeleteAll:
  assumes "mem_inv f" shows "quiet (c_Tx ctx) f (snd (EntityStore_DeleteAll clock ctx tid ref f))"
proof (cases "GetTransaction f ctx")
  case (Some tx)
  then obtain t where t: "c_Tx ctx = Some t" "sf_txHeap f t = Some tx" using GetTransaction_heap by blast
  have "quiet (Some t) f (set_tx t (fold (stageDelete a) ys (fold (\<lambda>e. stageDelete a (entity_id e)) xs tx)) f)"
    for a xs ys
    by (rule quiet_set_tx [OF t(2)]) (simp add: fold_frame [where sel = txFrame])
  then show ?thesis
    using Some t(1) by (simp add: EntityStore_DeleteAll_def Let_def quiet_refl split: sum.split)
next
  case None
  obtain t m where n: "nextSubmitTime clock (sf_txManager f) = (t, m)" by fastforce
  let ?f1 = "f\<lparr>sf_txManager := m\<rparr>"
  have f1: "mem_inv ?f1" using mem_inv_manager [OF assms] nextSubmitTime_eq [OF n] by simp
  have ky: "keys_ok ?f1" using mem_inv_D(1) [OF f1] by (rule hist_ok_keys)
  obtain r g where l: "deleteAllLoop t (c_Attribution ctx) tid ref (sf_entityData f tid) ?f1 = (r, g)" by fastforce
  have "appended t ?f1 g \<and> claims_ok g \<and> keys_ok g \<and> sf_txManager g = sf_txManager ?f1 \<and> sf_txHeap g = sf_txHeap ?f1"
    by (rule deleteAllLoop_step [OF l mem_inv_D(2) [OF f1] ky])
       (use ky versions_of_entry [OF ky, of _ tid] in \<open>auto simp: keys_ok_def\<close>)
  then have "quiet (c_Tx ctx) f g" by (intro quiet_stamped [OF n]) simp_all
  then show ?thesis using None n l by (simp add: EntityStore_DeleteAll_def)
qed

lemma quiet_Save: "quiet (c_Tx ctx) f (snd (EntityStore_Save cc clock ctx tid e f))"
proof (cases "GetTransaction f ctx")
  case (Some tx)
  then obtain t where t: "c_Tx ctx = Some t" "sf_txHeap f t = Some tx" using GetTransaction_heap by blast
  have "quiet (Some t) f (set_tx t (unstageDelete (entity_id e) (bufferWrite tx e)) (stageWrite ctx t tx e f))"
    by (rule quiet_stageWrite [OF t(2)]) simp
  then show ?thesis using Some t(1) by (simp add: EntityStore_Save_def Let_def quiet_refl split: sum.split)
qed (simp add: EntityStore_Save_def quiet_saveUnlocked)

lemma quiet_CompareAndSave: "quiet (c_Tx ctx) f (snd (EntityStore_CompareAndSave cc clock ctx tid e x f))"
proof (cases "GetTransaction f ctx")
  case (Some tx)
  then obtain t where t: "c_Tx ctx = Some t" "sf_txHeap f t = Some tx" using GetTransaction_heap by blast
  have "quiet (Some t) f (stageWrite ctx t tx e f)"
    by (subst stageWrite_idem, rule quiet_stageWrite [OF t(2)]) simp
  then show ?thesis using Some t(1)
    by (simp add: EntityStore_CompareAndSave_def quiet_refl split: sum.split option.split)
qed (simp add: EntityStore_CompareAndSave_def quiet_saveUnlocked quiet_refl)

lemma quiet_reads:
  "quiet (c_Tx ctx) f (snd (EntityStore_Get ctx tid eid f))"
  "quiet (c_Tx ctx) f (snd (EntityStore_GetAsAt ctx tid eid at f))"
proof -
  have "quiet (c_Tx ctx) f (set_tx (the (c_Tx ctx)) (addRead eid tx) f)" if "GetTransaction f ctx = Some tx" for tx
    using GetTransaction_heap [OF that] by (auto intro!: quiet_set_tx)
  then show "quiet (c_Tx ctx) f (snd (EntityStore_Get ctx tid eid f))"
    "quiet (c_Tx ctx) f (snd (EntityStore_GetAsAt ctx tid eid at f))"
    by (auto simp: EntityStore_Get_def EntityStore_GetAsAt_def Let_def quiet_refl split: option.split sum.split)
qed

lemma quiet_GetPage:
  "quiet (if asAt = None then c_Tx ctx else None) f (snd (EntityStore_GetPage ctx tid ref limit offset asAt f))"
proof -
  have "quiet (c_Tx ctx) f (set_tx (the (c_Tx ctx)) (fold (\<lambda>e. addRead (entity_id e)) page tx) f)"
    if g: "GetTransaction f ctx = Some tx" for tx page
  proof -
    obtain t where t: "c_Tx ctx = Some t" "sf_txHeap f t = Some tx" using GetTransaction_heap [OF g] by blast
    show ?thesis unfolding t(1) option.sel
      by (rule quiet_set_tx [OF t(2)]) (simp add: fold_frame [where sel = txFrame])
  qed
  then show ?thesis
    by (auto simp: EntityStore_GetPage_def quiet_refl split: option.split sum.split)
qed

lemma quiet_savepoints:
  "quiet (Some t) f (snd (Savepoint sp ctx t f))"
  "quiet ot f (snd (ReleaseSavepoint ctx t sp f))"
  "quiet (Some t) f (snd (RollbackToSavepoint ctx t sp f))"
proof -
  show "quiet (Some t) f (snd (Savepoint sp ctx t f))"
    by (auto simp: Savepoint_def quiet_refl split: sum.split intro: quiet_set_tm)
  show "quiet ot f (snd (ReleaseSavepoint ctx t sp f))"
    by (auto simp: ReleaseSavepoint_def quiet_refl split: sum.split option.split intro: quiet_set_tm)
  have "quiet (Some t) f (set_tx t (restoreTx snap tx) f)" if "activeForTenant ctx t f = Inr tx" for tx snap
    using activeForTenant_heap [OF that] by (rule quiet_set_tx) simp
  then show "quiet (Some t) f (snd (RollbackToSavepoint ctx t sp f))"
    by (auto simp: RollbackToSavepoint_def Let_def quiet_refl split: sum.split option.split prod.split
        intro!: quiet_manager)
qed

lemma quiet_exec:
  assumes "mem_inv f" "storeOp op" shows "quiet (opTx op) f (exec cc op f)"
  using assms(2) by (cases op) (simp_all add: quiet_savepoints quiet_Save quiet_CompareAndSave quiet_reads
      quiet_GetPage [of None, simplified] quiet_GetPage quiet_Delete quiet_DeleteAll assms(1)
      del: not_None_eq)

text \<open>Locks and committed data, for every run.\<close>

lemma exec_uniqueClaims:
  assumes "storeOp op" "\<not> needsEntity op f"
  shows "sf_uniqueClaims (exec cc op f) = sf_uniqueClaims f"
  using assms
  by (cases op)
     (auto simp: Savepoint_def ReleaseSavepoint_def RollbackToSavepoint_def EntityStore_Save_def
       EntityStore_CompareAndSave_def EntityStore_Get_def EntityStore_Delete_def stageWrite_def
       inBufferView_def Let_def split: option.splits sum.splits prod.splits)

lemma lock_ok_D:
  assumes "lock_ok cc s"
  shows "pcTx (cs_pc s p) = Some t \<Longrightarrow> cs_entity s = Some p \<and> cs_opmu s = [t \<mapsto> p]"
    "pcTx (cs_pc s p) = Some t \<Longrightarrow> sf_txHeap (cs_f s) t = Some tx \<Longrightarrow> verdict_ok cc (cs_f s) tx (cs_pc s p)"
    "pcTx (cs_pc s p) = Some t \<Longrightarrow> sf_txHeap (cs_f s) t \<noteq> None"
  using assms by (auto simp: lock_ok_def split: option.splits) (metis option.inject option.distinct(1))+

lemma lock_ok_f:
  assumes "lock_ok cc s" "\<And>p t. pcTx (cs_pc s p) = Some t \<Longrightarrow> sf_txHeap f t = sf_txHeap (cs_f s) t"
    and "\<And>p. cs_entity s = Some p \<Longrightarrow> sf_uniqueClaims f = sf_uniqueClaims (cs_f s)"
  shows "lock_ok cc (s\<lparr>cs_f := f\<rparr>)"
proof (cases "cs_entity s")
  case None
  then show ?thesis using assms(1) by (simp add: lock_ok_def)
next
  case (Some p)
  have "verdict_ok cc f tx l = verdict_ok cc (cs_f s) tx l" for tx l
    using assms(3) [OF Some] by (simp add: verdict_ok_def claimsVerdict_def split: pc.split)
  then show ?thesis using assms(1,2) Some by (auto simp: lock_ok_def)
qed

lemma lock_ok_goto:
  assumes "lock_ok cc s" "pcTx (cs_pc s p) = None" "pcTx l = None"
  shows "lock_ok cc (goto p l s)"
proof (cases "cs_entity s")
  case None
  then show ?thesis using assms by (simp add: lock_ok_def goto_def)
next
  case (Some q)
  then have "q \<noteq> p" using assms(1,2) by (auto simp: lock_ok_def)
  then show ?thesis using assms Some by (auto simp: lock_ok_def goto_def)
qed

lemma lock_ok_free:
  assumes "lock_ok cc s" "cs_opmu s t = None" "pcTx (cs_pc s p) = Some t'" shows "t' \<noteq> t"
  using lock_ok_D(1) [OF assms(1,3)] assms(2) by auto

lemma lock_ok_others:
  assumes "lock_ok cc s" "pcTx (cs_pc s p) = Some t" "q \<noteq> p" shows "pcTx (cs_pc s q) = None"
  using lock_ok_D(1) [OF assms(1,2)] lock_ok_D(1) [OF assms(1), of q] assms(3) by (cases "pcTx (cs_pc s q)") auto

lemma closeTx_other [simp]: "t' \<noteq> t \<Longrightarrow> sf_txHeap (closeTx t f) t' = sf_txHeap f t'"
  by (simp add: closeTx_def)

lemma closeTx_frame [simp]:
  "sf_uniqueClaims (closeTx t f) = sf_uniqueClaims f" "sf_entityData (closeTx t f) = sf_entityData f"
  "sf_txManager (closeTx t f) = sf_txManager f"
  by (simp_all add: closeTx_def)

lemma rollback_body_frame [simp]:
  "t' \<noteq> t \<Longrightarrow> sf_txHeap (rollback_body t f) t' = sf_txHeap f t'"
  "sf_uniqueClaims (rollback_body t f) = sf_uniqueClaims f"
  "sf_entityData (rollback_body t f) = sf_entityData f"
  "sf_txManager (rollback_body t f) = forgetTx t (sf_txManager f)"
  by (simp_all add: rollback_body_def markRolledBack_def)

lemma Begin_frame:
  "t' \<noteq> t \<Longrightarrow> sf_txHeap (snd (Begin t now ctx f)) t' = sf_txHeap f t'"
  "sf_uniqueClaims (snd (Begin t now ctx f)) = sf_uniqueClaims f"
  "sf_entityData (snd (Begin t now ctx f)) = sf_entityData f"
  by (auto simp: Begin_def Let_def split: option.split prod.split)

lemma commit_enter_frame:
  assumes "commit_enter ctx t f = Inr g"
  shows "g = set_tm (\<lambda>m. m\<lparr>tm_committing := t # tm_committing m\<rparr>) f" "t \<in> set (tm_active (sf_txManager f))"
    "t \<notin> set (tm_committing (sf_txManager f))" "\<exists>tx. sf_txHeap f t = Some tx"
  using assms by (auto simp: commit_enter_def active_tx_def split: option.splits if_splits)

lemma store_ok_checked:
  assumes "store_ok cc s" "cs_pc s p = CommitEntered ctx t" "cs_opmu s t = None" "cs_entity s = None"
    and "sf_txHeap (cs_f s) t = Some tx" "commit_check t tx (cs_f s) = (Inr cap, f)"
    and "claimsVerdict cc f cap tx = Inr computed"
  shows "store_ok cc (goto p (CommitChecked ctx t cap computed)
           (s\<lparr>cs_f := f, cs_opmu := (cs_opmu s)(t \<mapsto> p), cs_entity := Some p\<rparr>))"
proof -
  have f: "f = cs_f s" using commit_check_state [OF assms(6)] by simp
  have inv: "mem_inv (cs_f s)" and lk: "lock_ok cc s" using assms(1) by (auto simp: store_ok_def)
  have idle: "pcTx (cs_pc s q) = None" "cs_opmu s = Map.empty" for q
    using lk assms(4) by (simp_all add: lock_ok_def)
  have "verdict_ok cc f tx (CommitChecked ctx t cap computed)"
    using cap_superseded_ok [OF inv assms(6)] assms(7) by (simp add: verdict_ok_def)
  then show ?thesis
    using inv assms(5) idle f by (simp add: store_ok_def lock_ok_def goto_def)
qed

lemma store_ok_flush:
  assumes "store_ok cc s" "cs_pc s p = CommitChecked ctx t cap computed" "sf_txHeap (cs_f s) t = Some tx"
    and n: "nextSubmitTime now (sf_txManager (cs_f s)) = (st, m)"
  shows "store_ok cc (goto p (CommitFlushed ctx t st)
           (s\<lparr>cs_f := commit_flush ctx t tx cap computed st ((cs_f s)\<lparr>sf_txManager := m\<rparr>)\<rparr>))"
    and "appended st (cs_f s) (commit_flush ctx t tx cap computed st ((cs_f s)\<lparr>sf_txManager := m\<rparr>))"
proof -
  have inv: "mem_inv (cs_f s)" and lk: "lock_ok cc s" using assms(1) by (auto simp: store_ok_def)
  have p: "pcTx (cs_pc s p) = Some t" by (simp add: assms(2))
  have v: "verdict_ok cc (cs_f s) tx (CommitChecked ctx t cap computed)"
    using lock_ok_D(2) [OF lk p assms(3)] assms(2) by simp
  have tx: "tx_ok t tx" using mem_inv_D(3) [OF inv assms(3)] by simp
  have fl: "mem_inv (commit_flush ctx t tx cap computed st ((cs_f s)\<lparr>sf_txManager := m\<rparr>))"
    "appended st (cs_f s) (commit_flush ctx t tx cap computed st ((cs_f s)\<lparr>sf_txManager := m\<rparr>))"
    using v by (auto simp: verdict_ok_def claimsVerdict_def intro!: mem_inv_flush [OF inv tx _ _ n])
  then show "appended st (cs_f s) (commit_flush ctx t tx cap computed st ((cs_f s)\<lparr>sf_txManager := m\<rparr>))" by simp
  have l: "cs_entity s = Some p" "cs_opmu s = [t \<mapsto> p]" using lock_ok_D(1) [OF lk p] by simp_all
  moreover have "pcTx (cs_pc s q) = None" if "q \<noteq> p" for q using lock_ok_others [OF lk p that] .
  ultimately show "store_ok cc (goto p (CommitFlushed ctx t st)
           (s\<lparr>cs_f := commit_flush ctx t tx cap computed st ((cs_f s)\<lparr>sf_txManager := m\<rparr>)\<rparr>))"
    using fl(1) l assms(3) by (simp add: store_ok_def lock_ok_def goto_def verdict_ok_def)
qed

lemma store_ok_quietish:
  assumes "store_ok cc s" "mem_inv f" "pcTx (cs_pc s p) = None" "pcTx l = None"
    and "\<And>q t. pcTx (cs_pc s q) = Some t \<Longrightarrow> sf_txHeap f t = sf_txHeap (cs_f s) t"
    and "\<And>q. cs_entity s = Some q \<Longrightarrow> sf_uniqueClaims f = sf_uniqueClaims (cs_f s)"
  shows "store_ok cc (goto p l (s\<lparr>cs_f := f\<rparr>))"
proof -
  have "lock_ok cc (s\<lparr>cs_f := f\<rparr>)" using assms(1,5,6) by (intro lock_ok_f) (auto simp: store_ok_def)
  then have "lock_ok cc (goto p l (s\<lparr>cs_f := f\<rparr>))" using assms(3,4) by (intro lock_ok_goto) auto
  then show ?thesis using assms(2) by (simp add: store_ok_def) (simp add: goto_def)
qed

lemma goto_self: "goto p (cs_pc s p) s = s"
  by (simp add: goto_def)

lemma store_ok_record:
  assumes "store_ok cc s" "cs_pc s p = CommitFlushed ctx t st" "sf_txHeap (cs_f s) t = Some tx"
  shows "store_ok cc (goto p Idle (s\<lparr>cs_f := closeTx t (commit_record t tx st now (cs_f s)),
                        cs_opmu := (cs_opmu s)(t := None), cs_entity := None,
                        cs_hist := cs_hist s @ [commitRec_of t tx st]\<rparr>))"
proof -
  have lk: "lock_ok cc s" and inv: "mem_inv (cs_f s)" using assms(1) by (auto simp: store_ok_def)
  have p: "pcTx (cs_pc s p) = Some t" by (simp add: assms(2))
  have "cs_opmu s = [t \<mapsto> p]" "\<And>q. q \<noteq> p \<Longrightarrow> pcTx (cs_pc s q) = None"
    using lock_ok_D(1) [OF lk p] lock_ok_others [OF lk p] by blast+
  then show ?thesis
    using inv by (simp add: store_ok_def lock_ok_def goto_def mem_inv_closeTx mem_inv_commit_record)
qed

lemma mem_inv_rollback_body: "mem_inv f \<Longrightarrow> mem_inv (rollback_body t f)"
  by (simp add: rollback_body_def mem_inv_closeTx mem_inv_forget mem_inv_markRolledBack)

lemma store_ok_step:
  assumes "cstep cc d s s'" "store_ok cc s" shows "store_ok cc s'"
  using assms(1)
proof (cases rule: cstep.cases)
  case (begin_step t now ctx)
  have inv: "mem_inv (cs_f s)" and lk: "lock_ok cc s" using assms(2) by (auto simp: store_ok_def)
  have "t' \<noteq> t" if "pcTx (cs_pc s q) = Some t'" for q t'
    using lock_ok_D(3) [OF lk that] begin_step(2) by auto
  then have "lock_ok cc s'" unfolding begin_step(1) by (intro lock_ok_f [OF lk]) (auto simp: Begin_frame)
  then show ?thesis using begin_step(1) inv by (simp add: store_ok_def mem_inv_Begin)
next
  case (op_step op)
  have inv: "mem_inv (cs_f s)" and lk: "lock_ok cc s" using assms(2) by (auto simp: store_ok_def)
  note q = quiet_exec [OF inv op_step(2), of cc]
  have "opTx op \<noteq> Some t" if "pcTx (cs_pc s p) = Some t" for p t
    using lock_ok_D(1) [OF lk that] op_step(3) by auto
  moreover have "sf_uniqueClaims (exec cc op (cs_f s)) = sf_uniqueClaims (cs_f s)" if "cs_entity s = Some p" for p
    using op_step(2,4) that by (auto intro!: exec_uniqueClaims)
  ultimately have "lock_ok cc s'"
    unfolding op_step(1) using q by (intro lock_ok_f [OF lk]) (auto simp: quiet_def)
  then show ?thesis using op_step(1) inv by (simp add: store_ok_def mem_inv_exec)
next
  case (commit_enter_step p ctx t f)
  show ?thesis unfolding commit_enter_step(1)
    using commit_enter_step(2) commit_enter_frame(1) [OF commit_enter_step(3)]
      mem_inv_commit_enter [OF _ commit_enter_step(3)] assms(2)
    by (intro store_ok_quietish [OF assms(2)]) (auto simp: store_ok_def)
next
  case (commit_conflict_step p ctx t tx e f)
  then have f: "f = set_tm (forgetTx t) (cs_f s)" using commit_check_state by fastforce
  show ?thesis unfolding commit_conflict_step(1)
    using assms(2) commit_conflict_step(2-4) f lock_ok_free [of cc s t]
    by (intro store_ok_quietish [OF assms(2)])
       (auto simp: store_ok_def mem_inv_closeTx mem_inv_forget)
next
  case (commit_violation_step p ctx t tx cap f e)
  then have f: "f = cs_f s" using commit_check_state by fastforce
  show ?thesis unfolding commit_violation_step(1)
    using assms(2) commit_violation_step(2-4) f lock_ok_free [of cc s t]
    by (intro store_ok_quietish [OF assms(2)])
       (auto simp: store_ok_def mem_inv_closeTx mem_inv_forget)
next
  case (commit_checked_step p ctx t tx cap f computed)
  then show ?thesis using store_ok_checked [OF assms(2)] by simp
next
  case (commit_flush_step p ctx t cap computed tx now st m)
  then show ?thesis using store_ok_flush(1) [OF assms(2)] by simp
next
  case (commit_record_step p ctx t st tx now)
  then show ?thesis using store_ok_record [OF assms(2)] by simp
next
  case (rollback_enter_step p ctx t)
  have "store_ok cc (goto p (RollbackEntered ctx t) (s\<lparr>cs_f := cs_f s\<rparr>))"
    using assms(2) rollback_enter_step(2) by (intro store_ok_quietish [OF assms(2)]) (auto simp: store_ok_def)
  then show ?thesis using rollback_enter_step(1) by simp
next
  case (rollback_step p ctx t)
  show ?thesis unfolding rollback_step(1)
    using assms(2) rollback_step(2,3) lock_ok_free [of cc s t]
    by (intro store_ok_quietish [OF assms(2)])
       (auto simp: store_ok_def mem_inv_rollback_body)
qed

text \<open>The concurrent model as a transition system.\<close>

interpretation cs: transition_system cinit "cstep cc d" for cc d .

lemma store_ok_reachable: "cs.reachable cc d s \<Longrightarrow> store_ok cc s"
proof (rule cs.invariant_holds)
  show "cinit s \<Longrightarrow> store_ok cc s" for s
    by (simp add: cinit_def store_ok_def mem_inv_new lock_ok_def)
  show "store_ok cc s \<Longrightarrow> cstep cc d s t \<Longrightarrow> store_ok cc t" for s t by (rule store_ok_step)
qed

lemma step_appends:
  assumes "cstep cc d s s'" "store_ok cc s"
  shows "(\<exists>st. floor_of (cs_f s) < st \<and> appended st (cs_f s) (cs_f s')) \<and> floor_of (cs_f s) \<le> floor_of (cs_f s')"
  using assms(1)
proof (cases rule: cstep.cases)
  case (op_step op)
  then show ?thesis using quiet_exec [of "cs_f s" op cc] assms(2) by (auto simp: quiet_def store_ok_def)
next
  case (commit_flush_step p ctx t cap computed tx now st m)
  then show ?thesis
    using store_ok_flush(2) [OF assms(2)] nextSubmitTime_eq [OF commit_flush_step(5)] by (auto simp: goto_def)
next
  case (begin_step t now ctx)
  obtain snap m where r: "reserveSnapshotTime now (sf_txManager (cs_f s)) = (snap, m)" by fastforce
  have "floor_of (cs_f s) \<le> floor_of (cs_f s')"
    using reserveSnapshotTime_eq [OF r] r begin_step(1) by (auto simp: Begin_def Let_def split: option.split)
  then show ?thesis
    using begin_step(1)
    by (auto simp: Begin_frame intro!: exI [of _ "floor_of (cs_f s) + 1"] appended_same)
next
  case (commit_conflict_step p ctx t tx e f)
  then have "f = set_tm (forgetTx t) (cs_f s)" using commit_check_state by fastforce
  then show ?thesis using commit_conflict_step(1)
    by (auto simp: goto_def intro!: exI [of _ "floor_of (cs_f s) + 1"] appended_same)
next
  case (commit_violation_step p ctx t tx cap f e)
  then have "f = cs_f s" using commit_check_state by fastforce
  then show ?thesis using commit_violation_step(1)
    by (auto simp: goto_def intro!: exI [of _ "floor_of (cs_f s) + 1"] appended_same)
next
  case (commit_checked_step p ctx t tx cap f computed)
  then have "f = cs_f s" using commit_check_state by fastforce
  then show ?thesis using commit_checked_step(1)
    by (auto simp: goto_def intro!: exI [of _ "floor_of (cs_f s) + 1"] appended_same)
next
  case (commit_enter_step p ctx t f)
  then show ?thesis using commit_enter_frame(1) [OF commit_enter_step(3)]
    by (auto simp: goto_def intro!: exI [of _ "floor_of (cs_f s) + 1"] appended_same)
qed (auto simp: goto_def intro!: exI [of _ "floor_of (cs_f s) + 1"] appended_same)

lemma appended_snapshot:
  assumes "appended st f g" "t < st"
  shows "getSnapshotVersion g tid eid t = getSnapshotVersion f tid eid t"
proof -
  obtain rows where "versions_of g tid eid = versions_of f tid eid @ rows"
    "\<forall>r \<in> set rows. v_submitTime r = st \<and> row_ok tid eid r"
    using assms(1) unfolding appended_def by blast
  then show ?thesis using assms(2) snapshotWalk_later [of rows t] by (simp add: getSnapshotVersion_def)
qed

lemma steps_stable:
  assumes "(cstep cc d)\<^sup>*\<^sup>* s s'" "store_ok cc s" "t \<le> floor_of (cs_f s)"
  shows "getSnapshotVersion (cs_f s') tid eid t = getSnapshotVersion (cs_f s) tid eid t \<and>
         t \<le> floor_of (cs_f s') \<and> store_ok cc s'"
  using assms
proof (induction rule: rtranclp_induct)
  case (step y z)
  then have y: "store_ok cc y" "t \<le> floor_of (cs_f y)" by simp_all
  from step_appends [OF step.hyps(2) y(1)] obtain st
    where "floor_of (cs_f y) < st" "appended st (cs_f y) (cs_f z)" "floor_of (cs_f y) \<le> floor_of (cs_f z)" by blast
  then show ?case
    using step y store_ok_step [OF step.hyps(2) y(1)] appended_snapshot [of st "cs_f y" "cs_f z" t] by simp
qed simp

text \<open>The scheduler's runs are runs of the relation.\<close>

lemma cexec_cstep:
  assumes "cexec cc a s = Some s'" "d \<longrightarrow> \<not> isRollback a \<and> (\<forall>t. \<not> rollbackPending s t)"
  shows "cstep cc d s s' \<and> (d \<longrightarrow> (\<forall>t. \<not> rollbackPending s' t))"
proof
  show "cstep cc d s s'"
    using assms
    by (cases a) (auto split: if_splits pc.splits option.splits sum.splits prod.splits unit.splits
          intro: cstep.intros)
  show "d \<longrightarrow> (\<forall>t. \<not> rollbackPending s' t)"
    using assms
    by (cases a) (auto simp: rollbackPending_def goto_def split: if_splits pc.splits option.splits sum.splits prod.splits unit.splits)
qed

lemma crun_steps:
  assumes "crun cc as s = Some s'" "d \<longrightarrow> (\<forall>a \<in> set as. \<not> isRollback a) \<and> (\<forall>t. \<not> rollbackPending s t)"
  shows "(cstep cc d)\<^sup>*\<^sup>* s s'"
  using assms
proof (induction as arbitrary: s)
  case (Cons a as)
  then obtain s1 where s1: "cexec cc a s = Some s1" "crun cc as s1 = Some s'" by (auto split: option.splits)
  have "cstep cc d s s1 \<and> (d \<longrightarrow> (\<forall>t. \<not> rollbackPending s1 t))"
    by (rule cexec_cstep [OF s1(1)]) (use Cons.prems(2) in auto)
  then show ?case using Cons.IH [OF s1(2)] Cons.prems(2) by (auto intro: converse_rtranclp_into_rtranclp)
qed simp

lemma crun_reachable:
  assumes "crun cc as cstart = Some s" "d \<longrightarrow> (\<forall>a \<in> set as. \<not> isRollback a)"
  shows "cs.reachable cc d s"
proof -
  have "cs.reachable cc d cstart" by (rule cs.reachable.start) (simp add: cinit_def cstart_def)
  moreover have "(cstep cc d)\<^sup>*\<^sup>* cstart s"
    by (rule crun_steps [OF assms(1)]) (use assms(2) in \<open>auto simp: rollbackPending_def cstart_def\<close>)
  ultimately show ?thesis by (rule cs.reachable_star)
qed

text \<open>
  C2. Repeatable reads. Once a transaction has begun, a snapshot read at its snapshot time gives the
  same answer for every entity of every tenant after any further steps of any number of
  goroutines: concurrent commits, direct writes and deletes never become visible to it.
\<close>

theorem snapshot_reads_stable:
  assumes "cs.reachable cc d s" "sf_txHeap (cs_f s) t = Some tx" "(cstep cc d)\<^sup>*\<^sup>* s s'"
  shows "getSnapshotVersion (cs_f s') tid eid (tx_SnapshotTime tx) =
         getSnapshotVersion (cs_f s) tid eid (tx_SnapshotTime tx)"
proof -
  have ok: "store_ok cc s" using assms(1) by (rule store_ok_reachable)
  then have "tx_SnapshotTime tx \<le> floor_of (cs_f s)"
    using mem_inv_D(3) [OF _ assms(2)] by (simp add: store_ok_def)
  then show ?thesis using steps_stable [OF assms(3) ok] by blast
qed

theorem snapshot_reads_stable_witness:
  "(case crun noClaims (take 8 twoWriters) cstart of
      None \<Rightarrow> False
    | Some s \<Rightarrow>
        (case crun noClaims (drop 8 twoWriters) s of
           None \<Rightarrow> False
         | Some s' \<Rightarrow>
             getSnapshotVersion (cs_f s') ''t'' ''e'' (tx_SnapshotTime (the (sf_txHeap (cs_f s) ''x''))) = Err ErrNotFound \<and>
             length (versions_of (cs_f s') ''t'' ''e'') = 1))"
proof -
  have run: "case crun noClaims (take 8 twoWriters) cstart of
      None \<Rightarrow> False
    | Some s \<Rightarrow>
        (case crun noClaims (drop 8 twoWriters) s of
           None \<Rightarrow> False
         | Some s' \<Rightarrow> sf_txHeap (cs_f s) ''x'' \<noteq> None \<and> length (versions_of (cs_f s') ''t'' ''e'') = 1 \<and>
             getSnapshotVersion (cs_f s) ''t'' ''e'' (tx_SnapshotTime (the (sf_txHeap (cs_f s) ''x''))) = Err ErrNotFound)"
    by code_simp
  then obtain s s' tx where s: "crun noClaims (take 8 twoWriters) cstart = Some s"
    "crun noClaims (drop 8 twoWriters) s = Some s'" "sf_txHeap (cs_f s) ''x'' = Some tx"
    "length (versions_of (cs_f s') ''t'' ''e'') = 1"
    "getSnapshotVersion (cs_f s) ''t'' ''e'' (tx_SnapshotTime tx) = Err ErrNotFound"
    by (auto split: option.splits)
  have "cs.reachable noClaims False s" by (rule crun_reachable [OF s(1)]) simp
  moreover have "(cstep noClaims False)\<^sup>*\<^sup>* s s'" by (rule crun_steps [OF s(2)]) simp
  ultimately show ?thesis using snapshot_reads_stable [OF _ s(3), of noClaims False s' "''t''" "''e''"] s by simp
qed

text \<open>First committer wins, for the disciplined runs.\<close>

lemma active_ok_D:
  assumes "active_ok s" "t \<in> set (tm_active (sf_txManager (cs_f s)))"
  obtains tx n where "sf_txHeap (cs_f s) t = Some tx" "0 < tx_SnapshotTime tx"
    "tm_txSnapshotSeq (sf_txManager (cs_f s)) t = Some n" "n \<le> tm_commitSeq (sf_txManager (cs_f s))"
    "\<And>c. c \<in> set (cs_hist s) \<Longrightarrow> tx_SnapshotTime tx < ch_submit c \<Longrightarrow> logged (sf_txManager (cs_f s)) n c"
  using assms unfolding active_ok_def by blast

lemma phase_ok_D:
  assumes "phase_ok s"
  shows "pcCommit (cs_pc s p) = Some t \<Longrightarrow>
      t \<in> set (tm_active (sf_txManager (cs_f s))) \<and> t \<in> set (tm_committing (sf_txManager (cs_f s)))"
    "pcCommit (cs_pc s p) = Some t \<Longrightarrow> pcCommit (cs_pc s q) = Some t \<Longrightarrow> p = q"
    "cs_pc s p = RollbackEntered ctx t \<Longrightarrow> t \<notin> set (tm_committing (sf_txManager (cs_f s)))"
    "pcTx (cs_pc s p) = Some t \<Longrightarrow> sf_txHeap (cs_f s) t = Some tx \<Longrightarrow> c \<in> set (cs_hist s) \<Longrightarrow>
      tx_SnapshotTime tx < ch_submit c \<Longrightarrow> \<not> overlaps (ch_writes c) tx"
    "cs_pc s p = CommitFlushed ctx t st \<Longrightarrow>
      st \<le> floor_of (cs_f s) \<and> (\<forall>c \<in> set (cs_hist s). ch_submit c < st)"
    "c \<in> set (cs_hist s) \<Longrightarrow> ch_submit c \<le> floor_of (cs_f s)"
  using assms unfolding phase_ok_def by blast+

lemma pcTx_pcCommit: "pcTx l = Some t \<Longrightarrow> pcCommit l = Some t"
  by (cases l) auto

lemma active_ok_frame:
  assumes "active_ok s" "cs_hist s' = cs_hist s"
    and "tm_committedLog (sf_txManager (cs_f s')) = tm_committedLog (sf_txManager (cs_f s))"
    and "tm_commitSeq (sf_txManager (cs_f s')) = tm_commitSeq (sf_txManager (cs_f s))"
    and "\<And>t. t \<in> set (tm_active (sf_txManager (cs_f s'))) \<Longrightarrow>
          t \<in> set (tm_active (sf_txManager (cs_f s))) \<and>
          tm_txSnapshotSeq (sf_txManager (cs_f s')) t = tm_txSnapshotSeq (sf_txManager (cs_f s)) t \<and>
          map_option tx_SnapshotTime (sf_txHeap (cs_f s') t) = map_option tx_SnapshotTime (sf_txHeap (cs_f s) t)"
  shows "active_ok s'"
  unfolding active_ok_def
proof
  fix t assume "t \<in> set (tm_active (sf_txManager (cs_f s')))"
  note a = assms(5) [OF this]
  obtain tx n where o: "sf_txHeap (cs_f s) t = Some tx" "0 < tx_SnapshotTime tx"
    "tm_txSnapshotSeq (sf_txManager (cs_f s)) t = Some n" "n \<le> tm_commitSeq (sf_txManager (cs_f s))"
    "\<And>c. c \<in> set (cs_hist s) \<Longrightarrow> tx_SnapshotTime tx < ch_submit c \<Longrightarrow> logged (sf_txManager (cs_f s)) n c"
    using active_ok_D [OF assms(1)] a by metis
  obtain tx' where "sf_txHeap (cs_f s') t = Some tx'" "tx_SnapshotTime tx' = tx_SnapshotTime tx"
    using a o(1) by auto
  then show "\<exists>tx n. sf_txHeap (cs_f s') t = Some tx \<and> 0 < tx_SnapshotTime tx \<and>
      tm_txSnapshotSeq (sf_txManager (cs_f s')) t = Some n \<and> n \<le> tm_commitSeq (sf_txManager (cs_f s')) \<and>
      (\<forall>c \<in> set (cs_hist s'). tx_SnapshotTime tx < ch_submit c \<longrightarrow> logged (sf_txManager (cs_f s')) n c)"
    using a o assms(2-4) by (auto simp: logged_def)
qed

lemma phase_ok_frame:
  assumes "phase_ok s" "cs_hist s' = cs_hist s" "floor_of (cs_f s) \<le> floor_of (cs_f s')"
    and "\<And>q t. pcCommit (cs_pc s' q) = Some t \<Longrightarrow> pcCommit (cs_pc s q) = Some t \<and>
          t \<in> set (tm_active (sf_txManager (cs_f s'))) \<and> t \<in> set (tm_committing (sf_txManager (cs_f s')))"
    and "\<And>q ctx t. cs_pc s' q = RollbackEntered ctx t \<Longrightarrow> t \<notin> set (tm_committing (sf_txManager (cs_f s')))"
    and "\<And>q t. pcTx (cs_pc s' q) = Some t \<Longrightarrow>
          pcTx (cs_pc s q) = Some t \<and> sf_txHeap (cs_f s') t = sf_txHeap (cs_f s) t"
    and "\<And>q ctx t st. cs_pc s' q = CommitFlushed ctx t st \<Longrightarrow> cs_pc s q = CommitFlushed ctx t st"
  shows "phase_ok s'"
  unfolding phase_ok_def
proof (intro conjI allI impI ballI)
  fix p t assume "pcCommit (cs_pc s' p) = Some t"
  from assms(4) [OF this] show "t \<in> set (tm_active (sf_txManager (cs_f s')))"
    "t \<in> set (tm_committing (sf_txManager (cs_f s')))" by simp_all
next
  fix p q t assume "pcCommit (cs_pc s' p) = Some t \<and> pcCommit (cs_pc s' q) = Some t"
  then show "p = q" using assms(4) phase_ok_D(2) [OF assms(1)] by blast
next
  fix p ctx t assume "cs_pc s' p = RollbackEntered ctx t"
  then show "t \<notin> set (tm_committing (sf_txManager (cs_f s')))" by (rule assms(5))
next
  fix p t tx c
  assume "pcTx (cs_pc s' p) = Some t \<and> sf_txHeap (cs_f s') t = Some tx" "c \<in> set (cs_hist s')"
    "tx_SnapshotTime tx < ch_submit c"
  then show "\<not> overlaps (ch_writes c) tx" using assms(2,6) phase_ok_D(4) [OF assms(1)] by metis
next
  fix p ctx t st assume "cs_pc s' p = CommitFlushed ctx t st"
  from phase_ok_D(5) [OF assms(1) assms(7) [OF this]] assms(2,3)
  show "st \<le> floor_of (cs_f s')" "c \<in> set (cs_hist s') \<Longrightarrow> ch_submit c < st" for c by auto
next
  fix c assume "c \<in> set (cs_hist s')"
  then show "ch_submit c \<le> floor_of (cs_f s')" using phase_ok_D(6) [OF assms(1)] assms(2,3) by fastforce
qed

lemma fcw_ok_frame:
  assumes "fcw_ok s" "cs_hist s' = cs_hist s" "active_ok s'" "phase_ok s'" shows "fcw_ok s'"
  using assms by (simp add: fcw_ok_def)

lemma managerFrame_D:
  "managerFrame m' = managerFrame m \<Longrightarrow>
   tm_active m' = tm_active m \<and> tm_committing m' = tm_committing m \<and> tm_committedLog m' = tm_committedLog m \<and>
   tm_commitSeq m' = tm_commitSeq m \<and> tm_txSnapshotSeq m' = tm_txSnapshotSeq m"
  by (simp add: managerFrame_def)

lemma txFrame_snapshot:
  "map_option txFrame a = map_option txFrame b \<Longrightarrow> map_option tx_SnapshotTime a = map_option tx_SnapshotTime b"
  by (auto simp: txFrame_def map_option_case split: option.splits)

lemma fcw_ok_op:
  assumes "fcw_ok s" "store_ok cc s" "storeOp op" "\<forall>t. opTx op = Some t \<longrightarrow> cs_opmu s t = None"
  shows "fcw_ok (s\<lparr>cs_f := exec cc op (cs_f s)\<rparr>)"
proof -
  have lk: "lock_ok cc s" and q: "quiet (opTx op) (cs_f s) (exec cc op (cs_f s))"
    using assms(2,3) quiet_exec by (auto simp: store_ok_def)
  have m: "managerFrame (sf_txManager (exec cc op (cs_f s))) = managerFrame (sf_txManager (cs_f s))"
    using q by (simp add: quiet_def)
  note mf = managerFrame_D [OF m]
  have h: "sf_txHeap (exec cc op (cs_f s)) t = sf_txHeap (cs_f s) t" if "pcTx (cs_pc s p) = Some t" for p t
    using lock_ok_D(1) [OF lk that] assms(4) q by (auto simp: quiet_def)
  have "active_ok (s\<lparr>cs_f := exec cc op (cs_f s)\<rparr>)"
    by (rule active_ok_frame [of s]) (use assms(1) mf q in \<open>auto simp: fcw_ok_def quiet_def intro: txFrame_snapshot\<close>)
  moreover have "phase_ok (s\<lparr>cs_f := exec cc op (cs_f s)\<rparr>)"
    by (rule phase_ok_frame [of s])
       (use assms(1) mf q h phase_ok_D(1,3) [of s] in \<open>auto simp: fcw_ok_def quiet_def\<close>)
  ultimately show ?thesis using assms(1) by (simp add: fcw_ok_def)
qed

text \<open>The steps that end a transaction without a commit: \<open>g\<close> forgets \<open>t\<close> and touches only its flags.\<close>

lemma fcw_ok_forget:
  assumes "fcw_ok s" "store_ok cc s" "cs_opmu s t = None" "pcTx (cs_pc s p) = None"
    and "\<And>q. q \<noteq> p \<Longrightarrow> pcCommit (cs_pc s q) \<noteq> Some t"
    and "sf_txManager g = forgetTx t (sf_txManager (cs_f s))"
    and "\<And>t'. t' \<noteq> t \<Longrightarrow> sf_txHeap g t' = sf_txHeap (cs_f s) t'"
  shows "fcw_ok (goto p Idle (s\<lparr>cs_f := g\<rparr>))"
proof -
  have lk: "lock_ok cc s" using assms(2) by (simp add: store_ok_def)
  have ph: "phase_ok s" using assms(1) by (simp add: fcw_ok_def)
  have "active_ok (goto p Idle (s\<lparr>cs_f := g\<rparr>))"
    by (rule active_ok_frame [of s]) (use assms(1,6,7) in \<open>auto simp: fcw_ok_def goto_def\<close>)
  moreover have "phase_ok (goto p Idle (s\<lparr>cs_f := g\<rparr>))"
  proof (rule phase_ok_frame [OF ph])
    fix q t' assume "pcCommit (cs_pc (goto p Idle (s\<lparr>cs_f := g\<rparr>)) q) = Some t'"
    then have "q \<noteq> p" "pcCommit (cs_pc s q) = Some t'" by (auto simp: goto_def split: if_splits)
    then show "pcCommit (cs_pc s q) = Some t' \<and>
        t' \<in> set (tm_active (sf_txManager (cs_f (goto p Idle (s\<lparr>cs_f := g\<rparr>))))) \<and>
        t' \<in> set (tm_committing (sf_txManager (cs_f (goto p Idle (s\<lparr>cs_f := g\<rparr>)))))"
      using phase_ok_D(1) [OF ph] assms(5,6) by (auto simp: goto_def)
  next
    fix q ctx t' assume "cs_pc (goto p Idle (s\<lparr>cs_f := g\<rparr>)) q = RollbackEntered ctx t'"
    then have "cs_pc s q = RollbackEntered ctx t'" by (auto simp: goto_def split: if_splits)
    then show "t' \<notin> set (tm_committing (sf_txManager (cs_f (goto p Idle (s\<lparr>cs_f := g\<rparr>)))))"
      using phase_ok_D(3) [OF ph] assms(6) by (auto simp: goto_def)
  next
    fix q t' assume "pcTx (cs_pc (goto p Idle (s\<lparr>cs_f := g\<rparr>)) q) = Some t'"
    then have "pcTx (cs_pc s q) = Some t'" by (auto simp: goto_def split: if_splits)
    then show "pcTx (cs_pc s q) = Some t' \<and>
        sf_txHeap (cs_f (goto p Idle (s\<lparr>cs_f := g\<rparr>))) t' = sf_txHeap (cs_f s) t'"
      using lock_ok_free [OF lk assms(3)] assms(7) by (auto simp: goto_def)
  qed (auto simp: goto_def assms(6) split: if_splits)
  ultimately show ?thesis using assms(1) by (simp add: fcw_ok_def goto_def)
qed

lemma fcw_ok_begin:
  assumes "fcw_ok s" "store_ok cc s" "sf_txHeap (cs_f s) t = None" "0 < now"
  shows "fcw_ok (s\<lparr>cs_f := snd (Begin t now ctx (cs_f s))\<rparr>)"
proof (cases "\<exists>tid. c_User ctx = Some tid \<and> tid \<noteq> ''''")
  case False
  then show ?thesis using assms(1) by (auto simp: Begin_def split: option.split)
next
  case True
  then obtain tid where u: "c_User ctx = Some tid" "tid \<noteq> ''''" by blast
  let ?g = "snd (Begin t now ctx (cs_f s))"
  obtain snap m where r: "reserveSnapshotTime now (sf_txManager (cs_f s)) = (snap, m)" by fastforce
  have snap: "floor_of (cs_f s) \<le> snap" "m = sf_txManager (cs_f s)\<lparr>tm_lastSubmitTime := snap\<rparr>" "0 < snap"
    using reserveSnapshotTime_eq [OF r] r assms(4) by (auto simp: reserveSnapshotTime_def Let_def split: if_splits)
  have act: "active_ok s" and ph: "phase_ok s" using assms(1) by (simp_all add: fcw_ok_def)
  have lk: "lock_ok cc s" using assms(2) by (simp add: store_ok_def)
  have g: "sf_txManager ?g = m\<lparr>tm_active := List.insert t (tm_active m),
        tm_txSnapshotSeq := (tm_txSnapshotSeq m)(t \<mapsto> tm_commitSeq m)\<rparr>"
    "\<exists>tx. sf_txHeap ?g t = Some tx \<and> tx_SnapshotTime tx = snap"
    using u r by (simp_all add: Begin_def Let_def)
  have "active_ok (s\<lparr>cs_f := ?g\<rparr>)"
    unfolding active_ok_def
  proof
    fix t' assume t': "t' \<in> set (tm_active (sf_txManager (cs_f (s\<lparr>cs_f := ?g\<rparr>))))"
    show "\<exists>tx n. sf_txHeap (cs_f (s\<lparr>cs_f := ?g\<rparr>)) t' = Some tx \<and> 0 < tx_SnapshotTime tx \<and>
        tm_txSnapshotSeq (sf_txManager (cs_f (s\<lparr>cs_f := ?g\<rparr>))) t' = Some n \<and>
        n \<le> tm_commitSeq (sf_txManager (cs_f (s\<lparr>cs_f := ?g\<rparr>))) \<and>
        (\<forall>c \<in> set (cs_hist (s\<lparr>cs_f := ?g\<rparr>)). tx_SnapshotTime tx < ch_submit c \<longrightarrow>
           logged (sf_txManager (cs_f (s\<lparr>cs_f := ?g\<rparr>))) n c)"
    proof (cases "t' = t")
      case True
      have "\<forall>c \<in> set (cs_hist s). \<not> snap < ch_submit c" using phase_ok_D(6) [OF ph] snap(1) by fastforce
      then show ?thesis using True g snap(2,3) by auto
    next
      case False
      then have "t' \<in> set (tm_active (sf_txManager (cs_f s)))" using t' g(1) snap(2) by auto
      from active_ok_D [OF act this] obtain tx n where o: "sf_txHeap (cs_f s) t' = Some tx" "0 < tx_SnapshotTime tx"
        "tm_txSnapshotSeq (sf_txManager (cs_f s)) t' = Some n" "n \<le> tm_commitSeq (sf_txManager (cs_f s))"
        "\<And>c. c \<in> set (cs_hist s) \<Longrightarrow> tx_SnapshotTime tx < ch_submit c \<Longrightarrow> logged (sf_txManager (cs_f s)) n c"
        by metis
      then show ?thesis using False g(1) snap(2) by (auto simp: Begin_frame logged_def)
    qed
  qed
  moreover have "phase_ok (s\<lparr>cs_f := ?g\<rparr>)"
  proof (rule phase_ok_frame [OF ph])
    fix q t' assume q: "pcTx (cs_pc (s\<lparr>cs_f := ?g\<rparr>) q) = Some t'"
    then have "t' \<noteq> t" using lock_ok_D(3) [OF lk, of q t'] assms(3) by auto
    then show "pcTx (cs_pc s q) = Some t' \<and> sf_txHeap (cs_f (s\<lparr>cs_f := ?g\<rparr>)) t' = sf_txHeap (cs_f s) t'"
      using q by (simp add: Begin_frame)
  qed (use phase_ok_D(1,3) [OF ph] g(1) snap in auto)
  ultimately show ?thesis using assms(1) by (simp add: fcw_ok_def)
qed

lemma goto_sel [simp]:
  "cs_f (goto p l s) = cs_f s" "cs_opmu (goto p l s) = cs_opmu s" "cs_entity (goto p l s) = cs_entity s"
  "cs_hist (goto p l s) = cs_hist s" "cs_pc (goto p l s) = (cs_pc s)(p := l)"
  by (simp_all add: goto_def)

lemma fcw_ok_enter:
  assumes "fcw_ok s" "cs_pc s p = Idle" "commit_enter ctx t (cs_f s) = Inr f" "\<not> rollbackPending s t"
  shows "fcw_ok (goto p (CommitEntered ctx t) (s\<lparr>cs_f := f\<rparr>))"
proof -
  note e = commit_enter_frame [OF assms(3)]
  have ph: "phase_ok s" using assms(1) by (simp add: fcw_ok_def)
  let ?s = "goto p (CommitEntered ctx t) (s\<lparr>cs_f := f\<rparr>)"
  have sel: "cs_f ?s = f" "cs_hist ?s = cs_hist s" "cs_pc ?s = (cs_pc s)(p := CommitEntered ctx t)"
    by (simp_all add: goto_def)
  have "active_ok ?s"
    by (rule active_ok_frame [of s]) (use assms(1) e(1) in \<open>auto simp: fcw_ok_def sel\<close>)
  moreover have "phase_ok ?s"
    unfolding phase_ok_def sel
  proof (intro conjI allI impI)
    fix q t' assume "pcCommit (((cs_pc s)(p := CommitEntered ctx t)) q) = Some t'"
    then show "t' \<in> set (tm_active (sf_txManager f))" "t' \<in> set (tm_committing (sf_txManager f))"
      using e phase_ok_D(1) [OF ph] by (auto split: if_splits)
  next
    fix q r t' assume "pcCommit (((cs_pc s)(p := CommitEntered ctx t)) q) = Some t' \<and>
      pcCommit (((cs_pc s)(p := CommitEntered ctx t)) r) = Some t'"
    then show "q = r" using e(3) phase_ok_D(1,2) [OF ph] by (auto split: if_splits)
  next
    fix q c t' assume "((cs_pc s)(p := CommitEntered ctx t)) q = RollbackEntered c t'"
    then show "t' \<notin> set (tm_committing (sf_txManager f))"
      using e(1) phase_ok_D(3) [OF ph] assms(4) by (auto simp: rollbackPending_def split: if_splits)
  qed (use e(1) phase_ok_D(4-6) [OF ph] in \<open>auto split: if_splits\<close>)
  ultimately show ?thesis using assms(1) by (simp add: fcw_ok_def sel)
qed

lemma no_overlap_checked:
  assumes "active_ok s" "t \<in> set (tm_active (sf_txManager (cs_f s)))" "sf_txHeap (cs_f s) t = Some tx"
    and "commit_check t tx (cs_f s) = (Inr cap, f)" "c \<in> set (cs_hist s)" "tx_SnapshotTime tx < ch_submit c"
  shows "\<not> overlaps (ch_writes c) tx"
proof -
  from active_ok_D [OF assms(1,2)] obtain n where
    n: "tm_txSnapshotSeq (sf_txManager (cs_f s)) t = Some n" "logged (sf_txManager (cs_f s)) n c"
    using assms(3,5,6) by (metis option.inject)
  then obtain r where r: "r \<in> set (tm_committedLog (sf_txManager (cs_f s)))" "n < ct_seq r" "ct_writeSet r = ch_writes c"
    by (auto simp: logged_def)
  have "\<not> hasConflict n (tm_committedLog (sf_txManager (cs_f s))) tx"
    using assms(4) n(1) by (auto simp: commit_check_def snapshotSeq_of_def Let_def split: if_splits)
  then show ?thesis using r by (auto simp: hasConflict_def overlaps_def list_ex_iff)
qed

lemma fcw_ok_checked:
  assumes "fcw_ok s" "store_ok cc s" "cs_pc s p = CommitEntered ctx t" "cs_entity s = None"
    and "sf_txHeap (cs_f s) t = Some tx" "commit_check t tx (cs_f s) = (Inr cap, f)"
  shows "fcw_ok (goto p (CommitChecked ctx t cap computed)
           (s\<lparr>cs_f := f, cs_opmu := om, cs_entity := en\<rparr>))"
proof -
  have f: "f = cs_f s" using commit_check_state [OF assms(6)] by simp
  have act: "active_ok s" and ph: "phase_ok s" using assms(1) by (simp_all add: fcw_ok_def)
  have idle: "pcTx (cs_pc s q) = None" for q using assms(2,4) by (simp add: store_ok_def lock_ok_def)
  have t: "t \<in> set (tm_active (sf_txManager (cs_f s)))" using phase_ok_D(1) [OF ph, of p t] assms(3) by simp
  let ?s = "goto p (CommitChecked ctx t cap computed) (s\<lparr>cs_f := f, cs_opmu := om, cs_entity := en\<rparr>)"
  have sel: "cs_f ?s = cs_f s" "cs_hist ?s = cs_hist s" "cs_pc ?s = (cs_pc s)(p := CommitChecked ctx t cap computed)"
    by (simp_all add: goto_def f)
  have pc: "pcCommit (((cs_pc s)(p := CommitChecked ctx t cap computed)) q) = pcCommit (cs_pc s q)" for q
    using assms(3) by simp
  have "phase_ok ?s"
    unfolding phase_ok_def sel pc
  proof (intro conjI allI impI ballI)
    fix q t' tx' c
    assume a: "pcTx (((cs_pc s)(p := CommitChecked ctx t cap computed)) q) = Some t' \<and> sf_txHeap (cs_f s) t' = Some tx'"
      "c \<in> set (cs_hist s)" "tx_SnapshotTime tx' < ch_submit c"
    then have "t' = t" "tx' = tx" using idle assms(5) by (auto split: if_splits)
    then show "\<not> overlaps (ch_writes c) tx'" using no_overlap_checked [OF act t assms(5,6)] a by simp
  qed (use phase_ok_D [OF ph] in \<open>auto split: if_splits\<close>)
  moreover have "active_ok ?s" by (rule active_ok_frame [OF act]) (auto simp: f)
  ultimately show ?thesis using assms(1) by (simp add: fcw_ok_def sel)
qed

lemma fcw_ok_flush:
  assumes "fcw_ok s" "cs_pc s p = CommitChecked ctx t cap computed"
    and n: "nextSubmitTime now (sf_txManager (cs_f s)) = (st, m)"
  shows "fcw_ok (goto p (CommitFlushed ctx t st)
           (s\<lparr>cs_f := commit_flush ctx t tx cap computed st ((cs_f s)\<lparr>sf_txManager := m\<rparr>)\<rparr>))"
proof -
  have act: "active_ok s" and ph: "phase_ok s" using assms(1) by (simp_all add: fcw_ok_def)
  note m = nextSubmitTime_eq [OF n]
  let ?f = "commit_flush ctx t tx cap computed st ((cs_f s)\<lparr>sf_txManager := m\<rparr>)"
  let ?s = "goto p (CommitFlushed ctx t st) (s\<lparr>cs_f := ?f\<rparr>)"
  have sel: "cs_f ?s = ?f" "cs_hist ?s = cs_hist s" "cs_pc ?s = (cs_pc s)(p := CommitFlushed ctx t st)"
    by (simp_all add: goto_def)
  have pc: "pcCommit (((cs_pc s)(p := CommitFlushed ctx t st)) q) = pcCommit (cs_pc s q)"
    "pcTx (((cs_pc s)(p := CommitFlushed ctx t st)) q) = pcTx (cs_pc s q)" for q
    using assms(2) by simp_all
  have "phase_ok ?s"
    unfolding phase_ok_def sel pc
  proof (intro conjI allI impI)
    fix q c t' st' assume "((cs_pc s)(p := CommitFlushed ctx t st)) q = CommitFlushed c t' st'"
    then show "st' \<le> floor_of ?f" "\<forall>c \<in> set (cs_hist s). ch_submit c < st'"
      using phase_ok_D(5) [OF ph, of q c t' st'] phase_ok_D(6) [OF ph] m by (force split: if_splits)+
  next
    fix q c t' assume "((cs_pc s)(p := CommitFlushed ctx t st)) q = RollbackEntered c t'"
    then show "t' \<notin> set (tm_committing (sf_txManager ?f))"
      using phase_ok_D(3) [OF ph] m by (auto split: if_splits)
  next
    show "\<forall>c \<in> set (cs_hist s). ch_submit c \<le> floor_of ?f" using phase_ok_D(6) [OF ph] m by fastforce
  qed (use phase_ok_D(1,2,4) [OF ph] m in auto)
  moreover have "active_ok ?s" by (rule active_ok_frame [OF act]) (use m in \<open>auto simp: sel\<close>)
  ultimately show ?thesis using assms(1) by (simp add: fcw_ok_def sel)
qed

lemma fold_lower_bound:
  fixes v :: "'a \<Rightarrow> int"
  assumes "\<And>t z. t \<in> set ts \<Longrightarrow> 0 \<le> z \<Longrightarrow> 0 < g t z \<and> g t z \<le> v t \<and> (0 < z \<longrightarrow> g t z \<le> z)" "0 \<le> z"
  shows "(0 < z \<longrightarrow> 0 < fold g ts z \<and> fold g ts z \<le> z) \<and>
         (\<forall>t \<in> set ts. 0 < fold g ts z \<and> fold g ts z \<le> v t)"
  using assms
proof (induction ts arbitrary: z)
  case (Cons a ts)
  have a: "0 < g a z" "g a z \<le> v a" "0 < z \<longrightarrow> g a z \<le> z" using Cons.prems by auto
  have "0 < fold g ts (g a z)" "fold g ts (g a z) \<le> g a z" "\<forall>t \<in> set ts. fold g ts (g a z) \<le> v t"
    using Cons.IH [of "g a z"] Cons.prems(1) a(1) by auto
  then show ?case using a by auto
qed simp

lemma oldestSnapshot_bound:
  assumes "\<And>t. t \<in> set ts \<Longrightarrow> \<exists>tx. heap t = Some tx \<and> 0 < tx_SnapshotTime tx"
    and "t \<in> set ts" "heap t = Some tx"
  shows "oldestSnapshot heap ts \<noteq> 0 \<and> oldestSnapshot heap ts \<le> tx_SnapshotTime tx"
proof -
  let ?g = "\<lambda>t oldest. case heap t of
      None \<Rightarrow> oldest
    | Some a \<Rightarrow> if oldest = 0 \<or> tx_SnapshotTime a < oldest then tx_SnapshotTime a else oldest"
  let ?v = "\<lambda>t. case heap t of None \<Rightarrow> 0 | Some a \<Rightarrow> tx_SnapshotTime a"
  have "0 < ?g x z \<and> ?g x z \<le> ?v x \<and> (0 < z \<longrightarrow> ?g x z \<le> z)" if "x \<in> set ts" "0 \<le> z" for x z
    using assms(1) [OF that(1)] that(2) by auto
  from fold_lower_bound [of ts ?g ?v 0, OF this] show ?thesis
    using assms(2,3) unfolding oldestSnapshot_def by fastforce
qed

lemma commit_record_manager:
  "tm_active (sf_txManager (commit_record t tx st now f)) = removeAll t (tm_active (sf_txManager f))"
  "tm_committing (sf_txManager (commit_record t tx st now f)) = removeAll t (tm_committing (sf_txManager f))"
  "tm_commitSeq (sf_txManager (commit_record t tx st now f)) = tm_commitSeq (sf_txManager f) + 1"
  "tm_txSnapshotSeq (sf_txManager (commit_record t tx st now f)) = (tm_txSnapshotSeq (sf_txManager f))(t := None)"
  "tm_committedLog (sf_txManager (commit_record t tx st now f)) =
     pruneLog (oldestSnapshot (sf_txHeap f) (removeAll t (tm_active (sf_txManager f))))
       (tm_committedLog (sf_txManager f) @
          [\<lparr>ct_id = t, ct_submitTime = st, ct_seq = tm_commitSeq (sf_txManager f) + 1, ct_writeSet = tx_WriteSet tx\<rparr>])"
  by (simp_all add: commit_record_def Let_def)

lemma active_ok_record:
  assumes "active_ok s" "sf_txHeap (cs_f s) t = Some tx"
    and "cs_f s' = closeTx t (commit_record t tx st now (cs_f s))"
    and "cs_hist s' = cs_hist s @ [commitRec_of t tx st]"
  shows "active_ok s'"
  unfolding active_ok_def
proof
  let ?m = "sf_txManager (cs_f s)" and ?m' = "sf_txManager (cs_f s')"
  let ?old = "oldestSnapshot (sf_txHeap (cs_f s)) (removeAll t (tm_active ?m))"
  let ?new = "\<lparr>ct_id = t, ct_submitTime = st, ct_seq = tm_commitSeq ?m + 1, ct_writeSet = tx_WriteSet tx\<rparr>"
  fix t' assume "t' \<in> set (tm_active ?m')"
  then have t': "t' \<in> set (removeAll t (tm_active ?m))" by (simp add: assms(3) commit_record_manager)
  then have a: "t' \<in> set (tm_active ?m)" "t' \<noteq> t" by auto
  from active_ok_D [OF assms(1) a(1)] obtain tx' n where o: "sf_txHeap (cs_f s) t' = Some tx'" "0 < tx_SnapshotTime tx'"
    "tm_txSnapshotSeq ?m t' = Some n" "n \<le> tm_commitSeq ?m"
    "\<And>c. c \<in> set (cs_hist s) \<Longrightarrow> tx_SnapshotTime tx' < ch_submit c \<Longrightarrow> logged ?m n c"
    by metis
  have "\<exists>tx. sf_txHeap (cs_f s) x = Some tx \<and> 0 < tx_SnapshotTime tx" if "x \<in> set (removeAll t (tm_active ?m))" for x
    using assms(1) that by (auto simp: active_ok_def)
  from oldestSnapshot_bound [where heap = "sf_txHeap (cs_f s)", OF this t' o(1)]
  have old: "?old \<noteq> 0" "?old \<le> tx_SnapshotTime tx'" by blast+
  have log: "tm_committedLog ?m' = filter (\<lambda>c. \<not> ct_submitTime c < ?old) (tm_committedLog ?m @ [?new])"
    using old(1) by (simp add: assms(3) commit_record_manager pruneLog_def)
  have "logged ?m' n c" if "c \<in> set (cs_hist s')" "tx_SnapshotTime tx' < ch_submit c" for c
  proof (cases "c \<in> set (cs_hist s)")
    case True
    from o(5) [OF this that(2)] obtain r where "r \<in> set (tm_committedLog ?m)" "n < ct_seq r"
      "ct_submitTime r = ch_submit c" "ct_writeSet r = ch_writes c" by (auto simp: logged_def)
    then show ?thesis using log old(2) that(2) by (auto simp: logged_def)
  next
    case False
    then have "c = commitRec_of t tx st" using that(1) assms(4) by auto
    then show ?thesis using log old(2) that(2) o(4) by (auto simp: logged_def commitRec_of_def)
  qed
  then show "\<exists>tx n. sf_txHeap (cs_f s') t' = Some tx \<and> 0 < tx_SnapshotTime tx \<and>
      tm_txSnapshotSeq ?m' t' = Some n \<and> n \<le> tm_commitSeq ?m' \<and>
      (\<forall>c \<in> set (cs_hist s'). tx_SnapshotTime tx < ch_submit c \<longrightarrow> logged ?m' n c)"
    using o(1-4) a(2) by (auto simp: assms(3) commit_record_manager)
qed

lemma hist_fcw_snoc:
  assumes "hist_fcw h" "\<And>c. c \<in> set h \<Longrightarrow> ch_submit c < st"
    and "\<And>c. c \<in> set h \<Longrightarrow> tx_SnapshotTime tx < ch_submit c \<Longrightarrow> \<not> overlaps (ch_writes c) tx"
  shows "hist_fcw (h @ [commitRec_of t tx st])"
proof -
  have "x \<notin> set (tx_ReadSet tx)" "x \<notin> set (tx_WriteSet tx)"
    if "i < length h" "tx_SnapshotTime tx < ch_submit (h ! i)" "x \<in> set (ch_writes (h ! i))" for i x
    using assms(3) [OF nth_mem [OF that(1)] that(2)] that(3) by (auto simp: overlaps_def)
  then show ?thesis
    using assms(1,2) by (auto simp: hist_fcw_def nth_append commitRec_of_def less_Suc_eq)
qed

lemma fcw_ok_record:
  assumes "fcw_ok s" "store_ok cc s" "cs_pc s p = CommitFlushed ctx t st" "sf_txHeap (cs_f s) t = Some tx"
  shows "fcw_ok (goto p Idle (s\<lparr>cs_f := closeTx t (commit_record t tx st now (cs_f s)),
           cs_opmu := om, cs_entity := en, cs_hist := cs_hist s @ [commitRec_of t tx st]\<rparr>))"
proof -
  have act: "active_ok s" and ph: "phase_ok s" and hf: "hist_fcw (cs_hist s)"
    using assms(1) by (simp_all add: fcw_ok_def)
  let ?f = "closeTx t (commit_record t tx st now (cs_f s))"
  let ?s = "goto p Idle (s\<lparr>cs_f := ?f, cs_opmu := om, cs_entity := en, cs_hist := cs_hist s @ [commitRec_of t tx st]\<rparr>)"
  have p: "pcTx (cs_pc s p) = Some t" "pcCommit (cs_pc s p) = Some t" by (simp_all add: assms(3))
  note st = phase_ok_D(5) [OF ph assms(3)]
  have idle: "pcTx (cs_pc s q) = None" if "q \<noteq> p" for q
    using assms(2) lock_ok_others [OF _ p(1) that, of cc] by (simp add: store_ok_def)
  have "hist_fcw (cs_hist ?s)"
    using hist_fcw_snoc [OF hf] st phase_ok_D(4) [OF ph p(1) assms(4)] by simp
  moreover have "active_ok ?s" by (rule active_ok_record [OF act assms(4)]) simp_all
  moreover have "phase_ok ?s"
    unfolding phase_ok_def
  proof (intro conjI allI impI)
    fix q t' assume "pcCommit (cs_pc ?s q) = Some t'"
    then have q: "q \<noteq> p" "pcCommit (cs_pc s q) = Some t'" by (auto split: if_splits)
    then have "t' \<noteq> t" using phase_ok_D(2) [OF ph _ p(2)] by blast
    then show "t' \<in> set (tm_active (sf_txManager (cs_f ?s)))" "t' \<in> set (tm_committing (sf_txManager (cs_f ?s)))"
      using phase_ok_D(1) [OF ph q(2)] by (simp_all add: commit_record_manager)
  next
    fix q r t' assume "pcCommit (cs_pc ?s q) = Some t' \<and> pcCommit (cs_pc ?s r) = Some t'"
    then show "q = r" using phase_ok_D(2) [OF ph] by (auto split: if_splits)
  next
    fix q c t' assume "cs_pc ?s q = RollbackEntered c t'"
    then show "t' \<notin> set (tm_committing (sf_txManager (cs_f ?s)))"
      using phase_ok_D(3) [OF ph] by (auto simp: commit_record_manager split: if_splits)
  next
    fix q t' tx' assume "pcTx (cs_pc ?s q) = Some t' \<and> sf_txHeap (cs_f ?s) t' = Some tx'"
    then show "\<forall>c \<in> set (cs_hist ?s). tx_SnapshotTime tx' < ch_submit c \<longrightarrow> \<not> overlaps (ch_writes c) tx'"
      using idle by (auto split: if_splits)
  next
    fix q c t' st' assume "cs_pc ?s q = CommitFlushed c t' st'"
    then show "st' \<le> floor_of (cs_f ?s)" "\<forall>c \<in> set (cs_hist ?s). ch_submit c < st'"
      using idle [of q] by (auto split: if_splits)
  next
    show "\<forall>c \<in> set (cs_hist ?s). ch_submit c \<le> floor_of (cs_f ?s)"
      using phase_ok_D(6) [OF ph] st by (auto simp: commitRec_of_def)
  qed
  ultimately show ?thesis by (simp add: fcw_ok_def)
qed

lemma fcw_ok_step:
  assumes "cstep cc True s s'" "store_ok cc s" "fcw_ok s" shows "fcw_ok s'"
  using assms(1)
proof (cases rule: cstep.cases)
  case (begin_step t now ctx)
  then show ?thesis using fcw_ok_begin [OF assms(3,2)] by simp
next
  case (op_step op)
  then show ?thesis using fcw_ok_op [OF assms(3,2)] by simp
next
  case (commit_enter_step p ctx t f)
  then show ?thesis using fcw_ok_enter [OF assms(3)] by simp
next
  case (commit_conflict_step p ctx t tx e f)
  then have f: "f = set_tm (forgetTx t) (cs_f s)" using commit_check_state by fastforce
  have "pcCommit (cs_pc s q) \<noteq> Some t" if "q \<noteq> p" for q
    using phase_ok_D(2) [of s p t q] assms(3) commit_conflict_step(2) that by (auto simp: fcw_ok_def)
  then show ?thesis unfolding commit_conflict_step(1)
    using commit_conflict_step(2,3) f by (intro fcw_ok_forget [OF assms(3,2)]) auto
next
  case (commit_violation_step p ctx t tx cap f e)
  then have f: "f = cs_f s" using commit_check_state by fastforce
  have "pcCommit (cs_pc s q) \<noteq> Some t" if "q \<noteq> p" for q
    using phase_ok_D(2) [of s p t q] assms(3) commit_violation_step(2) that by (auto simp: fcw_ok_def)
  then show ?thesis unfolding commit_violation_step(1)
    using commit_violation_step(2,3) f by (intro fcw_ok_forget [OF assms(3,2)]) auto
next
  case (commit_checked_step p ctx t tx cap f computed)
  then show ?thesis using fcw_ok_checked [OF assms(3,2)] by simp
next
  case (commit_flush_step p ctx t cap computed tx now st m)
  then show ?thesis using fcw_ok_flush [OF assms(3)] by simp
next
  case (commit_record_step p ctx t st tx now)
  then show ?thesis using fcw_ok_record [OF assms(3,2)] by simp
next
  case (rollback_enter_step p ctx t)
  have ph: "phase_ok s" and act: "active_ok s" using assms(3) by (simp_all add: fcw_ok_def)
  have "phase_ok s'" unfolding rollback_enter_step(1)
    by (rule phase_ok_frame [OF ph])
       (use rollback_enter_step(2,4) phase_ok_D(1,3) [OF ph] in \<open>auto split: if_splits\<close>)
  moreover have "active_ok s'" unfolding rollback_enter_step(1) by (rule active_ok_frame [OF act]) auto
  ultimately show ?thesis using assms(3) rollback_enter_step(1) by (simp add: fcw_ok_def)
next
  case (rollback_step p ctx t)
  have ph: "phase_ok s" using assms(3) by (simp add: fcw_ok_def)
  have "pcCommit (cs_pc s q) \<noteq> Some t" for q
    using phase_ok_D(1) [OF ph, of q t] phase_ok_D(3) [OF ph rollback_step(2)] by blast
  then show ?thesis unfolding rollback_step(1)
    using rollback_step(2,3) by (intro fcw_ok_forget [OF assms(3,2)]) auto
qed

lemma fcw_ok_reachable: "cs.reachable cc True s \<Longrightarrow> fcw_ok s"
proof (rule cs.invariant_holds)
  show "cinit s \<Longrightarrow> fcw_ok s" for s
    by (auto simp: cinit_def fcw_ok_def active_ok_def phase_ok_def hist_fcw_def NewStoreFactory_def
        NewTransactionManager_def)
  show "cs.reachable cc True s \<Longrightarrow> fcw_ok s \<Longrightarrow> cstep cc True s t \<Longrightarrow> fcw_ok t" for s t
    using fcw_ok_step store_ok_reachable by blast
qed

text \<open>
  C1. First committer wins. In every run in which clients do not race \<^verbatim>\<open>Rollback\<close> against \<^verbatim>\<open>Commit\<close> on
  one transaction, successful commits are stamped in strictly increasing order, and a committed
  transaction has neither read nor written any entity that an earlier commit, stamped after its
  snapshot, had written. Neither the pruning of the commit log nor a \<^verbatim>\<open>Begin\<close> between the stamp and
  the record of another commit loses a conflict.
\<close>

theorem first_committer_wins:
  assumes "cs.reachable cc True s" "i < j" "j < length (cs_hist s)"
  shows "ch_submit (cs_hist s ! i) < ch_submit (cs_hist s ! j) \<and>
         (ch_snapshot (cs_hist s ! j) < ch_submit (cs_hist s ! i) \<longrightarrow>
            set (ch_writes (cs_hist s ! i)) \<inter>
              (set (ch_reads (cs_hist s ! j)) \<union> set (ch_writes (cs_hist s ! j))) = {})"
  using fcw_ok_reachable [OF assms(1)] assms(2,3) unfolding fcw_ok_def hist_fcw_def by blast

theorem first_committer_wins_witness:
  "(case crun noClaims twoWriters cstart of
      None \<Rightarrow> False
    | Some s \<Rightarrow>
        map ch_id (cs_hist s) = [''y'', ''x''] \<and>
        ch_snapshot (cs_hist s ! 1) < ch_submit (cs_hist s ! 0) \<and>
        set (ch_writes (cs_hist s ! 0)) \<inter> (set (ch_reads (cs_hist s ! 1)) \<union> set (ch_writes (cs_hist s ! 1))) = {})"
proof -
  have run: "case crun noClaims twoWriters cstart of
      None \<Rightarrow> False
    | Some s \<Rightarrow> map ch_id (cs_hist s) = [''y'', ''x''] \<and> ch_snapshot (cs_hist s ! 1) < ch_submit (cs_hist s ! 0)"
    by code_simp
  then obtain s where s: "crun noClaims twoWriters cstart = Some s"
    "map ch_id (cs_hist s) = [''y'', ''x'']" "ch_snapshot (cs_hist s ! 1) < ch_submit (cs_hist s ! 0)"
    by (auto split: option.splits)
  have r: "cs.reachable noClaims True s" by (rule crun_reachable [OF s(1)]) (simp add: twoWriters_def)
  have "length (map ch_id (cs_hist s)) = 2" unfolding s(2) by simp
  then have "1 < length (cs_hist s)" by simp
  then show ?thesis using first_committer_wins [OF r, of 0 1] s by simp
qed

text \<open>
  C38. \<^verbatim>\<open>Rollback\<close> does not look at the \<^verbatim>\<open>committing\<close> mark, and \<^verbatim>\<open>Commit\<close> does not look at the
  transaction's flags again once it holds \<^verbatim>\<open>OpMu\<close>: there is a run in which \<^verbatim>\<open>Rollback\<close> of a transaction
  returns without error and the racing \<^verbatim>\<open>Commit\<close> then publishes that transaction's writes.
\<close>

theorem rollback_race_publishes:
  "\<exists>s tx. cs.reachable noClaims False s \<and> sf_txHeap (cs_f s) ''x'' = Some tx \<and> tx_RolledBack tx \<and>
     map ch_id (cs_hist s) = [''x''] \<and> length (versions_of (cs_f s) ''t'' ''d'') = 1"
proof -
  have "case crun noClaims rollbackRace cstart of
      None \<Rightarrow> False
    | Some s \<Rightarrow> (case sf_txHeap (cs_f s) ''x'' of
                   None \<Rightarrow> False
                 | Some tx \<Rightarrow> tx_RolledBack tx \<and> map ch_id (cs_hist s) = [''x''] \<and>
                     length (versions_of (cs_f s) ''t'' ''d'') = 1)"
    by code_simp
  then obtain s tx where s: "crun noClaims rollbackRace cstart = Some s" "sf_txHeap (cs_f s) ''x'' = Some tx"
    "tx_RolledBack tx" "map ch_id (cs_hist s) = [''x'']" "length (versions_of (cs_f s) ''t'' ''d'') = 1"
    by (auto split: option.splits)
  have "cs.reachable noClaims False s" by (rule crun_reachable [OF s(1)]) simp
  then show ?thesis using s by metis
qed

end
