(* ===== verification/MemScheduledTasks.thy ===== *)
theory MemScheduledTasks
  imports MemProperties
begin

text \<open>
  The scheduled-task store of the memory plugin (\<^verbatim>\<open>plugins/memory/scheduled_task_store.go\<close>). The table
  \<open>sf_scheduledTasks\<close> is the Go map from task id to task, an association list whose order stands for
  one iteration of the map. A mutation inside a transaction is staged on the transaction manager and
  applied by \<open>commit_flush\<close>; outside a transaction it is applied at once.

  \<^verbatim>\<open>sort.Slice\<close> gives some ordering of equal elements; since the iteration order of the map is
  arbitrary too, a stable sort of an arbitrary order covers its results.
\<close>

definition scheduledTaskStore_stage ::
  "Ctx \<Rightarrow> scheduledTaskOp \<Rightarrow> StoreFactory \<Rightarrow> unit result \<times> StoreFactory" where
  "scheduledTaskStore_stage ctx op f =
     (case GetTransaction f ctx of
        None \<Rightarrow> (Ok (), f\<lparr>sf_scheduledTasks := applyScheduledTaskOp op (sf_scheduledTasks f)\<rparr>)
      | Some tx \<Rightarrow>
          if tx_RolledBack tx then (Err ErrTxRolledBack, f)
          else (Ok (), set_tm (stageScheduledTaskOp (tx_ID tx) op) f))"

definition scheduledTaskStore_Upsert ::
  "Ctx \<Rightarrow> ScheduledTask \<Rightarrow> StoreFactory \<Rightarrow> unit result \<times> StoreFactory" where
  "scheduledTaskStore_Upsert ctx task f =
     scheduledTaskStore_stage ctx (scheduledTaskUpsert (st_ID task) task) f"

definition scheduledTaskStore_Delete ::
  "Ctx \<Rightarrow> string \<Rightarrow> StoreFactory \<Rightarrow> bool result \<times> StoreFactory" where
  "scheduledTaskStore_Delete ctx taskid f =
     (let existed = map_of (sf_scheduledTasks f) taskid \<noteq> None
      in case scheduledTaskStore_stage ctx (scheduledTaskDelete taskid) f of
           (Inl e, f1) \<Rightarrow> (Err e, f1)
         | (Inr _, f1) \<Rightarrow> (Ok existed, f1))"

definition scheduledTaskStore_Get :: "string \<Rightarrow> StoreFactory \<Rightarrow> ScheduledTask option" where
  "scheduledTaskStore_Get taskid f = map_of (sf_scheduledTasks f) taskid"

definition taskDue :: "int \<Rightarrow> ScheduledTask \<Rightarrow> bool" where
  "taskDue nowMs t \<longleftrightarrow>
     st_ScheduledTime t \<le> nowMs \<and>
     (case st_RedispatchAfter t of None \<Rightarrow> True | Some after \<Rightarrow> after \<le> nowMs)"

definition scheduledTaskStore_ScanDue :: "int \<Rightarrow> int \<Rightarrow> StoreFactory \<Rightarrow> ScheduledTask list" where
  "scheduledTaskStore_ScanDue nowMs limit f =
     (let out = sort_key st_ScheduledTime (filter (taskDue nowMs) (map snd (sf_scheduledTasks f)))
      in if 0 < limit \<and> limit < int (length out) then take (nat limit) out else out)"

definition scheduledTaskStore_MarkRedispatch :: "string \<Rightarrow> int \<Rightarrow> StoreFactory \<Rightarrow> StoreFactory" where
  "scheduledTaskStore_MarkRedispatch taskid redispatchAfterMs f =
     (case map_of (sf_scheduledTasks f) taskid of
        None \<Rightarrow> f
      | Some t \<Rightarrow>
          f\<lparr>sf_scheduledTasks :=
              AList.update taskid
                (t\<lparr>st_RedispatchAfter := Some redispatchAfterMs,
                   st_AttemptCount := wrap64 (st_AttemptCount t + 1)\<rparr>)
                (sf_scheduledTasks f)\<rparr>)"

record ReconcileRequest =
  rr_TenantID :: tenant
  rr_EntityID :: entityid
  rr_CurrentState :: string
  rr_Arm :: "ScheduledTask list"
  rr_Cancel :: "string list"

definition leftBehind :: "ReconcileRequest \<Rightarrow> ScheduledTask \<Rightarrow> bool" where
  "leftBehind req t \<longleftrightarrow>
     st_EntityID t = rr_EntityID req \<and> st_TenantID t = rr_TenantID req \<and>
     st_SourceState t \<noteq> rr_CurrentState req"

fun upsertAll :: "Ctx \<Rightarrow> ScheduledTask list \<Rightarrow> StoreFactory \<Rightarrow> unit result \<times> StoreFactory" where
  "upsertAll ctx [] f = (Ok (), f)"
| "upsertAll ctx (t # ts) f =
     (case scheduledTaskStore_Upsert ctx t f of
        (Inl e, f1) \<Rightarrow> (Err e, f1)
      | (Inr _, f1) \<Rightarrow> upsertAll ctx ts f1)"

fun deleteTasks :: "Ctx \<Rightarrow> string list \<Rightarrow> StoreFactory \<Rightarrow> unit result \<times> StoreFactory" where
  "deleteTasks ctx [] f = (Ok (), f)"
| "deleteTasks ctx (i # is) f =
     (case scheduledTaskStore_Delete ctx i f of
        (Inl e, f1) \<Rightarrow> (Err e, f1)
      | (Inr _, f1) \<Rightarrow> deleteTasks ctx is f1)"

definition scheduledTaskStore_ReconcileForEntity ::
  "Ctx \<Rightarrow> ReconcileRequest \<Rightarrow> StoreFactory \<Rightarrow> ScheduledTask list result \<times> StoreFactory" where
  "scheduledTaskStore_ReconcileForEntity ctx req f =
     (let cancelled = filter (leftBehind req) (map snd (sf_scheduledTasks f))
      in case upsertAll ctx (rr_Arm req) f of
           (Inl e, f1) \<Rightarrow> (Err e, f1)
         | (Inr _, f1) \<Rightarrow>
             (case deleteTasks ctx (map st_ID cancelled) f1 of
                (Inl e, f2) \<Rightarrow> (Err e, f2)
              | (Inr _, f2) \<Rightarrow>
                  (case deleteTasks ctx (rr_Cancel req) f2 of
                     (Inl e, f3) \<Rightarrow> (Err e, f3)
                   | (Inr _, f3) \<Rightarrow> (Ok cancelled, f3))))"

text \<open>The mutations one reconcile stages, in their order, and what the table then holds.\<close>

definition reconcileOps :: "ReconcileRequest \<Rightarrow> StoreFactory \<Rightarrow> scheduledTaskOp list" where
  "reconcileOps req f =
     map (\<lambda>t. scheduledTaskUpsert (st_ID t) t) (rr_Arm req) @
     map scheduledTaskDelete (map st_ID (filter (leftBehind req) (map snd (sf_scheduledTasks f)))) @
     map scheduledTaskDelete (rr_Cancel req)"

text \<open>Each row is filed under its own id, and no id twice.\<close>

definition tasks_ok :: "(string \<times> ScheduledTask) list \<Rightarrow> bool" where
  "tasks_ok ts \<longleftrightarrow> distinct (map fst ts) \<and> list_all (\<lambda>(i, t). st_ID t = i) ts"

fun op_ok :: "scheduledTaskOp \<Rightarrow> bool" where
  "op_ok (scheduledTaskUpsert i t) = (st_ID t = i)"
| "op_ok (scheduledTaskDelete i) = True"

definition mkTask :: "string \<Rightarrow> entityid \<Rightarrow> string \<Rightarrow> int \<Rightarrow> ScheduledTask" where
  "mkTask i eid st at =
     \<lparr>st_ID = i, st_TenantID = ''t'', st_Type = ''fire'', st_ScheduledTime = at, st_TimeoutMs = None,
      st_EntityID = eid, st_ModelName = ''m'', st_ModelVersion = 1, st_Transition = ''go'', st_SourceState = st,
      st_ArmedAt = 0, st_ArmedBy = sysPrincipal, st_RedispatchAfter = None, st_AttemptCount = 0\<rparr>"

definition movedToB :: ReconcileRequest where
  "movedToB =
     \<lparr>rr_TenantID = ''t'', rr_EntityID = ''e'', rr_CurrentState = ''B'', rr_Arm = [mkTask ''k2'' ''e'' ''B'' 20],
      rr_Cancel = []\<rparr>"

definition armedStore :: StoreFactory where
  "armedStore =
     snd (Begin ''x'' 6 (ctxOf ''t'' None)
       (snd (scheduledTaskStore_Upsert (ctxOf ''t'' None) (mkTask ''k1'' ''e'' ''A'' 10) NewStoreFactory)))"

definition closedStore :: StoreFactory where
  "closedStore = snd (Commit noClaims 7 8 (ctxOf ''t'' None) ''x'' armedStore)"

text \<open>Staging inside an open transaction: the operations are queued, nothing else changes.\<close>

definition stageOps :: "txid \<Rightarrow> scheduledTaskOp list \<Rightarrow> StoreFactory \<Rightarrow> StoreFactory" where
  "stageOps t ops f = fold (\<lambda>op. set_tm (stageScheduledTaskOp t op)) ops f"

lemma map_of_applyOp:
  "map_of (applyScheduledTaskOp op ts) i =
     (case op of
        scheduledTaskUpsert j t \<Rightarrow> if i = j then Some t else map_of ts i
      | scheduledTaskDelete j \<Rightarrow> if i = j then None else map_of ts i)"
  by (cases op) simp_all

lemma map_of_upserts:
  "map_of (fold applyScheduledTaskOp (map (\<lambda>t. scheduledTaskUpsert (st_ID t) t) arm) ts) i =
     (case map_of (rev (map (\<lambda>t. (st_ID t, t)) arm)) i of None \<Rightarrow> map_of ts i | Some t \<Rightarrow> Some t)"
  by (induction arm arbitrary: ts) (auto simp: map_of_applyOp map_add_def split: option.split)

lemma map_of_deletes:
  "map_of (fold applyScheduledTaskOp (map scheduledTaskDelete is) ts) i = (if i \<in> set is then None else map_of ts i)"
  by (induction "is" arbitrary: ts) (auto simp: map_of_applyOp)

lemma tasks_ok_apply:
  assumes "tasks_ok ts" "op_ok op" shows "tasks_ok (applyScheduledTaskOp op ts)"
  using assms
  by (cases op) (auto simp: tasks_ok_def list_all_iff dest: in_alist_updateD in_alist_deleteD)

lemma tasks_ok_fold:
  assumes "tasks_ok ts" "list_all op_ok ops" shows "tasks_ok (fold applyScheduledTaskOp ops ts)"
  using assms by (induction ops arbitrary: ts) (auto intro: tasks_ok_apply)

lemma tasks_ok_D:
  assumes "tasks_ok ts" shows "map_of ts i = Some t \<longleftrightarrow> st_ID t = i \<and> t \<in> snd ` set ts"
proof
  assume "map_of ts i = Some t"
  then have "(i, t) \<in> set ts" by (rule map_of_SomeD)
  then show "st_ID t = i \<and> t \<in> snd ` set ts" using assms by (force simp: tasks_ok_def list_all_iff)
next
  assume "st_ID t = i \<and> t \<in> snd ` set ts"
  then have "(i, t) \<in> set ts" using assms by (auto simp: tasks_ok_def list_all_iff)
  then show "map_of ts i = Some t" using assms by (simp add: tasks_ok_def)
qed

lemma stageOps_frame [simp]:
  "sf_scheduledTasks (stageOps t ops f) = sf_scheduledTasks f"
  "sf_txHeap (stageOps t ops f) = sf_txHeap f"
  "sf_entityData (stageOps t ops f) = sf_entityData f"
  by (induction ops arbitrary: f) (simp_all add: stageOps_def)

lemma stageOps_append: "stageOps t (ops @ ops') f = stageOps t ops' (stageOps t ops f)"
  by (simp add: stageOps_def)

lemma stageOps_queue:
  "or_nil (tm_scheduledTaskOps (sf_txManager (stageOps t ops f)) t) =
   or_nil (tm_scheduledTaskOps (sf_txManager f) t) @ ops"
proof (induction ops arbitrary: f)
  case (Cons op ops)
  have "stageOps t (op # ops) f = stageOps t ops (set_tm (stageScheduledTaskOp t op) f)"
    by (simp add: stageOps_def)
  then show ?case using Cons by (simp add: stageScheduledTaskOp_def set_tm_def)
qed (simp add: stageOps_def)

lemma GetTransaction_stageOps [simp]: "GetTransaction (stageOps t ops f) ctx = GetTransaction f ctx"
  by (simp add: GetTransaction_def split: option.split)

lemma stage_in_tx:
  assumes "GetTransaction f ctx = Some tx" "\<not> tx_RolledBack tx"
  shows "scheduledTaskStore_stage ctx op f = (Ok (), stageOps (tx_ID tx) [op] f)"
  using assms by (simp add: scheduledTaskStore_stage_def stageOps_def)

lemma upsertAll_in_tx:
  assumes "GetTransaction f ctx = Some tx" "\<not> tx_RolledBack tx"
  shows "upsertAll ctx ts f = (Ok (), stageOps (tx_ID tx) (map (\<lambda>t. scheduledTaskUpsert (st_ID t) t) ts) f)"
  using assms
proof (induction ts arbitrary: f)
  case (Cons t ts)
  show ?case
    using Cons.IH [of "stageOps (tx_ID tx) [scheduledTaskUpsert (st_ID t) t] f"] Cons.prems
    by (simp add: scheduledTaskStore_Upsert_def stage_in_tx stageOps_append [symmetric])
qed (simp add: stageOps_def)

lemma deleteTasks_in_tx:
  assumes "GetTransaction f ctx = Some tx" "\<not> tx_RolledBack tx"
  shows "deleteTasks ctx is f = (Ok (), stageOps (tx_ID tx) (map scheduledTaskDelete is) f)"
  using assms
proof (induction "is" arbitrary: f)
  case (Cons i "is")
  show ?case
    using Cons.IH [of "stageOps (tx_ID tx) [scheduledTaskDelete i] f"] Cons.prems
    by (simp add: scheduledTaskStore_Delete_def stage_in_tx Let_def stageOps_append [symmetric])
qed (simp add: stageOps_def)

lemma Reconcile_in_tx:
  assumes "GetTransaction f ctx = Some tx" "\<not> tx_RolledBack tx"
  shows "scheduledTaskStore_ReconcileForEntity ctx req f =
           (Ok (filter (leftBehind req) (map snd (sf_scheduledTasks f))), stageOps (tx_ID tx) (reconcileOps req f) f)"
  using assms
  by (simp add: scheduledTaskStore_ReconcileForEntity_def reconcileOps_def upsertAll_in_tx deleteTasks_in_tx Let_def
      stageOps_append)

lemma Commit_tasks:
  assumes "Commit cc now1 now2 ctx t f = (Ok (), g)"
  shows "sf_scheduledTasks g =
         fold applyScheduledTaskOp (or_nil (tm_scheduledTaskOps (sf_txManager f) t)) (sf_scheduledTasks f)"
proof -
  obtain tx f1 h where f1: "f1 = set_tm (\<lambda>m. m\<lparr>tm_committing := t # tm_committing m\<rparr>) f"
    "commit_body cc now1 now2 ctx t tx f1 = (Ok (), h)" "g = closeTx t h"
    using assms by (rule Commit_Ok)
  obtain cap computed st m where "commit_check t tx f1 = (Inr cap, f1)"
    "h = commit_record t tx st now2 (commit_flush ctx t tx cap computed st (f1\<lparr>sf_txManager := m\<rparr>))"
    using f1(2) by (rule commit_body_Ok)
  then show ?thesis using f1(1,3)
    by (auto simp: commit_flush_tasks closeTx_def commit_check_def Let_def set_tm_def split: if_splits)
qed

lemma map_of_reconcile:
  "map_of (fold applyScheduledTaskOp (reconcileOps req f) ts) i =
     (if i \<in> set (rr_Cancel req) \<union> st_ID ` {t \<in> snd ` set (sf_scheduledTasks f). leftBehind req t} then None
      else case map_of (rev (map (\<lambda>t. (st_ID t, t)) (rr_Arm req))) i of
             Some t \<Rightarrow> Some t
           | None \<Rightarrow> map_of ts i)"
  unfolding reconcileOps_def fold_append o_apply map_of_deletes map_of_upserts by auto

text \<open>
  C18. A reconcile inside a transaction is atomic with its commit. It reports the pending tasks of the
  entity that belong to a state the entity has left, and changes nothing that others can see. The
  commit then deletes exactly the reported and the cancelled ids, files every armed task (the last
  one for an id) and keeps the other rows; if the armed tasks belong to the current state, no task of
  the entity for another state is left.
\<close>

theorem reconcile_commits_atomically:
  assumes "GetTransaction f ctx = Some tx" "\<not> tx_RolledBack tx" "tasks_ok (sf_scheduledTasks f)"
    and "or_nil (tm_scheduledTaskOps (sf_txManager f) (tx_ID tx)) = []"
    and "scheduledTaskStore_ReconcileForEntity ctx req f = (r, f1)"
    and "Commit cc now1 now2 ctx' (tx_ID tx) f1 = (Ok (), g)"
    and "\<forall>t \<in> set (rr_Arm req). st_SourceState t = rr_CurrentState req"
  shows "r = Ok (filter (leftBehind req) (map snd (sf_scheduledTasks f))) \<and>
         sf_scheduledTasks f1 = sf_scheduledTasks f \<and>
         (\<forall>i. scheduledTaskStore_Get i g =
            (if i \<in> set (rr_Cancel req) \<union> st_ID ` {t \<in> snd ` set (sf_scheduledTasks f). leftBehind req t} then None
             else case map_of (rev (map (\<lambda>t. (st_ID t, t)) (rr_Arm req))) i of
                    Some t \<Rightarrow> Some t
                  | None \<Rightarrow> scheduledTaskStore_Get i f)) \<and>
         tasks_ok (sf_scheduledTasks g) \<and> (\<forall>i t. scheduledTaskStore_Get i g = Some t \<longrightarrow> \<not> leftBehind req t)"
proof -
  have r: "r = Ok (filter (leftBehind req) (map snd (sf_scheduledTasks f)))"
    "f1 = stageOps (tx_ID tx) (reconcileOps req f) f"
    using assms(5) Reconcile_in_tx [OF assms(1,2)] by simp_all
  have g: "sf_scheduledTasks g = fold applyScheduledTaskOp (reconcileOps req f) (sf_scheduledTasks f)"
    using Commit_tasks [OF assms(6)] assms(4) by (simp add: r(2) stageOps_queue)
  have look: "scheduledTaskStore_Get i g =
      (if i \<in> set (rr_Cancel req) \<union> st_ID ` {t \<in> snd ` set (sf_scheduledTasks f). leftBehind req t} then None
       else case map_of (rev (map (\<lambda>t. (st_ID t, t)) (rr_Arm req))) i of
              Some t \<Rightarrow> Some t
            | None \<Rightarrow> scheduledTaskStore_Get i f)" for i
    by (simp only: scheduledTaskStore_Get_def g map_of_reconcile)
  have ok: "tasks_ok (sf_scheduledTasks g)"
    unfolding g by (rule tasks_ok_fold [OF assms(3)]) (auto simp: reconcileOps_def list_all_iff)
  have "\<not> leftBehind req t" if got: "scheduledTaskStore_Get i g = Some t" for i t
  proof (cases "map_of (rev (map (\<lambda>t. (st_ID t, t)) (rr_Arm req))) i")
    case None
    with got look [of i] have "scheduledTaskStore_Get i f = Some t"
      "\<not> (\<exists>t' \<in> snd ` set (sf_scheduledTasks f). leftBehind req t' \<and> st_ID t' = i)"
      by (auto split: if_splits)
    then show ?thesis using tasks_ok_D [OF assms(3), of i t] by (auto simp: scheduledTaskStore_Get_def)
  next
    case (Some t')
    then have "t \<in> set (rr_Arm req)" using got look [of i] map_of_SomeD [OF Some] by (auto split: if_splits)
    then show ?thesis using assms(7) by (auto simp: leftBehind_def)
  qed
  then have "\<forall>i t. scheduledTaskStore_Get i g = Some t \<longrightarrow> \<not> leftBehind req t" by blast
  moreover have "sf_scheduledTasks f1 = sf_scheduledTasks f" by (simp add: r(2))
  ultimately show ?thesis using r(1) ok by (intro conjI allI look; blast)
qed

theorem reconcile_commits_atomically_witness:
  "(let g = snd (Commit noClaims 7 8 (ctxOf ''t'' None) ''x''
                  (snd (scheduledTaskStore_ReconcileForEntity (ctxOf ''t'' (Some ''x'')) movedToB armedStore)))
    in scheduledTaskStore_Get ''k1'' armedStore = Some (mkTask ''k1'' ''e'' ''A'' 10) \<and>
       scheduledTaskStore_Get ''k1'' g = None \<and> scheduledTaskStore_Get ''k2'' g = Some (mkTask ''k2'' ''e'' ''B'' 20))"
proof -
  let ?c = "ctxOf ''t'' (Some ''x'')"
  let ?f1 = "snd (scheduledTaskStore_ReconcileForEntity ?c movedToB armedStore)"
  let ?g = "snd (Commit noClaims 7 8 (ctxOf ''t'' None) ''x'' ?f1)"
  have run: "case (GetTransaction armedStore ?c, active_tx ?f1 ''x'') of
      (Some tx, Some tx') \<Rightarrow> \<not> tx_RolledBack tx \<and> tx_ID tx = ''x'' \<and> tx_TenantID tx' = ''t''
    | _ \<Rightarrow> False"
    "tasks_ok (sf_scheduledTasks armedStore)"
    "or_nil (tm_scheduledTaskOps (sf_txManager armedStore) ''x'') = []"
    "tm_committing (sf_txManager ?f1) = []" "tm_committedLog (sf_txManager ?f1) = []"
    "scheduledTaskStore_Get ''k1'' armedStore = Some (mkTask ''k1'' ''e'' ''A'' 10)"
    "map snd (sf_scheduledTasks armedStore) = [mkTask ''k1'' ''e'' ''A'' 10]"
    by code_simp+
  then obtain tx tx' where tx: "GetTransaction armedStore ?c = Some tx" "\<not> tx_RolledBack tx" "tx_ID tx = ''x''"
    "active_tx ?f1 ''x'' = Some tx'" "tx_TenantID tx' = ''t''"
    by (auto split: option.splits prod.splits)
  have c: "Commit noClaims 7 8 (ctxOf ''t'' None) (tx_ID tx) ?f1 = (Ok (), ?g)"
    using Commit_noClaims [OF tx(4) _ run(4,5), of "ctxOf ''t'' None" 7 8] tx(3,5)
    by (auto simp: ctxOf_def prod_eq_iff)
  have snds: "snd ` set (sf_scheduledTasks armedStore) = {mkTask ''k1'' ''e'' ''A'' 10}"
    using run(7) by (metis empty_set list.simps(15) set_map)
  have h: "or_nil (tm_scheduledTaskOps (sf_txManager armedStore) (tx_ID tx)) = []" using run(3) tx(3) by simp
  have arm: "\<forall>t \<in> set (rr_Arm movedToB). st_SourceState t = rr_CurrentState movedToB" by code_simp
  have look: "scheduledTaskStore_Get i ?g =
      (if i \<in> set (rr_Cancel movedToB) \<union> st_ID ` {t \<in> {mkTask ''k1'' ''e'' ''A'' 10}. leftBehind movedToB t} then None
       else case map_of (rev (map (\<lambda>t. (st_ID t, t)) (rr_Arm movedToB))) i of
              Some t \<Rightarrow> Some t
            | None \<Rightarrow> scheduledTaskStore_Get i armedStore)" for i
    using reconcile_commits_atomically [OF tx(1,2) run(2) h prod.collapse [symmetric] c arm] unfolding snds
    by (elim conjE allE) assumption
  let ?k = "mkTask ''k1'' ''e'' ''A'' 10"
  have "leftBehind movedToB ?k" by code_simp
  then have "{t \<in> {?k}. leftBehind movedToB t} = {?k}" by blast
  moreover have "st_ID ?k = ''k1''" "rr_Cancel movedToB = []" by code_simp+
  ultimately have gone: "set (rr_Cancel movedToB) \<union> st_ID ` {t \<in> {?k}. leftBehind movedToB t} = {''k1''}" by simp
  have "map_of (rev (map (\<lambda>t. (st_ID t, t)) (rr_Arm movedToB))) ''k2'' = Some (mkTask ''k2'' ''e'' ''B'' 20)"
    by code_simp
  then have "scheduledTaskStore_Get ''k1'' ?g = None" "scheduledTaskStore_Get ''k2'' ?g = Some (mkTask ''k2'' ''e'' ''B'' 20)"
    using look [of "''k1''"] look [of "''k2''"] unfolding gone by simp_all
  then show ?thesis unfolding Let_def using run(6) by (intro conjI)
qed

text \<open>
  C30. A scan returns due tasks in the order of their times, each row once, at most \<^verbatim>\<open>limit\<close> of them when a
  limit is given, and a due task it leaves out is no earlier than any task it returns.
\<close>

theorem ScanDue_correct:
  assumes "tasks_ok (sf_scheduledTasks f)"
  shows "let out = scheduledTaskStore_ScanDue nowMs limit f;
             due = {t \<in> snd ` set (sf_scheduledTasks f). taskDue nowMs t}
         in sorted (map st_ScheduledTime out) \<and> set out \<subseteq> due \<and> distinct (map st_ID out) \<and>
            (\<forall>t \<in> due - set out. \<forall>t' \<in> set out. st_ScheduledTime t' \<le> st_ScheduledTime t) \<and>
            int (length out) = (if 0 < limit then min limit (int (card due)) else int (card due))"
proof -
  let ?due = "filter (taskDue nowMs) (map snd (sf_scheduledTasks f))"
  let ?s = "sort_key st_ScheduledTime ?due"
  have "map st_ID (map snd (sf_scheduledTasks f)) = map fst (sf_scheduledTasks f)"
    using assms by (auto simp: tasks_ok_def list_all_iff)
  then have "distinct (map st_ID (map snd (sf_scheduledTasks f)))" using assms by (simp only: tasks_ok_def)
  then have "distinct (map st_ID ?due)" by (rule distinct_map_filter)
  then have dist: "distinct (map st_ID ?s)" "distinct ?s" by (simp_all add: distinct_map)
  have set_s: "set ?s = {t \<in> snd ` set (sf_scheduledTasks f). taskDue nowMs t}" by auto
  have len: "length ?s = card {t \<in> snd ` set (sf_scheduledTasks f). taskDue nowMs t}"
    using distinct_card [OF dist(2)] set_s by simp
  have later: "st_ScheduledTime t' \<le> st_ScheduledTime t"
    if "t \<in> set (drop n ?s)" "t' \<in> set (take n ?s)" for n t t'
  proof -
    have "sorted (map st_ScheduledTime (take n ?s @ drop n ?s))" by simp
    then show ?thesis using that unfolding map_append sorted_append by auto
  qed
  show ?thesis
  proof (cases "0 < limit \<and> limit < int (length ?s)")
    case True
    then have out: "scheduledTaskStore_ScanDue nowMs limit f = take (nat limit) ?s"
      by (simp add: scheduledTaskStore_ScanDue_def Let_def)
    have "set ?s - set (take (nat limit) ?s) \<subseteq> set (drop (nat limit) ?s)"
      using set_append [of "take (nat limit) ?s" "drop (nat limit) ?s"] by auto
    then have "\<forall>t \<in> set ?s - set (take (nat limit) ?s). \<forall>t' \<in> set (take (nat limit) ?s).
        st_ScheduledTime t' \<le> st_ScheduledTime t"
      using later by blast
    moreover have "sorted (map st_ScheduledTime (take (nat limit) ?s))"
      "distinct (map st_ID (take (nat limit) ?s))"
      using sorted_wrt_take [of "(\<le>)" "map st_ScheduledTime ?s"] distinct_take [OF dist(1)]
      by (simp_all add: take_map)
    moreover have "set (take (nat limit) ?s) \<subseteq> set ?s" by (rule set_take_subset)
    moreover have "int (length (take (nat limit) ?s)) = limit"
      unfolding length_take using True by linarith
    moreover have "min limit (int (length ?s)) = limit" using True by linarith
    ultimately show ?thesis using True unfolding out Let_def set_s [symmetric] distinct_card [OF dist(2)]
      by (intro conjI; simp only: if_True simp_thms)
  next
    case False
    then have out: "scheduledTaskStore_ScanDue nowMs limit f = ?s"
      by (auto simp: scheduledTaskStore_ScanDue_def Let_def)
    show ?thesis using False dist len unfolding out Let_def set_s [symmetric] by auto
  qed
qed

theorem ScanDue_correct_witness:
  "tasks_ok (sf_scheduledTasks armedStore) \<and>
   map st_ID (scheduledTaskStore_ScanDue 15 1 armedStore) = [''k1''] \<and>
   sorted (map st_ScheduledTime (scheduledTaskStore_ScanDue 15 1 armedStore))"
proof -
  have ok: "tasks_ok (sf_scheduledTasks armedStore)"
    "map st_ID (scheduledTaskStore_ScanDue 15 1 armedStore) = [''k1'']" by code_simp+
  show ?thesis using ScanDue_correct [OF ok(1), of 15 1] ok by (simp add: Let_def)
qed

text \<open>
  C39. Staging on a transaction that has ended is lost. \<^verbatim>\<open>stage\<close> only looks at \<^verbatim>\<open>RolledBack\<close>: on a
  committed transaction it reports success, the table does not change, and no later call can apply
  the operation, because neither \<^verbatim>\<open>Commit\<close> nor \<^verbatim>\<open>Rollback\<close> finds the transaction any more.
\<close>

theorem stage_after_commit_lost:
  assumes "GetTransaction f ctx = Some tx" "tx_Closed tx" "\<not> tx_RolledBack tx"
    and "tx_ID tx \<notin> set (tm_active (sf_txManager f))"
  shows "\<exists>f1. scheduledTaskStore_stage ctx op f = (Ok (), f1) \<and> sf_scheduledTasks f1 = sf_scheduledTasks f \<and>
           or_nil (tm_scheduledTaskOps (sf_txManager f1) (tx_ID tx)) =
             or_nil (tm_scheduledTaskOps (sf_txManager f) (tx_ID tx)) @ [op] \<and>
           Commit cc now1 now2 ctx' (tx_ID tx) f1 = (Err ErrTxNotFound, f1) \<and>
           Rollback ctx' (tx_ID tx) f1 = (Err ErrTxNotFound, f1)"
proof -
  have "active_tx (stageOps (tx_ID tx) [op] f) (tx_ID tx) = None"
    using assms(4) by (simp add: active_tx_def stageOps_def set_tm_def stageScheduledTaskOp_def)
  then show ?thesis
    using stage_in_tx [OF assms(1,3)]
    by (simp add: stageOps_queue Commit_def Rollback_def commit_enter_def rollback_enter_def)
qed

theorem stage_after_commit_lost_witness:
  "\<exists>f1. scheduledTaskStore_stage (ctxOf ''t'' (Some ''x'')) (scheduledTaskDelete ''k1'') closedStore = (Ok (), f1) \<and>
     scheduledTaskStore_Get ''k1'' f1 = Some (mkTask ''k1'' ''e'' ''A'' 10) \<and>
     Commit noClaims 9 9 (ctxOf ''t'' None) ''x'' f1 = (Err ErrTxNotFound, f1)"
proof -
  let ?c = "ctxOf ''t'' (Some ''x'')"
  have run: "case GetTransaction closedStore ?c of
      None \<Rightarrow> False
    | Some tx \<Rightarrow> tx_Closed tx \<and> \<not> tx_RolledBack tx \<and> tx_ID tx = ''x''"
    "''x'' \<notin> set (tm_active (sf_txManager closedStore))"
    "scheduledTaskStore_Get ''k1'' closedStore = Some (mkTask ''k1'' ''e'' ''A'' 10)"
    by code_simp+
  then obtain tx where tx: "GetTransaction closedStore ?c = Some tx" "tx_Closed tx" "\<not> tx_RolledBack tx"
    "tx_ID tx = ''x''" by (auto split: option.splits)
  show ?thesis
    using stage_after_commit_lost [OF tx(1-3), of "scheduledTaskDelete ''k1''" noClaims 9 9 "ctxOf ''t'' None"]
      run(2,3) tx(4)
    by (auto simp: scheduledTaskStore_Get_def)
qed

end
