(* ===== verification/SearchJobStore.thy ===== *)
theory SearchJobStore
  imports MemFactory "HOL-Library.Product_Lexorder"
begin

text \<open>
  The store of asynchronous search jobs (\<^verbatim>\<open>plugins/memory/search_store.go\<close>). Workers that run a job
  hold a claim on it, the job's epoch; the reaper takes jobs whose worker has stopped sending
  heartbeats by raising the epoch, and every write of a worker is fenced by the epoch it holds.

  \<^verbatim>\<open>data\<close>, a map of maps, is one association list keyed by tenant and job id; its order stands for one
  iteration of the maps. Every method holds \<^verbatim>\<open>mu\<close> for its whole body except \<^verbatim>\<open>SaveResults\<close>, which takes
  it once per chunk: there \<open>env k\<close> is whatever the other goroutines do to the store before the
  \<open>k\<close>-th acquisition, and \<open>c_Err ctx 0 i\<close> is the answer of the poll before id \<open>i\<close>. The clock reading of
  a method is its argument \<open>now\<close>. Epochs and claim counters stay far below \<open>2^63\<close> and are integers.
\<close>

record SearchJob =
  sj_ID :: string
  sj_TenantID :: tenant
  sj_Status :: string
  sj_ModelRef :: ModelRef
  sj_Condition :: bytes
  sj_SearchOpts :: bytes
  sj_PointInTime :: time
  sj_CreateTime :: time
  sj_FinishTime :: "time option"
  sj_HeartbeatTime :: "time option"
  sj_ResultCount :: int
  sj_Error :: string
  sj_CalcTimeMs :: int
  sj_Epoch :: int
  sj_StaleClaims :: int

record searchJobEntry =
  sje_job :: SearchJob
  sje_entityIDs :: "string list"
  sje_released :: bool

type_synonym jobKey = "tenant \<times> string"
type_synonym searchData = "(jobKey \<times> searchJobEntry) list"

definition terminalStatuses :: "string list" where
  "terminalStatuses = [''SUCCESSFUL'', ''FAILED'', ''CANCELLED'']"

definition CreateJob :: "Ctx \<Rightarrow> SearchJob \<Rightarrow> searchData \<Rightarrow> unit result \<times> searchData" where
  "CreateJob ctx job s =
     (case resolveTenant ctx of
        Inl e \<Rightarrow> (Err e, s)
      | Inr tid \<Rightarrow>
          (Ok (), AList.update (tid, sj_ID job)
                    \<lparr>sje_job = job\<lparr>sj_Epoch := 1, sj_StaleClaims := 0\<rparr>, sje_entityIDs = [], sje_released = False\<rparr> s))"

definition findEntryLocked :: "tenant \<Rightarrow> string \<Rightarrow> searchData \<Rightarrow> searchJobEntry result" where
  "findEntryLocked tid jobID s =
     (case map_of s (tid, jobID) of None \<Rightarrow> Err ErrNotFound | Some entry \<Rightarrow> Ok entry)"

definition GetJob :: "Ctx \<Rightarrow> string \<Rightarrow> searchData \<Rightarrow> SearchJob result" where
  "GetJob ctx jobID s =
     (case resolveTenant ctx of
        Inl e \<Rightarrow> Err e
      | Inr tid \<Rightarrow> map_sum (\<lambda>e. e) sje_job (findEntryLocked tid jobID s))"

definition guardWrite :: "tenant \<Rightarrow> string \<Rightarrow> int \<Rightarrow> searchData \<Rightarrow> searchJobEntry result" where
  "guardWrite tid jobID epoch s =
     (case findEntryLocked tid jobID s of
        Inl e \<Rightarrow> Err e
      | Inr entry \<Rightarrow>
          if sj_Status (sje_job entry) \<in> set terminalStatuses then Err ErrAlreadyTerminal
          else if epoch \<noteq> sj_Epoch (sje_job entry) then Err ErrStaleClaim
          else Ok entry)"

text \<open>The body the fenced writers share: the tenant, the lock, the guard, the update of the entry.\<close>

definition fencedWrite ::
  "Ctx \<Rightarrow> string \<Rightarrow> int \<Rightarrow> (searchJobEntry \<Rightarrow> searchJobEntry) \<Rightarrow> searchData \<Rightarrow> unit result \<times> searchData" where
  "fencedWrite ctx jobID epoch upd s =
     (case resolveTenant ctx of
        Inl e \<Rightarrow> (Err e, s)
      | Inr tid \<Rightarrow>
          (case guardWrite tid jobID epoch s of
             Inl e \<Rightarrow> (Err e, s)
           | Inr entry \<Rightarrow> (Ok (), AList.update (tid, jobID) (upd entry) s)))"

definition UpdateJobStatus ::
  "Ctx \<Rightarrow> string \<Rightarrow> int \<Rightarrow> string \<Rightarrow> int \<Rightarrow> string \<Rightarrow> time \<Rightarrow> int \<Rightarrow> searchData \<Rightarrow> unit result \<times> searchData" where
  "UpdateJobStatus ctx jobID epoch status resultCount errMsg finishTime calcTimeMs =
     fencedWrite ctx jobID epoch (\<lambda>entry. entry\<lparr>sje_job := (sje_job entry)
       \<lparr>sj_Status := status, sj_ResultCount := resultCount, sj_Error := errMsg,
        sj_FinishTime := (if finishTime = 0 then None else Some finishTime), sj_CalcTimeMs := calcTimeMs\<rparr>\<rparr>)"

definition saveResultsChunkSize :: nat where
  "saveResultsChunkSize = 1024"

definition guardAndAppend ::
  "tenant \<Rightarrow> string \<Rightarrow> int \<Rightarrow> string list \<Rightarrow> searchData \<Rightarrow> unit result \<times> searchData" where
  "guardAndAppend tid jobID epoch chunk s =
     (case guardWrite tid jobID epoch s of
        Inl e \<Rightarrow> (Err e, s)
      | Inr entry \<Rightarrow>
          (Ok (), if chunk = [] then s
                  else AList.update (tid, jobID) (entry\<lparr>sje_entityIDs := sje_entityIDs entry @ chunk\<rparr>) s))"

fun saveLoop ::
  "(nat \<Rightarrow> searchData \<Rightarrow> searchData) \<Rightarrow> (nat \<Rightarrow> bool) \<Rightarrow> tenant \<Rightarrow> string \<Rightarrow> int \<Rightarrow> nat \<Rightarrow> nat
   \<Rightarrow> string list \<Rightarrow> string list \<Rightarrow> searchData \<Rightarrow> unit result \<times> searchData" where
  "saveLoop env err tid jobID epoch i k buf [] s =
     (if err i then (Err ErrContext, s) else guardAndAppend tid jobID epoch buf (env k s))"
| "saveLoop env err tid jobID epoch i k buf (eid # ids) s =
     (if err i then (Err ErrContext, s)
      else if saveResultsChunkSize \<le> length (buf @ [eid]) then
        (case guardAndAppend tid jobID epoch (buf @ [eid]) (env k s) of
           (Inl e, s1) \<Rightarrow> (Err e, s1)
         | (Inr _, s1) \<Rightarrow> saveLoop env err tid jobID epoch (i + 1) (k + 1) [] ids s1)
      else saveLoop env err tid jobID epoch (i + 1) k (buf @ [eid]) ids s)"

definition SaveResults ::
  "(nat \<Rightarrow> searchData \<Rightarrow> searchData) \<Rightarrow> Ctx \<Rightarrow> string \<Rightarrow> int \<Rightarrow> string list \<Rightarrow> searchData
   \<Rightarrow> unit result \<times> searchData" where
  "SaveResults env ctx jobID epoch entityIDs s =
     (case resolveTenant ctx of
        Inl e \<Rightarrow> (Err e, s)
      | Inr tid \<Rightarrow>
          (case guardAndAppend tid jobID epoch [] (env 0 s) of
             (Inl e, s1) \<Rightarrow> (Err e, s1)
           | (Inr _, s1) \<Rightarrow> saveLoop env (c_Err ctx 0) tid jobID epoch 0 1 [] entityIDs s1))"

text \<open>
  \<^verbatim>\<open>offset + limit\<close> is a 64-bit sum. A negative \<^verbatim>\<open>end - offset\<close> is the run-time panic of \<^verbatim>\<open>make\<close>.
\<close>

definition GetResultIDs ::
  "Ctx \<Rightarrow> string \<Rightarrow> int \<Rightarrow> int \<Rightarrow> searchData \<Rightarrow> (string list \<times> int) result" where
  "GetResultIDs ctx jobID offset limit s =
     (if offset < 0 \<or> limit < 1 then Err (ErrMsg ''offset must be >= 0 and limit must be >= 1'')
      else case resolveTenant ctx of
             Inl e \<Rightarrow> Err e
           | Inr tid \<Rightarrow>
               (case findEntryLocked tid jobID s of
                  Inl e \<Rightarrow> Err e
                | Inr entry \<Rightarrow>
                    let total = int (length (sje_entityIDs entry))
                    in if offset \<ge> total then Ok ([], total)
                       else let e0 = wrap64 (offset + limit);
                                e = (if e0 > total then total else e0)
                            in if e - offset < 0 then Err (Panic ''makeslice: len out of range'')
                               else Ok (take (nat (e - offset)) (drop (nat offset) (sje_entityIDs entry)), total)))"

definition DeleteJob :: "Ctx \<Rightarrow> string \<Rightarrow> searchData \<Rightarrow> unit result \<times> searchData" where
  "DeleteJob ctx jobID s =
     (case resolveTenant ctx of
        Inl e \<Rightarrow> (Err e, s)
      | Inr tid \<Rightarrow> (Ok (), AList.delete (tid, jobID) s))"

definition Cancel :: "Ctx \<Rightarrow> string \<Rightarrow> time \<Rightarrow> searchData \<Rightarrow> unit result \<times> searchData" where
  "Cancel ctx jobID finishTime s =
     (case resolveTenant ctx of
        Inl e \<Rightarrow> (Err e, s)
      | Inr tid \<Rightarrow>
          (case findEntryLocked tid jobID s of
             Inl e \<Rightarrow> (Err e, s)
           | Inr entry \<Rightarrow>
               if sj_Status (sje_job entry) \<in> set terminalStatuses then (Ok (), s)
               else (Ok (), AList.update (tid, jobID)
                       (entry\<lparr>sje_job := (sje_job entry)\<lparr>sj_Status := ''CANCELLED'', sj_FinishTime := Some finishTime\<rparr>\<rparr>) s)))"

definition Heartbeat :: "time \<Rightarrow> Ctx \<Rightarrow> string \<Rightarrow> int \<Rightarrow> searchData \<Rightarrow> unit result \<times> searchData" where
  "Heartbeat now ctx jobID epoch =
     fencedWrite ctx jobID epoch (\<lambda>entry. entry\<lparr>sje_job := (sje_job entry)\<lparr>sj_HeartbeatTime := Some now\<rparr>\<rparr>)"

definition staleBaseline :: "SearchJob \<Rightarrow> time" where
  "staleBaseline job = (case sj_HeartbeatTime job of None \<Rightarrow> sj_CreateTime job | Some hb \<Rightarrow> hb)"

definition claimable :: "time \<Rightarrow> searchJobEntry \<Rightarrow> bool" where
  "claimable cutoff entry \<longleftrightarrow>
     sj_Status (sje_job entry) = ''RUNNING'' \<and> (sje_released entry \<or> staleBaseline (sje_job entry) < cutoff)"

definition claimOrder :: "jobKey \<times> searchJobEntry \<Rightarrow> time \<times> string" where
  "claimOrder p = (sj_CreateTime (sje_job (snd p)), sj_ID (sje_job (snd p)))"

definition claimEntry :: "time \<Rightarrow> searchJobEntry \<Rightarrow> searchJobEntry" where
  "claimEntry now entry =
     entry\<lparr>sje_job := (sje_job entry)
             \<lparr>sj_Epoch := sj_Epoch (sje_job entry) + 1,
              sj_StaleClaims := (if sje_released entry then sj_StaleClaims (sje_job entry)
                                 else sj_StaleClaims (sje_job entry) + 1),
              sj_HeartbeatTime := Some now\<rparr>,
           sje_released := False\<rparr>"

definition claimCandidates :: "time \<Rightarrow> int \<Rightarrow> searchData \<Rightarrow> searchData" where
  "claimCandidates cutoff limit s = take (nat limit) (sort_key claimOrder (filter (claimable cutoff \<circ> snd) s))"

definition ClaimStale ::
  "time \<Rightarrow> int \<Rightarrow> int \<Rightarrow> searchData \<Rightarrow> (jobKey \<times> SearchJob) list result \<times> searchData" where
  "ClaimStale now staleAfter limit s =
     (if limit < 1 then (Err (ErrMsg ''limit must be >= 1''), s)
      else let cands = claimCandidates (now - staleAfter) limit s
           in (Ok (map (\<lambda>(k, entry). (k, sje_job (claimEntry now entry))) cands),
               fold (\<lambda>(k, entry). AList.update k (claimEntry now entry)) cands s))"

definition ClearResults :: "Ctx \<Rightarrow> string \<Rightarrow> searchData \<Rightarrow> unit result \<times> searchData" where
  "ClearResults ctx jobID s =
     (case resolveTenant ctx of
        Inl e \<Rightarrow> (Err e, s)
      | Inr tid \<Rightarrow>
          (case findEntryLocked tid jobID s of
             Inl e \<Rightarrow> (Ok (), s)
           | Inr entry \<Rightarrow> (Ok (), AList.update (tid, jobID) (entry\<lparr>sje_entityIDs := []\<rparr>) s)))"

definition Release :: "Ctx \<Rightarrow> string \<Rightarrow> int \<Rightarrow> searchData \<Rightarrow> unit result \<times> searchData" where
  "Release ctx jobID epoch = fencedWrite ctx jobID epoch (\<lambda>entry. entry\<lparr>sje_released := True\<rparr>)"

definition reapable :: "time \<Rightarrow> searchJobEntry \<Rightarrow> bool" where
  "reapable cutoff entry \<longleftrightarrow>
     sj_Status (sje_job entry) \<noteq> ''RUNNING'' \<and>
     (case sj_FinishTime (sje_job entry) of None \<Rightarrow> False | Some ft \<Rightarrow> ft < cutoff)"

definition ReapExpired :: "time \<Rightarrow> int \<Rightarrow> searchData \<Rightarrow> nat \<times> searchData" where
  "ReapExpired now ttl s =
     (let dead = filter (reapable (now - ttl) \<circ> snd) s
      in (length dead, filter (\<lambda>p. \<not> reapable (now - ttl) (snd p)) s))"

text \<open>The operations as one vocabulary; a saved chunk is one step, because \<^verbatim>\<open>SaveResults\<close> locks per chunk.\<close>

datatype searchOp =
    SCreate Ctx SearchJob
  | SUpdate Ctx string int string int string time int
  | SChunk tenant string int "string list"
  | SDelete Ctx string
  | SCancel Ctx string time
  | SHeartbeat time Ctx string int
  | SClaim time int int
  | SClear Ctx string
  | SRelease Ctx string int
  | SReap time int

fun runSearchOp :: "searchOp \<Rightarrow> searchData \<Rightarrow> searchData" where
  "runSearchOp (SCreate ctx job) s = snd (CreateJob ctx job s)"
| "runSearchOp (SUpdate ctx j ep st n msg ft ms) s = snd (UpdateJobStatus ctx j ep st n msg ft ms s)"
| "runSearchOp (SChunk tid j ep chunk) s = snd (guardAndAppend tid j ep chunk s)"
| "runSearchOp (SDelete ctx j) s = snd (DeleteJob ctx j s)"
| "runSearchOp (SCancel ctx j ft) s = snd (Cancel ctx j ft s)"
| "runSearchOp (SHeartbeat now ctx j ep) s = snd (Heartbeat now ctx j ep s)"
| "runSearchOp (SClaim now after limit) s = snd (ClaimStale now after limit s)"
| "runSearchOp (SClear ctx j) s = snd (ClearResults ctx j s)"
| "runSearchOp (SRelease ctx j ep) s = snd (Release ctx j ep s)"
| "runSearchOp (SReap now ttl) s = snd (ReapExpired now ttl s)"

text \<open>The claims an operation hands out: a new job's first epoch, and what \<^verbatim>\<open>ClaimStale\<close> returns.\<close>

fun grantedBy :: "searchOp \<Rightarrow> searchData \<Rightarrow> (jobKey \<times> int) list" where
  "grantedBy (SClaim now after limit) s =
     (case fst (ClaimStale now after limit s) of
        Inl _ \<Rightarrow> []
      | Inr jobs \<Rightarrow> map (\<lambda>(k, job). (k, sj_Epoch job)) jobs)"
| "grantedBy _ s = []"

fun creates :: "searchOp \<Rightarrow> jobKey \<Rightarrow> bool" where
  "creates (SCreate ctx job) k = (case resolveTenant ctx of Inl _ \<Rightarrow> False | Inr tid \<Rightarrow> k = (tid, sj_ID job))"
| "creates _ k = False"

definition epochOf :: "searchData \<Rightarrow> jobKey \<Rightarrow> int option" where
  "epochOf s k = map_option (sj_Epoch \<circ> sje_job) (map_of s k)"

fun grants :: "searchOp list \<Rightarrow> searchData \<Rightarrow> (jobKey \<times> int) list" where
  "grants [] s = []"
| "grants (op # ops) s = grantedBy op s @ grants ops (runSearchOp op s)"

text \<open>Each key once, and each job filed under its own id.\<close>

definition search_ok :: "searchData \<Rightarrow> bool" where
  "search_ok s \<longleftrightarrow> distinct (map fst s) \<and> list_all (\<lambda>(k, entry). sj_ID (sje_job entry) = snd k) s"

text \<open>What a step does to one entry: it keeps the job's id and epoch, or it claims the job.\<close>

definition keeps :: "searchData \<Rightarrow> searchData \<Rightarrow> jobKey \<Rightarrow> bool" where
  "keeps s s' k \<longleftrightarrow>
     (\<forall>entry'. map_of s' k = Some entry' \<longrightarrow>
        (\<exists>entry. map_of s k = Some entry \<and> sj_ID (sje_job entry') = sj_ID (sje_job entry) \<and>
           sj_Epoch (sje_job entry) \<le> sj_Epoch (sje_job entry')))"

definition withoutOthers :: "nat \<Rightarrow> searchData \<Rightarrow> searchData" where
  "withoutOthers k s = s"

definition mkJob :: "string \<Rightarrow> time \<Rightarrow> SearchJob" where
  "mkJob j created =
     \<lparr>sj_ID = j, sj_TenantID = ''t'', sj_Status = ''RUNNING'', sj_ModelRef = \<lparr>EntityName = ''m'', ModelVersion = ''1''\<rparr>,
      sj_Condition = [], sj_SearchOpts = [], sj_PointInTime = 0, sj_CreateTime = created, sj_FinishTime = None,
      sj_HeartbeatTime = None, sj_ResultCount = 0, sj_Error = [], sj_CalcTimeMs = 0, sj_Epoch = 0, sj_StaleClaims = 0\<rparr>"

definition userCtx :: Ctx where
  "userCtx =
     \<lparr>c_User = Some ''t'', c_Tx = None, c_UniqueKeys = [],
      c_Attribution = \<lparr>Attributed = \<lparr>p_ID = [], p_Kind = []\<rparr>, Executor = \<lparr>p_ID = [], p_Kind = []\<rparr>\<rparr>,
      c_Origin = \<lparr>p_ID = [], p_Kind = []\<rparr>, c_Err = (\<lambda>_ _. False)\<rparr>"

definition twoJobs :: searchData where
  "twoJobs = fold runSearchOp [SCreate userCtx (mkJob ''b'' 5), SCreate userCtx (mkJob ''a'' 7)] []"

text \<open>
  The contract of an epoch-fenced store: a step that does not create a key keeps or raises its epoch
  or removes it, and a grant is for the epoch the step has just raised the key to.
\<close>

locale epoch_fence =
  fixes epoch :: "'s \<Rightarrow> 'k \<Rightarrow> int option"
    and step :: "'op \<Rightarrow> 's \<Rightarrow> 's"
    and granted :: "'op \<Rightarrow> 's \<Rightarrow> ('k \<times> int) list"
    and creating :: "'op \<Rightarrow> 'k \<Rightarrow> bool"
    and ok :: "'s \<Rightarrow> bool"
  assumes ok_step: "ok s \<Longrightarrow> ok (step op s)"
    and step_raises: "ok s \<Longrightarrow> \<not> creating op k \<Longrightarrow> epoch (step op s) k = Some e' \<Longrightarrow>
                        \<exists>e. epoch s k = Some e \<and> e \<le> e'"
    and grant_raises: "ok s \<Longrightarrow> (k, e') \<in> set (granted op s) \<Longrightarrow>
                        epoch (step op s) k = Some e' \<and> (\<exists>e. epoch s k = Some e \<and> e < e')"
    and grant_once: "ok s \<Longrightarrow> distinct (map fst (granted op s))"
begin

fun run :: "'op list \<Rightarrow> 's \<Rightarrow> 's" where
  "run [] s = s"
| "run (op # ops) s = run ops (step op s)"

fun allGrants :: "'op list \<Rightarrow> 's \<Rightarrow> ('k \<times> int) list" where
  "allGrants [] s = []"
| "allGrants (op # ops) s = granted op s @ allGrants ops (step op s)"

lemma ok_run: "ok s \<Longrightarrow> ok (run ops s)"
  by (induction ops arbitrary: s) (simp_all add: ok_step)

lemma run_raises:
  assumes "ok s" "\<forall>op \<in> set ops. \<not> creating op k" "epoch (run ops s) k = Some e'"
  shows "\<exists>e. epoch s k = Some e \<and> e \<le> e'"
  using assms
proof (induction ops arbitrary: s)
  case (Cons op ops)
  then obtain e where e: "epoch (step op s) k = Some e" "e \<le> e'" using ok_step [of s op] by fastforce
  moreover have "\<exists>d. epoch s k = Some d \<and> d \<le> e" by (rule step_raises [OF _ _ e(1)]) (use Cons.prems in auto)
  ultimately show ?case by (meson order_trans)
qed simp

lemma grants_above:
  assumes "ok s" "\<forall>op \<in> set ops. \<not> creating op k" "(k, e') \<in> set (allGrants ops s)"
  shows "\<exists>e. epoch s k = Some e \<and> e < e'"
  using assms
proof (induction ops arbitrary: s)
  case (Cons op ops)
  show ?case
  proof (cases "(k, e') \<in> set (granted op s)")
    case True
    then show ?thesis using grant_raises Cons.prems(1) by blast
  next
    case False
    then have "(k, e') \<in> set (allGrants ops (step op s))" using Cons.prems(3) by simp
    then obtain e where e: "epoch (step op s) k = Some e" "e < e'"
      using Cons.IH [of "step op s"] Cons.prems ok_step by auto
    have "\<exists>d. epoch s k = Some d \<and> d \<le> e" by (rule step_raises [OF _ _ e(1)]) (use Cons.prems in auto)
    then show ?thesis using e(2) by (meson order_le_less_trans)
  qed
qed simp

lemma grants_increase:
  assumes "ok s" "\<forall>op \<in> set ops. \<not> creating op k"
  shows "sorted_wrt (<) (map snd (filter (\<lambda>g. fst g = k) (allGrants ops s)))"
  using assms
proof (induction ops arbitrary: s)
  case (Cons op ops)
  let ?now = "filter (\<lambda>g. fst g = k) (granted op s)"
  have "length ?now \<le> 1"
  proof -
    have "distinct (map fst ?now)" using grant_once [OF Cons.prems(1)] by (rule distinct_map_filter)
    then have "length ?now = card (set (map fst ?now))" by (metis distinct_card length_map)
    moreover have "card (set (map fst ?now)) \<le> card {k}" by (rule card_mono) auto
    ultimately show ?thesis by simp
  qed
  then have now: "sorted_wrt (<) (map snd ?now)" by (cases ?now) auto
  have later: "sorted_wrt (<) (map snd (filter (\<lambda>g. fst g = k) (allGrants ops (step op s))))"
    using Cons.IH Cons.prems ok_step by simp
  have "e < e'" if "(k, e) \<in> set (granted op s)" "(k, e') \<in> set (allGrants ops (step op s))" for e e'
  proof -
    have "epoch (step op s) k = Some e" using grant_raises [OF Cons.prems(1) that(1)] by simp
    then show ?thesis using grants_above [OF ok_step [OF Cons.prems(1)] _ that(2)] Cons.prems(2) by auto
  qed
  then show ?case using now later by (auto simp: sorted_wrt_append)
qed simp

end

lemma search_ok_D: "search_ok s \<Longrightarrow> map_of s k = Some entry \<Longrightarrow> sj_ID (sje_job entry) = snd k"
  by (auto simp: search_ok_def list_all_iff dest: map_of_SomeD)

lemma search_ok_update:
  assumes "search_ok s" "sj_ID (sje_job entry) = snd k" shows "search_ok (AList.update k entry s)"
  using assms by (auto simp: search_ok_def list_all_iff dest: in_alist_updateD)

lemma guardWrite_Ok:
  "guardWrite tid jobID epoch s = Inr entry \<longleftrightarrow>
     map_of s (tid, jobID) = Some entry \<and> sj_Status (sje_job entry) \<notin> set terminalStatuses \<and>
     epoch = sj_Epoch (sje_job entry)"
  by (auto simp: guardWrite_def findEntryLocked_def split: option.split)

lemma fencedWrite_cases:
  obtains (refused) err where "fencedWrite ctx jobID epoch upd s = (Err err, s)"
  | (written) tid entry where "resolveTenant ctx = Inr tid" "guardWrite tid jobID epoch s = Inr entry"
      "fencedWrite ctx jobID epoch upd s = (Ok (), AList.update (tid, jobID) (upd entry) s)"
  by (cases "resolveTenant ctx"; cases "guardWrite (projr (resolveTenant ctx)) jobID epoch s")
     (auto simp: fencedWrite_def)

lemma keeps_refl [simp]: "keeps s s k"
  by (simp add: keeps_def)

lemma keeps_update:
  assumes "map_of s k' = Some entry" "sj_ID (sje_job entry') = sj_ID (sje_job entry)"
    and "sj_Epoch (sje_job entry) \<le> sj_Epoch (sje_job entry')"
  shows "keeps s (AList.update k' entry' s) k"
  using assms by (auto simp: keeps_def)

lemma keeps_fencedWrite:
  assumes "\<And>entry. sj_ID (sje_job (upd entry)) = sj_ID (sje_job entry)"
    "\<And>entry. sj_Epoch (sje_job (upd entry)) = sj_Epoch (sje_job entry)"
  shows "keeps s (snd (fencedWrite ctx jobID epoch upd s)) k"
  by (rule fencedWrite_cases [of ctx jobID epoch upd s])
     (auto simp: guardWrite_Ok assms intro: keeps_update)

lemma map_of_claims:
  assumes "distinct (map fst cands)"
  shows "map_of (fold (\<lambda>(k, entry). AList.update k (g entry)) cands s) k' =
           (case map_of cands k' of None \<Rightarrow> map_of s k' | Some entry \<Rightarrow> Some (g entry))"
  using assms
proof (induction cands arbitrary: s)
  case (Cons p cands)
  then have "map_of cands (fst p) = None" by (simp add: map_of_eq_None_iff)
  then show ?case using Cons by (auto split: prod.splits option.splits)
qed simp

lemma claimCandidates_sub:
  assumes "distinct (map fst s)"
  shows "distinct (map fst (claimCandidates cutoff limit s))"
    "map_of (claimCandidates cutoff limit s) k = Some entry \<Longrightarrow> map_of s k = Some entry \<and> claimable cutoff entry"
proof -
  let ?c = "sort_key claimOrder (filter (claimable cutoff \<circ> snd) s)"
  have "distinct (map fst (filter (claimable cutoff \<circ> snd) s))" by (rule distinct_map_filter [OF assms])
  then have d: "distinct (map fst ?c)" by (simp add: distinct_map)
  then show "distinct (map fst (claimCandidates cutoff limit s))"
    by (simp add: claimCandidates_def take_map [symmetric])
  assume "map_of (claimCandidates cutoff limit s) k = Some entry"
  then have "(k, entry) \<in> set (take (nat limit) ?c)" by (simp add: claimCandidates_def map_of_SomeD)
  then have "(k, entry) \<in> set ?c" by (rule in_set_takeD)
  then show "map_of s k = Some entry \<and> claimable cutoff entry" using assms by auto
qed

lemma map_of_ClaimStale:
  assumes "distinct (map fst s)"
  shows "map_of (snd (ClaimStale now after limit s)) k =
           (if limit < 1 then map_of s k
            else case map_of (claimCandidates (now - after) limit s) k of
                   None \<Rightarrow> map_of s k
                 | Some entry \<Rightarrow> Some (claimEntry now entry))"
  using map_of_claims [OF claimCandidates_sub(1) [OF assms, of "now - after" limit], of "claimEntry now" s k]
  by (simp add: ClaimStale_def Let_def)

lemma claimEntry_sel [simp]:
  "sj_ID (sje_job (claimEntry now entry)) = sj_ID (sje_job entry)"
  "sj_Epoch (sje_job (claimEntry now entry)) = sj_Epoch (sje_job entry) + 1"
  "sj_HeartbeatTime (sje_job (claimEntry now entry)) = Some now"
  "sj_Status (sje_job (claimEntry now entry)) = sj_Status (sje_job entry)"
  "sje_released (claimEntry now entry) = False"
  "sje_entityIDs (claimEntry now entry) = sje_entityIDs entry"
  by (simp_all add: claimEntry_def)

lemma keeps_ClaimStale:
  assumes "distinct (map fst s)" shows "keeps s (snd (ClaimStale now after limit s)) k"
proof (cases "map_of (claimCandidates (now - after) limit s) k")
  case None
  then show ?thesis by (simp only: keeps_def map_of_ClaimStale [OF assms] option.case if_cancel) blast
next
  case (Some entry)
  then show ?thesis
    using claimCandidates_sub(2) [OF assms Some] by (simp add: keeps_def map_of_ClaimStale [OF assms] del: map_of_eq_Some_iff)
qed

lemma map_of_ReapExpired:
  assumes "distinct (map fst s)"
  shows "map_of (snd (ReapExpired now ttl s)) k =
           (case map_of s k of
              None \<Rightarrow> None
            | Some entry \<Rightarrow> if reapable (now - ttl) entry then None else Some entry)"
proof -
  let ?r = "filter (\<lambda>p. \<not> reapable (now - ttl) (snd p)) s"
  have "distinct (map fst ?r)" by (rule distinct_map_filter [OF assms])
  then have iff: "map_of ?r k = Some entry \<longleftrightarrow> map_of s k = Some entry \<and> \<not> reapable (now - ttl) entry" for entry
    using assms by (simp add: map_of_eq_Some_iff)
  have "map_of ?r k = (case map_of s k of
      None \<Rightarrow> None
    | Some entry \<Rightarrow> if reapable (now - ttl) entry then None else Some entry)"
  proof (cases "map_of s k")
    case None
    then show ?thesis using iff by (metis not_Some_eq option.case(1))
  next
    case (Some entry)
    show ?thesis
    proof (cases "reapable (now - ttl) entry")
      case True
      then have "map_of ?r k \<noteq> Some x" for x using iff [of x] Some by auto
      then have "map_of ?r k = None" by (cases "map_of ?r k") blast+
      then show ?thesis using True Some by simp
    next
      case False
      then have "map_of ?r k = Some entry" using iff [of entry] Some by blast
      then show ?thesis using False Some by simp
    qed
  qed
  then show ?thesis by (simp add: ReapExpired_def Let_def)
qed

lemma keeps_runSearchOp:
  assumes "search_ok s" "\<not> creates op k"
  shows "keeps s (runSearchOp op s) k"
proof (cases op)
  case (SCreate ctx job)
  then show ?thesis using assms(2) by (auto simp: CreateJob_def keeps_def split: sum.splits)
next
  case (SChunk tid j ep chunk)
  then show ?thesis
    by (auto simp: guardAndAppend_def guardWrite_Ok split: sum.split intro: keeps_update)
next
  case (SCancel ctx j ft)
  then show ?thesis
    by (auto simp: Cancel_def findEntryLocked_def split: sum.split option.splits intro: keeps_update)
next
  case (SClear ctx j)
  then show ?thesis
    by (auto simp: ClearResults_def findEntryLocked_def split: sum.split option.splits intro: keeps_update)
next
  case (SClaim now after limit)
  then show ?thesis using assms(1) by (simp add: keeps_ClaimStale search_ok_def)
next
  case (SReap now ttl)
  then show ?thesis
    using assms(1) by (auto simp: keeps_def map_of_ReapExpired search_ok_def split: option.splits if_splits)
qed (auto simp: UpdateJobStatus_def Heartbeat_def Release_def DeleteJob_def keeps_def [of _ "AList.delete _ _"]
      split: sum.split if_splits intro!: keeps_fencedWrite)

lemma distinct_runSearchOp:
  assumes "distinct (map fst s)" shows "distinct (map fst (runSearchOp op s))"
proof -
  have "distinct (map fst (fold (\<lambda>(k, entry). AList.update k (g entry)) cands s'))"
    if "distinct (map fst s')" for g and cands s' :: searchData
    using that by (induction cands arbitrary: s') auto
  moreover have "distinct (map fst (filter P s))" for P by (rule distinct_map_filter [OF assms])
  ultimately show ?thesis
    using assms
    by (cases op)
       (auto simp: CreateJob_def UpdateJobStatus_def Heartbeat_def Release_def fencedWrite_def guardAndAppend_def
          DeleteJob_def Cancel_def ClaimStale_def ClearResults_def ReapExpired_def Let_def split: sum.split)
qed

lemma search_ok_run:
  assumes "search_ok s" shows "search_ok (runSearchOp op s)"
proof -
  have d: "distinct (map fst (runSearchOp op s))" using assms distinct_runSearchOp by (simp add: search_ok_def)
  have "sj_ID (sje_job entry) = snd k" if got: "map_of (runSearchOp op s) k = Some entry" for k entry
  proof (cases "creates op k")
    case True
    then obtain ctx job tid where "op = SCreate ctx job" "resolveTenant ctx = Inr tid" "k = (tid, sj_ID job)"
      by (cases op) (auto split: sum.splits)
    then show ?thesis using got by (auto simp: CreateJob_def)
  next
    case False
    then obtain e0 where "map_of s k = Some e0" "sj_ID (sje_job entry) = sj_ID (sje_job e0)"
      using keeps_runSearchOp [OF assms] got unfolding keeps_def by blast
    then show ?thesis using search_ok_D [OF assms] by simp
  qed
  then show ?thesis using d by (auto simp: search_ok_def list_all_iff)
qed

lemma grantedBy_claim:
  assumes "search_ok s" "(k, e') \<in> set (grantedBy op s)"
  shows "epochOf (runSearchOp op s) k = Some e' \<and> (\<exists>e. epochOf s k = Some e \<and> e < e')"
proof -
  from assms(2) obtain now after limit where op: "op = SClaim now after limit" by (cases op) auto
  have d: "distinct (map fst s)" using assms(1) by (simp add: search_ok_def)
  let ?c = "claimCandidates (now - after) limit s"
  from assms(2) op obtain entry where e: "(k, entry) \<in> set ?c" "e' = sj_Epoch (sje_job entry) + 1" "\<not> limit < 1"
    by (auto simp: ClaimStale_def Let_def split: if_splits)
  have c: "map_of ?c k = Some entry" using e(1) claimCandidates_sub(1) [OF d] by simp
  then have "map_of s k = Some entry" using claimCandidates_sub(2) [OF d] by blast
  then show ?thesis using op c e(2,3) by (simp add: epochOf_def map_of_ClaimStale [OF d] del: map_of_eq_Some_iff)
qed

interpretation ef: epoch_fence epochOf runSearchOp grantedBy creates search_ok
proof
  show "search_ok s \<Longrightarrow> search_ok (runSearchOp op s)" for s op by (rule search_ok_run)
  show "\<exists>e. epochOf s k = Some e \<and> e \<le> e'"
    if "search_ok s" "\<not> creates op k" "epochOf (runSearchOp op s) k = Some e'" for s op k e'
    using keeps_runSearchOp [OF that(1,2)] that(3) by (auto simp: epochOf_def keeps_def)
  show "epochOf (runSearchOp op s) k = Some e' \<and> (\<exists>e. epochOf s k = Some e \<and> e < e')"
    if "search_ok s" "(k, e') \<in> set (grantedBy op s)" for s op k e'
    using that by (rule grantedBy_claim)
  show "distinct (map fst (grantedBy op s))" if "search_ok s" for s op
  proof (cases op)
    case (SClaim now after limit)
    have "map fst (map (\<lambda>(k, entry). (k, sj_Epoch (sje_job (claimEntry now entry)))) xs) = map fst xs" for xs :: searchData
      by (induction xs) auto
    then show ?thesis
      using SClaim claimCandidates_sub(1) [of s "now - after" limit] that
      by (simp add: ClaimStale_def Let_def search_ok_def comp_def case_prod_beta)
  qed simp_all
qed

lemma grants_allGrants: "grants ops s = ef.allGrants ops s"
  by (induction ops arbitrary: s) simp_all

lemma fold_run: "fold runSearchOp ops s = ef.run ops s"
  by (induction ops arbitrary: s) simp_all

lemma search_ok_twoJobs: "search_ok twoJobs" by code_simp





lemma fst_sorted_take:
  fixes h :: "'a \<Rightarrow> 'b::linorder"
  assumes "x \<in> set (take n (sort_key h xs))" "y \<in> set xs" "y \<notin> set (take n (sort_key h xs))"
  shows "h x \<le> h y"
proof -
  have "sorted (map h (take n (sort_key h xs) @ drop n (sort_key h xs)))" by simp
  moreover have "y \<in> set (take n (sort_key h xs) @ drop n (sort_key h xs))" using assms(2) by simp
  then have "y \<in> set (drop n (sort_key h xs))" using assms(3) by (simp only: set_append) blast
  ultimately show ?thesis using assms(1) unfolding map_append sorted_append by auto
qed



text \<open>
  C34. Reading a page of results. For a stored result list and a valid window the answer is the window
  of the list and its total, as long as \<^verbatim>\<open>offset + limit\<close> fits into 64 bits; past that the sum wraps to a
  negative end and \<^verbatim>\<open>make\<close> panics.
\<close>

theorem GetResultIDs_window:
  assumes "resolveTenant ctx = Inr tid" "map_of s (tid, jobID) = Some entry"
    and "0 \<le> offset" "1 \<le> limit" "limit < 2 ^ 63" "int (length (sje_entityIDs entry)) < 2 ^ 63"
  shows "GetResultIDs ctx jobID offset limit s =
           (if int (length (sje_entityIDs entry)) \<le> offset then Ok ([], int (length (sje_entityIDs entry)))
            else if offset + limit < 2 ^ 63
            then Ok (take (nat limit) (drop (nat offset) (sje_entityIDs entry)), int (length (sje_entityIDs entry)))
            else Err (Panic ''makeslice: len out of range''))"
proof -
  let ?n = "int (length (sje_entityIDs entry))"
  have "wrap64 (offset + limit) = offset + limit" if "offset + limit < 2 ^ 63"
    using that assms(3,4) by (simp add: wrap64_id)
  moreover have "wrap64 (offset + limit) = offset + limit - 2 ^ 64" if "\<not> offset + limit < 2 ^ 63" "offset < ?n"
    using that assms(5,6) by (intro wrap64_over) simp_all
  moreover have "take (nat (?n - offset)) (drop (nat offset) xs) = take (nat limit) (drop (nat offset) xs)"
    if "?n < offset + limit" "xs = sje_entityIDs entry" for xs
    using that assms(3) by (simp add: nat_diff_distrib)
  ultimately show ?thesis
    using assms by (auto simp: GetResultIDs_def findEntryLocked_def Let_def)
qed

theorem GetResultIDs_window_witness:
  "let s = snd (guardAndAppend ''t'' ''a'' 1 [''p'', ''q'', ''r''] twoJobs)
   in GetResultIDs userCtx ''a'' 1 1 s = Ok ([''q''], 3) \<and>
      GetResultIDs userCtx ''a'' 1 (2 ^ 63 - 1) s = Err (Panic ''makeslice: len out of range'')"
proof -
  let ?s = "snd (guardAndAppend ''t'' ''a'' 1 [''p'', ''q'', ''r''] twoJobs)"
  have run: "resolveTenant userCtx = Inr ''t''"
    "map_option sje_entityIDs (map_of ?s (''t'', ''a'')) = Some [''p'', ''q'', ''r'']" by code_simp+
  then obtain entry where e: "map_of ?s (''t'', ''a'') = Some entry" "sje_entityIDs entry = [''p'', ''q'', ''r'']" by auto
  show ?thesis
    using GetResultIDs_window [OF run(1) e(1), of 1 1] GetResultIDs_window [OF run(1) e(1), of 1 "2 ^ 63 - 1"] e(2)
    by (simp add: Let_def)
qed

lemma guardAndAppend_Ok:
  assumes "guardWrite tid jobID epoch s = Inr entry"
  shows "\<exists>s'. guardAndAppend tid jobID epoch chunk s = (Ok (), s') \<and>
           map_of s' (tid, jobID) = Some (entry\<lparr>sje_entityIDs := sje_entityIDs entry @ chunk\<rparr>)"
proof -
  have "map_of s (tid, jobID) = Some entry" using assms by (simp add: guardWrite_Ok)
  then show ?thesis using assms by (simp add: guardAndAppend_def)
qed

lemma guardWrite_ids:
  "guardWrite tid jobID epoch s = Inr entry \<Longrightarrow> map_of s' (tid, jobID) = Some (entry\<lparr>sje_entityIDs := ids\<rparr>) \<Longrightarrow>
   guardWrite tid jobID epoch s' = Inr (entry\<lparr>sje_entityIDs := ids\<rparr>)"
  by (simp add: guardWrite_Ok)

lemma saveLoop_Ok:
  assumes "\<And>k s. map_of (env k s) (tid, jobID) = map_of s (tid, jobID)"
    and "guardWrite tid jobID epoch s = Inr entry" "\<And>i. \<not> err i"
  shows "\<exists>s'. saveLoop env err tid jobID epoch i k buf ids s = (Ok (), s') \<and>
           map_of s' (tid, jobID) = Some (entry\<lparr>sje_entityIDs := sje_entityIDs entry @ buf @ ids\<rparr>)"
  using assms(2)
proof (induction ids arbitrary: i k buf s entry)
  case Nil
  have "guardWrite tid jobID epoch (env k s) = Inr entry" using Nil by (simp add: guardWrite_Ok assms(1))
  then show ?case using guardAndAppend_Ok [of tid jobID epoch "env k s" entry buf] by (simp add: assms(3))
next
  case (Cons eid ids)
  have g: "guardWrite tid jobID epoch (env k s) = Inr entry" using Cons.prems by (simp add: guardWrite_Ok assms(1))
  obtain s1 where s1: "guardAndAppend tid jobID epoch (buf @ [eid]) (env k s) = (Ok (), s1)"
    "map_of s1 (tid, jobID) = Some (entry\<lparr>sje_entityIDs := sje_entityIDs entry @ buf @ [eid]\<rparr>)"
    using guardAndAppend_Ok [OF g] by blast
  show ?case
  proof (cases "saveResultsChunkSize \<le> length (buf @ [eid])")
    case True
    then show ?thesis
      using s1(1) Cons.IH [OF guardWrite_ids [OF g s1(2)], of "i + 1" "k + 1" "[]"] by (simp add: assms(3))
  next
    case False
    then show ?thesis using Cons.IH [OF Cons.prems, of "i + 1" k "buf @ [eid]"] by (simp add: assms(3))
  qed
qed

text \<open>
  C33. A worker that holds the job's claim stores its whole result. Whatever the other goroutines do
  to other jobs between the chunks, \<^verbatim>\<open>SaveResults\<close> without a cancelled context succeeds, and the
  job's result ids, read back in one page, are the old ones followed by the new ones in order.
\<close>

theorem SaveResults_roundtrip:
  assumes "resolveTenant ctx = Inr tid" "guardWrite tid jobID epoch s = Inr entry"
    and "\<And>i. \<not> c_Err ctx 0 i" "\<And>k s. map_of (env k s) (tid, jobID) = map_of s (tid, jobID)"
    and "n = int (length (sje_entityIDs entry @ ids))" "1 \<le> n" "n < 2 ^ 63"
  shows "\<exists>s'. SaveResults env ctx jobID epoch ids s = (Ok (), s') \<and>
           GetResultIDs ctx jobID 0 n s' = Ok (sje_entityIDs entry @ ids, n)"
proof -
  have "guardWrite tid jobID epoch (env 0 s) = Inr entry" using assms(2) by (simp add: guardWrite_Ok assms(4))
  then have g: "guardAndAppend tid jobID epoch [] (env 0 s) = (Ok (), env 0 s)"
    "guardWrite tid jobID epoch (env 0 s) = Inr entry" by (simp_all add: guardAndAppend_def)
  obtain s' where s': "saveLoop env (c_Err ctx 0) tid jobID epoch 0 1 [] ids (env 0 s) = (Ok (), s')"
    "map_of s' (tid, jobID) = Some (entry\<lparr>sje_entityIDs := sje_entityIDs entry @ ids\<rparr>)"
    using saveLoop_Ok [where env = env and ids = ids and err = "c_Err ctx 0" and i = 0 and k = 1 and buf = "[]", OF assms(4) g(2) assms(3)] by auto
  have "GetResultIDs ctx jobID 0 n s' = Ok (sje_entityIDs entry @ ids, n)"
    using assms(1,6,7) s'(2)
    by (auto simp: GetResultIDs_def findEntryLocked_def Let_def assms(5) wrap64_id)
  then show ?thesis using s'(1) g(1) assms(1) by (simp add: SaveResults_def)
qed

theorem SaveResults_roundtrip_witness:
  "\<exists>s'. SaveResults withoutOthers userCtx ''a'' 1 [''p'', ''q''] twoJobs = (Ok (), s') \<and>
     GetResultIDs userCtx ''a'' 0 2 s' = Ok ([''p'', ''q''], 2)"
proof -
  have run: "resolveTenant userCtx = Inr ''t''"
    "map_sum (\<lambda>e. e) sje_entityIDs (guardWrite ''t'' ''a'' 1 twoJobs) = Inr []" by code_simp+
  then obtain entry where e: "guardWrite ''t'' ''a'' 1 twoJobs = Inr entry" "sje_entityIDs entry = []"
    by (cases "guardWrite ''t'' ''a'' 1 twoJobs") auto
  show ?thesis
    using SaveResults_roundtrip [OF run(1) e(1), of withoutOthers 2 "[''p'', ''q'']"] e(2)
    by (simp add: userCtx_def withoutOthers_def)
qed

end
