(* ===== verification/MemStores.thy ===== *)
theory MemStores
  imports Spi
begin

text \<open>
  The tenant-scoped stores of the memory plugin that keep plain values: key-value pairs
  (\<^verbatim>\<open>kv_store.go\<close>), model descriptors (\<^verbatim>\<open>model_store.go\<close>), workflow definitions (\<^verbatim>\<open>workflow_store.go\<close>) and
  state-machine audit events (\<^verbatim>\<open>sm_audit_store.go\<close>). Each operation holds the store's mutex for its
  whole body, so it is one function on the part of the factory's state it uses. The stores copy values
  in and out; values here are immutable, so \<^verbatim>\<open>cloneDescriptor\<close>, \<^verbatim>\<open>copyEvent\<close> and \<^verbatim>\<open>copyEvents\<close> are the
  identity. \<^verbatim>\<open>copyWorkflows\<close> goes through \<^verbatim>\<open>encoding/json\<close> and the SPI's struct tags: it is the parameter
  \<open>jsonCopy\<close>. \<open>applyFunc\<close> is the schema function the factory is wired with.
\<close>

type_synonym kvData = "tenant \<rightharpoonup> (string \<rightharpoonup> (string \<times> bytes) list)"

definition KeyValueStore_Put :: "tenant \<Rightarrow> string \<Rightarrow> string \<Rightarrow> bytes \<Rightarrow> kvData \<Rightarrow> kvData" where
  "KeyValueStore_Put tid ns key value s =
     update2 s tid ns (AList.update key value (or_nil (lookup2 s tid ns)))"

definition KeyValueStore_Get :: "tenant \<Rightarrow> string \<Rightarrow> string \<Rightarrow> kvData \<Rightarrow> bytes result" where
  "KeyValueStore_Get tid ns key s =
     (case lookup2 s tid ns of
        None \<Rightarrow> Err ErrNotFound
      | Some m \<Rightarrow> (case map_of m key of None \<Rightarrow> Err ErrNotFound | Some v \<Rightarrow> Ok v))"

definition KeyValueStore_Delete :: "tenant \<Rightarrow> string \<Rightarrow> string \<Rightarrow> kvData \<Rightarrow> kvData" where
  "KeyValueStore_Delete tid ns key s =
     (case lookup2 s tid ns of None \<Rightarrow> s | Some m \<Rightarrow> update2 s tid ns (AList.delete key m))"

definition KeyValueStore_List :: "tenant \<Rightarrow> string \<Rightarrow> kvData \<Rightarrow> (string \<times> bytes) list" where
  "KeyValueStore_List tid ns s = or_nil (lookup2 s tid ns)"

record ModelDescriptor =
  md_Ref :: ModelRef
  md_State :: string
  md_ChangeLevel :: string
  md_Schema :: bytes
  md_UniqueKeys :: "UniqueKey list"

type_synonym modelData = "tenant \<rightharpoonup> (ModelRef \<times> ModelDescriptor) list"

definition models_of :: "modelData \<Rightarrow> tenant \<Rightarrow> (ModelRef \<times> ModelDescriptor) list" where
  "models_of s tid = or_nil (s tid)"

definition ModelLocked :: string where
  "ModelLocked = ''LOCKED''"

definition ModelUnlocked :: string where
  "ModelUnlocked = ''UNLOCKED''"

definition ModelStore_Save :: "tenant \<Rightarrow> ModelDescriptor \<Rightarrow> modelData \<Rightarrow> modelData" where
  "ModelStore_Save tid desc s = s(tid \<mapsto> AList.update (md_Ref desc) desc (models_of s tid))"

definition ModelStore_Get :: "tenant \<Rightarrow> ModelRef \<Rightarrow> modelData \<Rightarrow> ModelDescriptor result" where
  "ModelStore_Get tid ref s =
     (case map_of (models_of s tid) ref of None \<Rightarrow> Err ErrNotFound | Some d \<Rightarrow> Ok d)"

definition ModelStore_GetAll :: "tenant \<Rightarrow> modelData \<Rightarrow> ModelRef list" where
  "ModelStore_GetAll tid s = map fst (models_of s tid)"

definition ModelStore_Delete :: "tenant \<Rightarrow> ModelRef \<Rightarrow> modelData \<Rightarrow> unit result \<times> modelData" where
  "ModelStore_Delete tid ref s =
     (case map_of (models_of s tid) ref of
        None \<Rightarrow> (Err ErrNotFound, s)
      | Some _ \<Rightarrow> (Ok (), s(tid \<mapsto> AList.delete ref (models_of s tid))))"

text \<open>The write the mutators share: find the entry, set one field of it in place.\<close>

definition setEntry ::
  "tenant \<Rightarrow> ModelRef \<Rightarrow> (ModelDescriptor \<Rightarrow> ModelDescriptor) \<Rightarrow> modelData \<Rightarrow> unit result \<times> modelData" where
  "setEntry tid ref g s =
     (case map_of (models_of s tid) ref of
        None \<Rightarrow> (Err (ErrMsg ''model not found''), s)
      | Some d \<Rightarrow> (Ok (), s(tid \<mapsto> AList.update ref (g d) (models_of s tid))))"

definition ModelStore_Lock :: "tenant \<Rightarrow> ModelRef \<Rightarrow> modelData \<Rightarrow> unit result \<times> modelData" where
  "ModelStore_Lock tid ref = setEntry tid ref (\<lambda>d. d\<lparr>md_State := ModelLocked\<rparr>)"

definition ModelStore_Unlock :: "tenant \<Rightarrow> ModelRef \<Rightarrow> modelData \<Rightarrow> unit result \<times> modelData" where
  "ModelStore_Unlock tid ref = setEntry tid ref (\<lambda>d. d\<lparr>md_State := ModelUnlocked\<rparr>)"

definition ModelStore_IsLocked :: "tenant \<Rightarrow> ModelRef \<Rightarrow> modelData \<Rightarrow> bool result" where
  "ModelStore_IsLocked tid ref s =
     (case map_of (models_of s tid) ref of
        None \<Rightarrow> Err (ErrMsg ''model not found'')
      | Some d \<Rightarrow> Ok (md_State d = ModelLocked))"

definition ModelStore_SetChangeLevel ::
  "tenant \<Rightarrow> ModelRef \<Rightarrow> string \<Rightarrow> modelData \<Rightarrow> unit result \<times> modelData" where
  "ModelStore_SetChangeLevel tid ref level = setEntry tid ref (\<lambda>d. d\<lparr>md_ChangeLevel := level\<rparr>)"

definition ModelStore_ExtendSchema ::
  "(bytes \<Rightarrow> bytes \<Rightarrow> bytes result) option \<Rightarrow> tenant \<Rightarrow> ModelRef \<Rightarrow> bytes \<Rightarrow> modelData \<Rightarrow> unit result \<times> modelData" where
  "ModelStore_ExtendSchema applyFunc tid ref delta s =
     (if delta = [] then (Ok (), s)
      else case applyFunc of
             None \<Rightarrow> (Err (ErrMsg ''memory: ApplyFunc not wired (use WithApplyFunc)''), s)
           | Some apply_delta \<Rightarrow>
               (case map_of (models_of s tid) ref of
                  None \<Rightarrow> (Err ErrNotFound, s)
                | Some d \<Rightarrow>
                    (case apply_delta (md_Schema d) delta of
                       Inl e \<Rightarrow> (Err e, s)
                     | Inr newSchema \<Rightarrow>
                         (Ok (), s(tid \<mapsto> AList.update ref (d\<lparr>md_Schema := newSchema\<rparr>) (models_of s tid))))))"

type_synonym 'w wfData = "tenant \<rightharpoonup> (ModelRef \<rightharpoonup> 'w list)"

definition WorkflowStore_Save ::
  "('w list \<Rightarrow> 'w list result) \<Rightarrow> tenant \<Rightarrow> ModelRef \<Rightarrow> 'w list \<Rightarrow> 'w wfData \<Rightarrow> unit result \<times> 'w wfData" where
  "WorkflowStore_Save jsonCopy tid ref workflows s =
     (case jsonCopy workflows of
        Inl e \<Rightarrow> (Err e, s)
      | Inr cp \<Rightarrow> (Ok (), update2 s tid ref cp))"

definition WorkflowStore_Get ::
  "('w list \<Rightarrow> 'w list result) \<Rightarrow> tenant \<Rightarrow> ModelRef \<Rightarrow> 'w wfData \<Rightarrow> 'w list result" where
  "WorkflowStore_Get jsonCopy tid ref s =
     (case lookup2 s tid ref of None \<Rightarrow> Ok [] | Some wfs \<Rightarrow> jsonCopy wfs)"

definition WorkflowStore_Delete :: "tenant \<Rightarrow> ModelRef \<Rightarrow> 'w wfData \<Rightarrow> 'w wfData" where
  "WorkflowStore_Delete tid ref s =
     (case s tid of None \<Rightarrow> s | Some m \<Rightarrow> s(tid \<mapsto> m(ref := None)))"

record StateMachineEvent =
  ev_EventType :: string
  ev_EntityID :: entityid
  ev_State :: string
  ev_TransactionID :: txid
  ev_Details :: string

type_synonym smAudit = "tenant \<rightharpoonup> (entityid \<rightharpoonup> StateMachineEvent list)"

definition StateMachineAuditStore_Record :: "tenant \<Rightarrow> entityid \<Rightarrow> StateMachineEvent \<Rightarrow> smAudit \<Rightarrow> smAudit" where
  "StateMachineAuditStore_Record tid eid event s = update2 s tid eid (or_nil (lookup2 s tid eid) @ [event])"

definition StateMachineAuditStore_GetEvents :: "tenant \<Rightarrow> entityid \<Rightarrow> smAudit \<Rightarrow> StateMachineEvent list" where
  "StateMachineAuditStore_GetEvents tid eid s = or_nil (lookup2 s tid eid)"

definition StateMachineAuditStore_GetEventsByTransaction ::
  "tenant \<Rightarrow> entityid \<Rightarrow> txid \<Rightarrow> smAudit \<Rightarrow> StateMachineEvent list" where
  "StateMachineAuditStore_GetEventsByTransaction tid eid transactionID s =
     filter (\<lambda>e. ev_TransactionID e = transactionID) (or_nil (lookup2 s tid eid))"

text \<open>
  The abstract store: one finite map per store, keyed by tenant and key, and what each operation
  means on it. \<open>kvAbs\<close> and \<open>modelAbs\<close> read the abstract map off the concrete state.
\<close>

datatype ('k, 'v) mapOp = MPut 'k 'v | MDel 'k | MSet 'k "'v \<Rightarrow> 'v"

fun mapStep :: "('k, 'v) mapOp \<Rightarrow> ('k \<rightharpoonup> 'v) \<Rightarrow> ('k \<rightharpoonup> 'v)" where
  "mapStep (MPut k v) m = m(k \<mapsto> v)"
| "mapStep (MDel k) m = m(k := None)"
| "mapStep (MSet k g) m = m(k := map_option g (m k))"

definition kvAbs :: "kvData \<Rightarrow> (tenant \<times> string \<times> string \<rightharpoonup> bytes)" where
  "kvAbs s k = (case k of (tid, ns, key) \<Rightarrow> map_of (or_nil (lookup2 s tid ns)) key)"

definition modelAbs :: "modelData \<Rightarrow> (tenant \<times> ModelRef \<rightharpoonup> ModelDescriptor)" where
  "modelAbs s k = map_of (models_of s (fst k)) (snd k)"

definition wfAbs :: "'w wfData \<Rightarrow> (tenant \<times> ModelRef \<rightharpoonup> 'w list)" where
  "wfAbs s k = lookup2 s (fst k) (snd k)"

datatype kvOp = KvPut tenant string string bytes | KvDelete tenant string string

fun kvStep :: "kvOp \<Rightarrow> kvData \<Rightarrow> kvData" where
  "kvStep (KvPut tid ns key v) s = KeyValueStore_Put tid ns key v s"
| "kvStep (KvDelete tid ns key) s = KeyValueStore_Delete tid ns key s"

fun kvMeaning :: "kvOp \<Rightarrow> (tenant \<times> string \<times> string, bytes) mapOp" where
  "kvMeaning (KvPut tid ns key v) = MPut (tid, ns, key) v"
| "kvMeaning (KvDelete tid ns key) = MDel (tid, ns, key)"

datatype modelOp =
    MdSave tenant ModelDescriptor
  | MdDelete tenant ModelRef
  | MdLock tenant ModelRef
  | MdUnlock tenant ModelRef
  | MdSetChangeLevel tenant ModelRef string
  | MdExtend "(bytes \<Rightarrow> bytes \<Rightarrow> bytes result) option" tenant ModelRef bytes

fun modelStep :: "modelOp \<Rightarrow> modelData \<Rightarrow> modelData" where
  "modelStep (MdSave tid d) s = ModelStore_Save tid d s"
| "modelStep (MdDelete tid ref) s = snd (ModelStore_Delete tid ref s)"
| "modelStep (MdLock tid ref) s = snd (ModelStore_Lock tid ref s)"
| "modelStep (MdUnlock tid ref) s = snd (ModelStore_Unlock tid ref s)"
| "modelStep (MdSetChangeLevel tid ref level) s = snd (ModelStore_SetChangeLevel tid ref level s)"
| "modelStep (MdExtend fn tid ref delta) s = snd (ModelStore_ExtendSchema fn tid ref delta s)"

text \<open>A delta that does not apply leaves the schema alone.\<close>

definition extendWith :: "(bytes \<Rightarrow> bytes \<Rightarrow> bytes result) option \<Rightarrow> bytes \<Rightarrow> ModelDescriptor \<Rightarrow> ModelDescriptor" where
  "extendWith fn delta d =
     (if delta = [] then d
      else case fn of
             None \<Rightarrow> d
           | Some h \<Rightarrow> (case h (md_Schema d) delta of Inl _ \<Rightarrow> d | Inr schema \<Rightarrow> d\<lparr>md_Schema := schema\<rparr>))"

fun modelMeaning :: "modelOp \<Rightarrow> (tenant \<times> ModelRef, ModelDescriptor) mapOp" where
  "modelMeaning (MdSave tid d) = MPut (tid, md_Ref d) d"
| "modelMeaning (MdDelete tid ref) = MDel (tid, ref)"
| "modelMeaning (MdLock tid ref) = MSet (tid, ref) (\<lambda>d. d\<lparr>md_State := ModelLocked\<rparr>)"
| "modelMeaning (MdUnlock tid ref) = MSet (tid, ref) (\<lambda>d. d\<lparr>md_State := ModelUnlocked\<rparr>)"
| "modelMeaning (MdSetChangeLevel tid ref level) = MSet (tid, ref) (\<lambda>d. d\<lparr>md_ChangeLevel := level\<rparr>)"
| "modelMeaning (MdExtend fn tid ref delta) = MSet (tid, ref) (extendWith fn delta)"

datatype 'w wfOp = WfSave "'w list \<Rightarrow> 'w list result" tenant ModelRef "'w list" | WfDelete tenant ModelRef

fun wfStep :: "'w wfOp \<Rightarrow> 'w wfData \<Rightarrow> 'w wfData" where
  "wfStep (WfSave jsonCopy tid ref wfs) s = snd (WorkflowStore_Save jsonCopy tid ref wfs s)"
| "wfStep (WfDelete tid ref) s = WorkflowStore_Delete tid ref s"

fun wfMeaning :: "'w wfOp \<Rightarrow> (tenant \<times> ModelRef, 'w list) mapOp" where
  "wfMeaning (WfSave jsonCopy tid ref wfs) =
     (case jsonCopy wfs of Inl _ \<Rightarrow> MSet (tid, ref) (\<lambda>v. v) | Inr cp \<Rightarrow> MPut (tid, ref) cp)"
| "wfMeaning (WfDelete tid ref) = MDel (tid, ref)"

text \<open>
  The contract of a keyed store: every operation commutes with the abstraction. What follows for
  sequences of operations and for untouched keys is proved once.
\<close>

fun opKey :: "('k, 'v) mapOp \<Rightarrow> 'k" where
  "opKey (MPut k v) = k"
| "opKey (MDel k) = k"
| "opKey (MSet k g) = k"

locale keyed_store =
  fixes abs :: "'s \<Rightarrow> ('k \<rightharpoonup> 'v)"
    and step :: "'op \<Rightarrow> 's \<Rightarrow> 's"
    and meaning :: "'op \<Rightarrow> ('k, 'v) mapOp"
  assumes commutes: "abs (step op s) = mapStep (meaning op) (abs s)"
begin

lemma run_commutes: "abs (fold step ops s) = fold (\<lambda>op. mapStep (meaning op)) ops (abs s)"
  by (induction ops arbitrary: s) (simp_all add: commutes)

lemma other_keys: "opKey (meaning op) \<noteq> k \<Longrightarrow> abs (step op s) k = abs s k"
  by (cases "meaning op") (simp_all add: commutes)

lemma run_other_keys: "(\<And>op. op \<in> set ops \<Longrightarrow> opKey (meaning op) \<noteq> k) \<Longrightarrow> abs (fold step ops s) k = abs s k"
  by (induction ops arbitrary: s) (simp_all add: other_keys)

lemma put_then_others:
  assumes "meaning op = MPut k v" "\<And>op'. op' \<in> set ops \<Longrightarrow> opKey (meaning op') \<noteq> k"
  shows "abs (fold step (op # ops) s) k = Some v"
  using run_other_keys [OF assms(2), of ops "step op s"] assms(1) by (simp add: commutes)

end

interpretation kvs: keyed_store kvAbs kvStep kvMeaning
proof
  show "kvAbs (kvStep op s) = mapStep (kvMeaning op) (kvAbs s)" for op s
    by (cases op)
       (auto simp: fun_eq_iff kvAbs_def KeyValueStore_Put_def KeyValueStore_Delete_def go_simps split: option.split)
qed

lemma models_of_upd [simp]: "models_of (s(tid \<mapsto> m)) t = (if t = tid then m else models_of s t)"
  by (simp add: models_of_def)

lemma modelAbs_setEntry:
  "modelAbs (snd (setEntry tid ref g s)) = mapStep (MSet (tid, ref) g) (modelAbs s)"
  by (auto simp: fun_eq_iff setEntry_def modelAbs_def split: option.split)

interpretation mds: keyed_store modelAbs modelStep modelMeaning
proof
  show "modelAbs (modelStep op s) = mapStep (modelMeaning op) (modelAbs s)" for op s
  proof (cases op)
    case (MdExtend fn tid ref delta)
    then show ?thesis
      by (cases "map_of (models_of s tid) ref")
         (auto simp: fun_eq_iff ModelStore_ExtendSchema_def extendWith_def modelAbs_def
          split: option.split sum.split)
  qed (auto simp: modelAbs_setEntry ModelStore_Lock_def ModelStore_Unlock_def ModelStore_SetChangeLevel_def,
       auto simp: fun_eq_iff ModelStore_Save_def ModelStore_Delete_def modelAbs_def split: option.split)
qed

interpretation wfs: keyed_store wfAbs wfStep wfMeaning
proof
  show "wfAbs (wfStep op s) = mapStep (wfMeaning op) (wfAbs s)" for op :: "'w wfOp" and s
  proof (cases op)
    case (WfSave jsonCopy tid ref ws)
    then show ?thesis
      by (auto simp: fun_eq_iff wfAbs_def WorkflowStore_Save_def go_simps option.map_ident split: sum.split)
  next
    case (WfDelete tid ref)
    then show ?thesis
      by (auto simp: fun_eq_iff wfAbs_def WorkflowStore_Delete_def lookup2_def split: option.split)
  qed
qed

lemma kv_get_abs:
  "KeyValueStore_Get tid ns key s = (case kvAbs s (tid, ns, key) of None \<Rightarrow> Err ErrNotFound | Some v \<Rightarrow> Ok v)"
  by (simp add: KeyValueStore_Get_def kvAbs_def split: option.split)

lemma model_get_abs:
  "ModelStore_Get tid ref s = (case modelAbs s (tid, ref) of None \<Rightarrow> Err ErrNotFound | Some d \<Rightarrow> Ok d)"
  by (simp add: ModelStore_Get_def modelAbs_def)

lemma wf_get_abs:
  "WorkflowStore_Get jsonCopy tid ref s = (case wfAbs s (tid, ref) of None \<Rightarrow> Ok [] | Some ws \<Rightarrow> jsonCopy ws)"
  by (simp add: WorkflowStore_Get_def wfAbs_def)

lemma abs_empty [simp]:
  "kvAbs Map.empty = Map.empty" "modelAbs Map.empty = Map.empty" "wfAbs Map.empty = Map.empty"
  by (auto simp: fun_eq_iff kvAbs_def modelAbs_def wfAbs_def models_of_def lookup2_def)


text \<open>Audit events come back in the order they were recorded, per tenant and entity.\<close>

lemma audit_in_order:
  "StateMachineAuditStore_GetEvents tid eid (fold (\<lambda>(t, e, ev). StateMachineAuditStore_Record t e ev) evs s) =
     StateMachineAuditStore_GetEvents tid eid s @
     map (snd \<circ> snd) (filter (\<lambda>(t, e, ev). t = tid \<and> e = eid) evs)"
proof (induction evs arbitrary: s)
  case (Cons x evs)
  obtain t e ev where "x = (t, e, ev)" by (cases x) auto
  then show ?case
    using Cons.IH [of "StateMachineAuditStore_Record t e ev s"]
    by (simp add: StateMachineAuditStore_GetEvents_def StateMachineAuditStore_Record_def go_simps)
qed simp

end
