(* ===== verification/MemMessages.thy ===== *)
theory MemMessages
  imports Spi
begin

text \<open>
  The message store of the memory plugin (\<^verbatim>\<open>plugins/memory/message_store.go\<close>): metadata in a map, payloads as
  files below the factory's blob directory. The functions of \<^verbatim>\<open>path/filepath\<close> the store uses are
  modelled for the separator \<^verbatim>\<open>/\<close>. A file system is a map from paths to contents; \<open>ioFail n\<close> says whether
  the \<open>n\<close>-th file operation of a call fails (\<open>0\<close> MkdirAll, \<open>1\<close> CreateTemp, \<open>2\<close> Copy, \<open>3\<close> Close,
  \<open>4\<close> Rename), and \<open>tmp\<close> is the name \<^verbatim>\<open>os.CreateTemp\<close> picks in the tenant's directory. \<^verbatim>\<open>os.Remove\<close> of an
  existing file succeeds.
\<close>

type_synonym path = string

fun cleanStack :: "bool \<Rightarrow> string list \<Rightarrow> string list \<Rightarrow> string list" where
  "cleanStack rooted acc [] = rev acc"
| "cleanStack rooted acc (x # xs) =
     (if x = '''' \<or> x = ''.'' then cleanStack rooted acc xs
      else if x = ''..'' then
        (case acc of
           [] \<Rightarrow> cleanStack rooted (if rooted then [] else [''..'']) xs
         | a # as \<Rightarrow> if a = ''..'' then cleanStack rooted (x # acc) xs else cleanStack rooted as xs)
      else cleanStack rooted (x # acc) xs)"

definition rootedPath :: "path \<Rightarrow> bool" where
  "rootedPath p = (case p of [] \<Rightarrow> False | c # _ \<Rightarrow> c = CHR ''/'')"

definition cleanSegs :: "path \<Rightarrow> string list" where
  "cleanSegs p = cleanStack (rootedPath p) [] (splitSlash p)"

definition filepath_Clean :: "path \<Rightarrow> path" where
  "filepath_Clean p =
     (if rootedPath p then ''/'' @ joinSlash (cleanSegs p)
      else if cleanSegs p = [] then ''.'' else joinSlash (cleanSegs p))"

definition filepath_Join :: "string list \<Rightarrow> path" where
  "filepath_Join elems =
     (case filter (\<lambda>e. e \<noteq> []) elems of [] \<Rightarrow> [] | es \<Rightarrow> filepath_Clean (joinSlash es))"

fun stripCommon :: "string list \<Rightarrow> string list \<Rightarrow> string list \<times> string list" where
  "stripCommon (b # bs) (t # ts) = (if b = t then stripCommon bs ts else (b # bs, t # ts))"
| "stripCommon bs ts = (bs, ts)"

definition filepath_Rel :: "path \<Rightarrow> path \<Rightarrow> path result" where
  "filepath_Rel base targ =
     (if filepath_Clean targ = filepath_Clean base then Ok ''.''
      else if rootedPath base \<noteq> rootedPath targ then Err (ErrMsg ''Rel: cannot make relative'')
      else case stripCommon (cleanSegs base) (cleanSegs targ) of
             (bs, ts) \<Rightarrow>
               if (case bs of [] \<Rightarrow> False | b # _ \<Rightarrow> b = ''..'') then Err (ErrMsg ''Rel: cannot make relative'')
               else Ok (joinSlash (map (\<lambda>_. ''..'') bs @ ts)))"

definition badSegment :: "string \<Rightarrow> bool" where
  "badSegment s \<longleftrightarrow> s = [] \<or> s = ''.'' \<or> s = ''..'' \<or> list_ex (\<lambda>c. c = CHR ''/'' \<or> c = CHR 0x5C) s"

definition blobPath :: "path \<Rightarrow> tenant \<Rightarrow> string \<Rightarrow> path result" where
  "blobPath root tid msgid =
     (if badSegment msgid then Err (ErrMsg ''invalid message id'')
      else if badSegment tid then Err (ErrMsg ''invalid tenant id'')
      else let p = filepath_Join [root, tid, msgid]
           in case filepath_Rel root p of
                Inl _ \<Rightarrow> Err (ErrMsg ''invalid message id'')
              | Inr rel \<Rightarrow>
                  if rel = ''..'' \<or> take 3 rel = ''../'' then Err (ErrMsg ''invalid message id'') else Ok p)"

definition filepath_Dir :: "path \<Rightarrow> path" where
  "filepath_Dir p = (if rootedPath p then ''/'' else []) @ joinSlash (butlast (cleanSegs p))"

definition tenantBlobDir :: "path \<Rightarrow> tenant \<Rightarrow> path result" where
  "tenantBlobDir root tid = map_sum (\<lambda>e. e) filepath_Dir (blobPath root tid ''placeholder'')"

record MessageHeader =
  mh_Subject :: string
  mh_ContentType :: string
  mh_ContentLength :: int
  mh_ContentEncoding :: string
  mh_MessageID :: string
  mh_UserID :: string
  mh_Recipient :: string
  mh_ReplyTo :: string
  mh_CorrelationID :: string

record MessageMetaData =
  mm_Values :: "string \<rightharpoonup> string"
  mm_IndexedValues :: "string \<rightharpoonup> string"

record messageEntry =
  me_header :: MessageHeader
  me_metaData :: MessageMetaData

record msgState =
  ms_data :: "tenant \<rightharpoonup> (string \<rightharpoonup> messageEntry)"
  ms_files :: "path \<rightharpoonup> bytes"

definition MessageStore_Save ::
  "path \<Rightarrow> (nat \<Rightarrow> bool) \<Rightarrow> string \<Rightarrow> tenant \<Rightarrow> string \<Rightarrow> MessageHeader \<Rightarrow> MessageMetaData \<Rightarrow> bytes \<Rightarrow> msgState
   \<Rightarrow> unit result \<times> msgState" where
  "MessageStore_Save root ioFail tmp tid msgid header metaData payload s =
     (case tenantBlobDir root tid of
        Inl e \<Rightarrow> (Err e, s)
      | Inr tenantDir \<Rightarrow>
          if ioFail 0 then (Err (ErrMsg ''failed to create tenant blob dir''), s)
          else if ioFail 1 then (Err (ErrMsg ''failed to create temp blob file''), s)
          else
            let tmpPath = tenantDir @ ''/'' @ tmp;
                written = s\<lparr>ms_files := (ms_files s)(tmpPath \<mapsto> payload)\<rparr>;
                removed = written\<lparr>ms_files := (ms_files written)(tmpPath := None)\<rparr>
            in if ioFail 2 then (Err (ErrMsg ''failed to write blob payload''), removed)
               else if ioFail 3 then (Err (ErrMsg ''failed to close temp blob file''), removed)
               else case blobPath root tid msgid of
                      Inl e \<Rightarrow> (Err e, removed)
                    | Inr p \<Rightarrow>
                        if ioFail 4 then (Err (ErrMsg ''failed to rename blob file''), removed)
                        else (Ok (), removed\<lparr>ms_files := (ms_files removed)(p \<mapsto> payload),
                                             ms_data := update2 (ms_data s) tid msgid
                                                          \<lparr>me_header = header, me_metaData = metaData\<rparr>\<rparr>))"

definition MessageStore_Get ::
  "path \<Rightarrow> tenant \<Rightarrow> string \<Rightarrow> msgState \<Rightarrow> (MessageHeader \<times> MessageMetaData \<times> bytes) result" where
  "MessageStore_Get root tid msgid s =
     (case lookup2 (ms_data s) tid msgid of
        None \<Rightarrow> Err ErrNotFound
      | Some entry \<Rightarrow>
          (case blobPath root tid msgid of
             Inl e \<Rightarrow> Err e
           | Inr p \<Rightarrow>
               (case ms_files s p of
                  None \<Rightarrow> Err (ErrMsg ''failed to open blob file'')
                | Some payload \<Rightarrow> Ok (me_header entry, me_metaData entry, payload))))"

definition MessageStore_Delete :: "path \<Rightarrow> tenant \<Rightarrow> string \<Rightarrow> msgState \<Rightarrow> msgState" where
  "MessageStore_Delete root tid msgid s =
     (let s1 = (case ms_data s tid of
                  None \<Rightarrow> s
                | Some m \<Rightarrow> s\<lparr>ms_data := (ms_data s)(tid \<mapsto> m(msgid := None))\<rparr>)
      in case blobPath root tid msgid of
           Inl _ \<Rightarrow> s1
         | Inr p \<Rightarrow> s1\<lparr>ms_files := (ms_files s1)(p := None)\<rparr>)"

definition MessageStore_DeleteBatch :: "path \<Rightarrow> tenant \<Rightarrow> string list \<Rightarrow> msgState \<Rightarrow> msgState" where
  "MessageStore_DeleteBatch root tid ids s = fold (MessageStore_Delete root tid) ids s"

text \<open>A directory given by its segments, and the concrete one of the instances.\<close>

definition plainSegment :: "string \<Rightarrow> bool" where
  "plainSegment s \<longleftrightarrow> s \<noteq> [] \<and> s \<noteq> ''.'' \<and> s \<noteq> ''..'' \<and> CHR ''/'' \<notin> set s"

definition dirPath :: "string list \<Rightarrow> path" where
  "dirPath segs = ''/'' @ joinSlash segs"

definition noFail :: "nat \<Rightarrow> bool" where
  "noFail n = False"

definition emptyMsgs :: msgState where
  "emptyMsgs = \<lparr>ms_data = Map.empty, ms_files = Map.empty\<rparr>"

definition plainMeta :: MessageMetaData where
  "plainMeta = \<lparr>mm_Values = Map.empty, mm_IndexedValues = Map.empty\<rparr>"

definition plainHeader :: MessageHeader where
  "plainHeader =
     \<lparr>mh_Subject = ''s'', mh_ContentType = ''c'', mh_ContentLength = 2, mh_ContentEncoding = ''UTF-8'',
      mh_MessageID = [], mh_UserID = [], mh_Recipient = [], mh_ReplyTo = [], mh_CorrelationID = []\<rparr>"

lemma cleanStack_plain: "\<forall>s \<in> set segs. plainSegment s \<Longrightarrow> cleanStack r acc segs = rev acc @ segs"
  by (induction segs arbitrary: acc) (auto simp: plainSegment_def)

lemma cleanSegs_dir:
  assumes "segs \<noteq> []" "\<forall>s \<in> set segs. plainSegment s"
  shows "rootedPath (dirPath segs)" "cleanSegs (dirPath segs) = segs" "filepath_Clean (dirPath segs) = dirPath segs"
proof -
  show r: "rootedPath (dirPath segs)" by (simp add: rootedPath_def dirPath_def)
  have "splitSlash (dirPath segs) = [] # segs"
    using splitSlash_append [of "[]" "joinSlash segs"] splitSlash_join [of segs] assms
    by (simp add: dirPath_def plainSegment_def)
  then show c: "cleanSegs (dirPath segs) = segs" by (simp add: cleanSegs_def cleanStack_plain [OF assms(2)])
  show "filepath_Clean (dirPath segs) = dirPath segs" using r c by (simp add: filepath_Clean_def dirPath_def)
qed

lemma stripCommon_prefix: "stripCommon xs (xs @ ys) = ([], ys)"
  by (induction xs) auto

lemma joinSlash_inj:
  assumes "xs \<noteq> []" "ys \<noteq> []" "\<forall>s \<in> set xs. plainSegment s" "\<forall>s \<in> set ys. plainSegment s" "joinSlash xs = joinSlash ys"
  shows "xs = ys"
  using splitSlash_join [of xs] splitSlash_join [of ys] assms by (metis plainSegment_def)

lemma plain_not_bad: "\<not> badSegment s \<Longrightarrow> plainSegment s"
  by (auto simp: badSegment_def plainSegment_def list_ex_iff)

lemma blobPath_eq:
  assumes "root = dirPath segs" "segs \<noteq> []" "\<forall>s \<in> set segs. plainSegment s"
  shows "blobPath root tid msgid =
           (if badSegment msgid then Err (ErrMsg ''invalid message id'')
            else if badSegment tid then Err (ErrMsg ''invalid tenant id'')
            else Ok (dirPath (segs @ [tid, msgid])))"
proof (cases "badSegment msgid \<or> badSegment tid")
  case True
  then show ?thesis by (auto simp: blobPath_def)
next
  case False
  then have p: "plainSegment msgid" "plainSegment tid" by (auto intro: plain_not_bad)
  let ?all = "segs @ [tid, msgid]"
  have all: "?all \<noteq> []" "\<forall>s \<in> set ?all. plainSegment s" using assms(3) p by auto
  have ne: "joinSlash [root, tid, msgid] = dirPath ?all" "tid \<noteq> []" "msgid \<noteq> []" "root \<noteq> []"
    using p joinSlash_append [OF assms(2), of "[tid, msgid]"] assms(1) by (auto simp: dirPath_def plainSegment_def)
  then have j: "filepath_Join [root, tid, msgid] = dirPath ?all"
    using cleanSegs_dir(3) [OF all] by (simp add: filepath_Join_def)
  have "dirPath ?all \<noteq> dirPath segs"
    using joinSlash_inj [OF all(1) assms(2) all(2) assms(3)] by (auto simp: dirPath_def)
  then have rel: "filepath_Rel root (dirPath ?all) = Ok (tid @ ''/'' @ msgid)"
    using cleanSegs_dir [OF all] cleanSegs_dir [OF assms(2,3)]
    by (simp add: filepath_Rel_def assms(1) stripCommon_prefix)
  have "take 3 (tid @ ''/'' @ msgid) \<noteq> ''../''"
  proof
    assume a: "take 3 (tid @ ''/'' @ msgid) = ''../''"
    have "tid = ''..'' \<or> tid = ''.'' \<or> tid = [] \<or> CHR ''/'' \<in> set tid"
      using a by (cases tid; cases "tl tid"; cases "tl (tl tid)") (auto split: if_splits)
    then show False using p(2) by (auto simp: plainSegment_def)
  qed
  moreover have "tid @ ''/'' @ msgid \<noteq> ''..''" by (cases tid; cases "tl tid") auto
  ultimately show ?thesis using False j rel by (simp add: blobPath_def)
qed

lemma dirPath_inj:
  assumes "xs \<noteq> []" "ys \<noteq> []" "\<forall>s \<in> set xs. plainSegment s" "\<forall>s \<in> set ys. plainSegment s"
  shows "dirPath xs = dirPath ys \<longleftrightarrow> xs = ys"
  using joinSlash_inj [OF assms] by (auto simp: dirPath_def)

lemma tenantBlobDir_eq:
  assumes "root = dirPath segs" "segs \<noteq> []" "\<forall>s \<in> set segs. plainSegment s"
  shows "tenantBlobDir root tid =
           (if badSegment tid then Err (ErrMsg ''invalid tenant id'') else Ok (dirPath (segs @ [tid])))"
proof -
  have np: "\<not> badSegment ''placeholder''" by (simp add: badSegment_def)
  have "filepath_Dir (dirPath (segs @ [tid, ''placeholder''])) = dirPath (segs @ [tid])" if "\<not> badSegment tid"
  proof -
    have "\<forall>s \<in> set (segs @ [tid, ''placeholder'']). plainSegment s"
      using assms(3) plain_not_bad [OF that] plain_not_bad [OF np] by auto
    then show ?thesis
      using cleanSegs_dir [of "segs @ [tid, ''placeholder'']"] by (simp add: filepath_Dir_def dirPath_def butlast_append)
  qed
  then show ?thesis using np by (simp add: tenantBlobDir_def blobPath_eq [OF assms])
qed

text \<open>
  C36. Blob paths are confined and never shared. Below a clean absolute blob directory the path of a
  message is that directory followed by the tenant and the message id, whatever the caller passes as
  id: no id and no tenant name leaves the tenant's directory, and different tenants or ids never
  have the same path.
\<close>

theorem blobPath_confined:
  assumes "root = dirPath segs" "segs \<noteq> []" "\<forall>s \<in> set segs. plainSegment s"
    and "blobPath root tid msgid = Ok p"
  shows "p = dirPath (segs @ [tid, msgid]) \<and> cleanSegs p = segs @ [tid, msgid] \<and>
         (\<forall>tid' msgid'. blobPath root tid' msgid' = Ok p \<longleftrightarrow> tid' = tid \<and> msgid' = msgid)"
proof -
  have ok: "\<not> badSegment msgid" "\<not> badSegment tid" "p = dirPath (segs @ [tid, msgid])"
    using assms(4) by (auto simp: blobPath_eq [OF assms(1-3)] split: if_splits)
  have seg: "\<forall>s \<in> set (segs @ [t, m]). plainSegment s" if "\<not> badSegment m" "\<not> badSegment t" for t m
    using that assms(3) by (auto intro: plain_not_bad)
  have "tid' = tid \<and> msgid' = msgid" if "blobPath root tid' msgid' = Ok p" for tid' msgid'
  proof -
    have ok': "\<not> badSegment msgid'" "\<not> badSegment tid'" "p = dirPath (segs @ [tid', msgid'])"
      using that by (auto simp: blobPath_eq [OF assms(1-3)] split: if_splits)
    then show ?thesis using ok dirPath_inj [OF _ _ seg [OF ok(1,2)] seg [OF ok'(1,2)]] by auto
  qed
  then show ?thesis using ok assms(4) cleanSegs_dir(2) [OF _ seg [OF ok(1,2)]] by auto
qed

theorem blobPath_confined_witness:
  "blobPath (dirPath [''tmp'', ''blobs'']) ''t'' ''m1'' = Ok (dirPath [''tmp'', ''blobs'', ''t'', ''m1'']) \<and>
   (\<forall>tid' msgid'. blobPath (dirPath [''tmp'', ''blobs'']) tid' msgid' = Ok (dirPath [''tmp'', ''blobs'', ''t'', ''m1''])
      \<longleftrightarrow> tid' = ''t'' \<and> msgid' = ''m1'')"
proof -
  have "blobPath (dirPath [''tmp'', ''blobs'']) ''t'' ''m1'' = Ok (dirPath [''tmp'', ''blobs'', ''t'', ''m1''])"
    by code_simp
  then show ?thesis
    using blobPath_confined [of _ "[''tmp'', ''blobs'']" "''t''" "''m1''", OF refl] by (simp add: plainSegment_def)
qed

text \<open>A read depends on its own entry and, for plain names, on its own blob file only.\<close>

lemma MessageStore_Get_frame:
  assumes "root = dirPath segs" "segs \<noteq> []" "\<forall>s \<in> set segs. plainSegment s"
    and "lookup2 (ms_data s') tid msgid = lookup2 (ms_data s) tid msgid"
    and "lookup2 (ms_data s) tid msgid \<noteq> None \<Longrightarrow> \<not> badSegment tid \<Longrightarrow> \<not> badSegment msgid \<Longrightarrow>
      ms_files s' (dirPath (segs @ [tid, msgid])) = ms_files s (dirPath (segs @ [tid, msgid]))"
  shows "MessageStore_Get root tid msgid s' = MessageStore_Get root tid msgid s"
  using assms(4,5) blobPath_eq [OF assms(1-3), of tid msgid]
  by (cases "lookup2 (ms_data s) tid msgid") (auto simp: MessageStore_Get_def)

lemma blob_names_distinct:
  assumes "segs \<noteq> []" "\<forall>s \<in> set segs. plainSegment s" "plainSegment t" "plainSegment m" "plainSegment t'" "plainSegment m'"
    and "(t, m) \<noteq> (t', m')"
  shows "dirPath (segs @ [t, m]) \<noteq> dirPath (segs @ [t', m'])"
  using dirPath_inj [of "segs @ [t, m]" "segs @ [t', m']"] assms by auto

text \<open>
  C35. A message is saved whole or not at all. If the temporary name is new and is not the message id itself,
  then a \<^verbatim>\<open>Save\<close> that fails at any file operation, or on a bad id, leaves the metadata and all files as
  they were; one that succeeds makes \<^verbatim>\<open>Get\<close> return its header, metadata and payload and leaves every
  other message of every tenant as it was.
\<close>

theorem MessageStore_Save_atomic:
  assumes "root = dirPath segs" "segs \<noteq> []" "\<forall>s \<in> set segs. plainSegment s"
    and "plainSegment tmp" "tmp \<noteq> msgid" "ms_files s (dirPath (segs @ [tid, tmp])) = None"
    and "lookup2 (ms_data s) tid tmp = None"
    and "MessageStore_Save root ioFail tmp tid msgid header metaData payload s = (r, s')"
  shows "case r of
           Inl _ \<Rightarrow> s' = s
         | Inr _ \<Rightarrow> MessageStore_Get root tid msgid s' = Ok (header, metaData, payload) \<and>
             (\<forall>tid' msgid'. (tid', msgid') \<noteq> (tid, msgid) \<longrightarrow>
                MessageStore_Get root tid' msgid' s' = MessageStore_Get root tid' msgid' s)"
proof -
  note bp = blobPath_eq [OF assms(1-3)]
  let ?tmp = "dirPath (segs @ [tid, tmp])"
  have tmpPath: "dirPath (segs @ [tid]) @ ''/'' @ tmp = ?tmp"
    using joinSlash_append [of "segs @ [tid]" "[tmp]"] by (simp add: dirPath_def)
  have undo: "s\<lparr>ms_files := (ms_files s)(?tmp := None)\<rparr> = s"
    using assms(6) by (metis fun_upd_triv msgState.surjective msgState.update_convs(2))
  show ?thesis
  proof (cases r)
    case (Inl e)
    then show ?thesis
      using assms(8) tmpPath undo
      by (auto simp: MessageStore_Save_def tenantBlobDir_eq [OF assms(1-3)] Let_def bp split: if_splits)
  next
    case (Inr u)
    then have ok: "\<not> badSegment tid" "\<not> badSegment msgid"
      "s' = s\<lparr>ms_files := (ms_files s)(?tmp := None, dirPath (segs @ [tid, msgid]) \<mapsto> payload),
              ms_data := update2 (ms_data s) tid msgid \<lparr>me_header = header, me_metaData = metaData\<rparr>\<rparr>"
      using assms(8) tmpPath
      by (auto simp: MessageStore_Save_def tenantBlobDir_eq [OF assms(1-3)] Let_def bp split: if_splits)
    have "MessageStore_Get root tid' msgid' s' = MessageStore_Get root tid' msgid' s"
      if ne: "(tid', msgid') \<noteq> (tid, msgid)" for tid' msgid'
    proof (rule MessageStore_Get_frame [OF assms(1-3)])
      show "lookup2 (ms_data s') tid' msgid' = lookup2 (ms_data s) tid' msgid'" using ne by (auto simp: ok(3) go_simps)
      assume e: "lookup2 (ms_data s) tid' msgid' \<noteq> None" and "\<not> badSegment tid'" "\<not> badSegment msgid'"
      then have plain: "plainSegment tid'" "plainSegment msgid'" "plainSegment tid" "plainSegment msgid"
        using ok(1,2) by (auto intro: plain_not_bad)
      have "(tid', msgid') \<noteq> (tid, tmp)" using e assms(7) by auto
      then show "ms_files s' (dirPath (segs @ [tid', msgid'])) = ms_files s (dirPath (segs @ [tid', msgid']))"
        using blob_names_distinct [OF assms(2,3) plain(1-3) assms(4)] blob_names_distinct [OF assms(2,3) plain ne]
        by (simp add: ok(3))
    qed
    moreover have "MessageStore_Get root tid msgid s' = Ok (header, metaData, payload)"
      using ok(1,2) by (simp add: MessageStore_Get_def ok(3) go_simps bp)
    ultimately show ?thesis using Inr by simp
  qed
qed

theorem MessageStore_Save_atomic_witness:
  "let root = dirPath [''tmp'', ''blobs''];
       r = MessageStore_Save root noFail ''.tmp-1'' ''t'' ''m1'' plainHeader plainMeta ''hi'' emptyMsgs
   in fst r = Ok () \<and> MessageStore_Get root ''t'' ''m1'' (snd r) = Ok (plainHeader, plainMeta, ''hi'')"
proof -
  let ?root = "dirPath [''tmp'', ''blobs'']"
  let ?r = "MessageStore_Save ?root noFail ''.tmp-1'' ''t'' ''m1'' plainHeader plainMeta ''hi'' emptyMsgs"
  have ok: "fst ?r = Ok ()" by code_simp
  have hyps: "ms_files emptyMsgs p = None" "lookup2 (ms_data emptyMsgs) ''t'' m = None" for p m
    by (simp_all add: emptyMsgs_def lookup2_def)
  have "case fst ?r of
      Inl _ \<Rightarrow> snd ?r = emptyMsgs
    | Inr _ \<Rightarrow> MessageStore_Get ?root ''t'' ''m1'' (snd ?r) = Ok (plainHeader, plainMeta, ''hi'') \<and>
        (\<forall>tid' msgid'. (tid', msgid') \<noteq> (''t'', ''m1'') \<longrightarrow>
           MessageStore_Get ?root tid' msgid' (snd ?r) = MessageStore_Get ?root tid' msgid' emptyMsgs)"
    by (rule MessageStore_Save_atomic [OF refl _ _ _ _ hyps prod.collapse [symmetric]]) (auto simp: plainSegment_def)
  then show ?thesis using ok by (simp add: Let_def)
qed

end
