(* ===== verification/MemViews.thy ===== *)
theory MemViews
  imports MemProperties
begin

text \<open>
  What the multi-entity reads of the entity store return: \<^verbatim>\<open>GetPage\<close>, \<^verbatim>\<open>Count\<close> and \<^verbatim>\<open>CountByState\<close>
  (\<^verbatim>\<open>plugins/memory/entity_store.go\<close>) against a description of what a reader sees of each entity on its
  own. \<open>visibleAt\<close> is the committed state at a time, \<open>latestSees\<close> the latest committed state, and
  \<open>modelSees\<close> the view of a model inside a transaction: its own writes of the model over its snapshot.
\<close>

definition latestSees :: "StoreFactory \<Rightarrow> tenant \<Rightarrow> entityid \<Rightarrow> Entity option" where
  "latestSees f tid eid =
     (let vs = versions_of f tid eid in if vs = [] then None else v_entity (last vs))"

definition ofModel :: "ModelRef \<Rightarrow> Entity option \<Rightarrow> Entity option" where
  "ofModel ref o' = (case o' of None \<Rightarrow> None | Some e \<Rightarrow> if model_of e = ref then Some e else None)"

definition modelSees :: "StoreFactory \<Rightarrow> tenant \<Rightarrow> TransactionState \<Rightarrow> ModelRef \<Rightarrow> entityid \<Rightarrow> Entity option" where
  "modelSees f tid tx ref eid =
     (case map_of (bufferedOfModel ref tx) eid of
        Some e \<Rightarrow> Some e
      | None \<Rightarrow>
          if eid \<in> set (tx_Deletes tx) then None
          else ofModel ref (visibleAt f tid eid (tx_SnapshotTime tx)))"

text \<open>A list that holds exactly the entities a view shows, each once.\<close>

definition listsView :: "(entityid \<Rightarrow> Entity option) \<Rightarrow> Entity list \<Rightarrow> bool" where
  "listsView sees rows \<longleftrightarrow>
     distinct (map entity_id rows) \<and> (\<forall>eid e. sees eid = Some e \<longleftrightarrow> e \<in> set rows \<and> entity_id e = eid)"

text \<open>The window of a sorted view that a page shows, with the 64-bit sum of the source.\<close>

definition window :: "int \<Rightarrow> int \<Rightarrow> Entity list \<Rightarrow> Entity list result" where
  "window limit offset view =
     (if int (length view) \<le> offset then Ok []
      else if offset + limit < 2 ^ 63 then Ok (take (nat limit) (drop (nat offset) view))
      else Err (Panic ''slice bounds out of range''))"

text \<open>The view of a model that an operation on the current state or at a given time reads.\<close>

definition pageView :: "Ctx \<Rightarrow> StoreFactory \<Rightarrow> tenant \<Rightarrow> ModelRef \<Rightarrow> time option \<Rightarrow> entityid \<Rightarrow> Entity option" where
  "pageView ctx f tid ref asAt eid =
     (case asAt of
        Some t \<Rightarrow> ofModel ref (visibleAt f tid eid t)
      | None \<Rightarrow>
          (case GetTransaction f ctx of
             None \<Rightarrow> ofModel ref (latestSees f tid eid)
           | Some tx \<Rightarrow> modelSees f tid tx ref eid))"

definition txOpen :: "Ctx \<Rightarrow> StoreFactory \<Rightarrow> bool" where
  "txOpen ctx f =
     (case GetTransaction f ctx of None \<Rightarrow> True | Some tx \<Rightarrow> \<not> tx_RolledBack tx \<and> \<not> tx_Closed tx)"

definition stateCount :: "(entityid \<Rightarrow> Entity option) \<Rightarrow> string \<Rightarrow> nat" where
  "stateCount sees st = card {eid. \<exists>e. sees eid = Some e \<and> m_State (Meta e) = st}"

definition quietCtx :: "Ctx \<Rightarrow> bool" where
  "quietCtx ctx \<longleftrightarrow> c_Err ctx = (\<lambda>_ _. False)"

lemma pollScan_Ok:
  assumes "\<And>i. \<not> err i" "\<And>x. x \<in> set xs \<Longrightarrow> g x = Ok (h x)"
  shows "pollScan err i g xs = Ok (concat (map h xs))"
  using assms(2) by (induction xs arbitrary: i) (simp_all add: assms(1))

lemma entity_of_row: "row_ok tid eid v \<Longrightarrow> v_entity v = Some e \<Longrightarrow> entity_id e = eid"
  by (simp add: row_ok_def)

lemma deleted_row: "row_ok tid eid v \<Longrightarrow> v_deleted v \<longleftrightarrow> v_entity v = None"
  by (auto simp: row_ok_def split: option.splits)

lemma hist_row: "hist_ok f \<Longrightarrow> v \<in> set (versions_of f tid eid) \<Longrightarrow> row_ok tid eid v"
  by (auto simp: hist_ok_def)

lemma visible_id:
  assumes "hist_ok f" "visibleAt f tid eid t = Some e" shows "entity_id e = eid"
proof -
  let ?r = "visibleRows t (versions_of f tid eid)"
  from assms(2) have v: "?r \<noteq> []" "v_entity (last ?r) = Some e" by (auto simp: visibleAt_def Let_def split: if_splits)
  then have "last ?r \<in> set (versions_of f tid eid)" using last_in_set [OF v(1)] by (simp add: visibleRows_def)
  then show ?thesis by (rule entity_of_row [OF hist_row [OF assms(1)] v(2)])
qed

lemma latest_id:
  assumes "hist_ok f" "latestSees f tid eid = Some e" shows "entity_id e = eid"
proof -
  from assms(2) have v: "versions_of f tid eid \<noteq> []" "v_entity (last (versions_of f tid eid)) = Some e"
    by (auto simp: latestSees_def Let_def split: if_splits)
  then show ?thesis using entity_of_row [OF hist_row [OF assms(1) last_in_set [OF v(1)]] v(2)] by simp
qed

lemma stored_key:
  assumes "hist_ok f" "(eid, vs) \<in> set (sf_entityData f tid)" shows "versions_of f tid eid = vs"
  using assms by (auto simp: hist_ok_def versions_of_def or_nil_def)

lemma unstored_key: "eid \<notin> fst ` set (sf_entityData f tid) \<Longrightarrow> versions_of f tid eid = []"
  by (simp add: versions_of_def map_of_eq_None_iff [symmetric])

text \<open>A scan over the stored histories lists the view it reads row by row.\<close>

lemma scan_lists:
  assumes h: "hist_ok f" and ids: "\<And>eid e. sees eid = Some e \<Longrightarrow> entity_id e = eid"
    and row: "\<And>eid vs. (eid, vs) \<in> set (sf_entityData f tid) \<Longrightarrow>
                g (eid, vs) = Ok (case sees eid of None \<Rightarrow> [] | Some e \<Rightarrow> [e])"
    and none: "\<And>eid. eid \<notin> fst ` set (sf_entityData f tid) \<Longrightarrow> sees eid = None"
    and err: "\<And>i. \<not> err i"
  shows "\<exists>rows. pollScan err 0 g (sf_entityData f tid) = Ok rows \<and> listsView sees rows"
proof -
  let ?h = "\<lambda>p. case sees (fst p) of None \<Rightarrow> [] | Some e \<Rightarrow> [e]"
  let ?rows = "concat (map ?h (sf_entityData f tid))"
  have ok: "pollScan err 0 g (sf_entityData f tid) = Ok ?rows"
    by (rule pollScan_Ok [OF err]) (use row in auto)
  have sub: "entity_id ` set (concat (map ?h xs)) \<subseteq> fst ` set xs" for xs :: "(entityid \<times> entityVersion list) list"
  proof
    fix i assume "i \<in> entity_id ` set (concat (map ?h xs))"
    then obtain e p where e: "i = entity_id e" "p \<in> set xs" "e \<in> set (?h p)" by auto
    then have "sees (fst p) = Some e" by (simp split: option.splits)
    then show "i \<in> fst ` set xs" using ids [of "fst p" e] e by simp
  qed
  have "distinct (map entity_id (concat (map ?h xs)))" if "distinct (map fst xs)" for xs :: "(entityid \<times> entityVersion list) list"
    using that
  proof (induction xs)
    case (Cons p xs)
    then have d: "distinct (map entity_id (concat (map ?h xs)))" "fst p \<notin> entity_id ` set (concat (map ?h xs))"
      using sub [of xs] by auto
    show ?case
    proof (cases "sees (fst p)")
      case None
      then show ?thesis using d(1) by simp
    next
      case (Some e)
      then show ?thesis using d ids [OF Some] by simp
    qed
  qed simp
  then have "distinct (map entity_id ?rows)" using h by (simp add: hist_ok_def)
  moreover have "sees eid = Some e \<longleftrightarrow> e \<in> set ?rows \<and> entity_id e = eid" for eid e
  proof
    assume s: "sees eid = Some e"
    then have "eid \<in> fst ` set (sf_entityData f tid)" using none [of eid] by (cases "eid \<in> fst ` set (sf_entityData f tid)") simp_all
    then obtain vs where "(eid, vs) \<in> set (sf_entityData f tid)" by auto
    then have "e \<in> (\<Union>p \<in> set (sf_entityData f tid). set (?h p))" by (rule UN_I) (simp add: s)
    then show "e \<in> set ?rows \<and> entity_id e = eid" using ids [OF s] by simp
  next
    assume e: "e \<in> set ?rows \<and> entity_id e = eid"
    then have "e \<in> (\<Union>p \<in> set (sf_entityData f tid). set (?h p))" by simp
    then obtain p :: "entityid \<times> entityVersion list" where "e \<in> set (?h p)" by blast
    then have "sees (fst p) = Some e" by (simp split: option.splits)
    then show "sees eid = Some e" using ids [of "fst p" e] e by simp
  qed
  ultimately have "listsView sees ?rows" unfolding listsView_def by blast
  then show ?thesis using ok by blast
qed

lemma snapshotRow_sees:
  assumes "hist_ok f" "(eid, vs) \<in> set (sf_entityData f tid)"
  shows "snapshotRow ref t (eid, vs) =
     Ok (case ofModel ref (visibleAt f tid eid t) of
           None \<Rightarrow> [] | Some e \<Rightarrow> [e])"
proof -
  have vs: "versions_of f tid eid = vs" using assms by (rule stored_key)
  have "getSnapshotVersion f tid eid t = (case visibleAt f tid eid t of None \<Rightarrow> Err ErrNotFound | Some e \<Rightarrow> Ok e)"
    by (rule getSnapshotVersion_visible [OF assms(1)])
  then show ?thesis
    by (auto simp: snapshotRow_def getSnapshotVersion_def ofModel_def vs split: option.splits prod.splits)
qed

lemma snapshot_lists:
  assumes "hist_ok f" "\<And>i. \<not> err i"
  shows "\<exists>rows. getAllSnapshotPointersUnlocked err f tid ref t = Ok rows \<and>
           listsView (\<lambda>eid. ofModel ref (visibleAt f tid eid t)) rows"
  unfolding getAllSnapshotPointersUnlocked_def
proof (rule scan_lists [where g = "snapshotRow ref t" and sees = "\<lambda>eid. ofModel ref (visibleAt f tid eid t)",
      OF assms(1) _ snapshotRow_sees [OF assms(1)] _ assms(2)])
  show "entity_id e = eid"
    if "ofModel ref (visibleAt f tid eid t) = Some e" for eid e
    using that visible_id [OF assms(1)] by (auto simp: ofModel_def split: option.splits if_splits)
  show "ofModel ref (visibleAt f tid eid t) = None"
    if "eid \<notin> fst ` set (sf_entityData f tid)" for eid
    using unstored_key [OF that] by (simp add: visibleAt_def visibleRows_def ofModel_def)
qed

lemma latestRow_sees:
  assumes "hist_ok f" "(eid, vs) \<in> set (sf_entityData f tid)"
  shows "latestRow ref (eid, vs) =
     Ok (case ofModel ref (latestSees f tid eid) of
           None \<Rightarrow> [] | Some e \<Rightarrow> [e])"
proof -
  have vs: "versions_of f tid eid = vs" using assms by (rule stored_key)
  have "v_deleted (last vs) \<longleftrightarrow> v_entity (last vs) = None" if "vs \<noteq> []"
    using deleted_row [OF hist_row [OF assms(1), of "last vs" tid eid]] last_in_set [OF that] vs by simp
  then show ?thesis by (auto simp: latestRow_def liveLatest_def latestSees_def ofModel_def vs Let_def split: option.split)
qed

lemma latest_lists:
  assumes "hist_ok f" "\<And>i. \<not> err i"
  shows "\<exists>rows. pollScan err 0 (latestRow ref) (sf_entityData f tid) = Ok rows \<and>
           listsView (\<lambda>eid. ofModel ref (latestSees f tid eid)) rows"
proof (rule scan_lists [where g = "latestRow ref" and sees = "\<lambda>eid. ofModel ref (latestSees f tid eid)",
      OF assms(1) _ latestRow_sees [OF assms(1)] _ assms(2)])
  show "entity_id e = eid"
    if "ofModel ref (latestSees f tid eid) = Some e" for eid e
    using that latest_id [OF assms(1)] by (auto simp: ofModel_def split: option.splits if_splits)
  show "ofModel ref (latestSees f tid eid) = None"
    if "eid \<notin> fst ` set (sf_entityData f tid)" for eid
    using unstored_key [OF that] by (simp add: latestSees_def ofModel_def)
qed

lemma option_eqI: "(\<And>x. a = Some x \<longleftrightarrow> b = Some x) \<Longrightarrow> a = b"
  by (cases a; cases b) auto

lemma map_of_fold_update:
  assumes "distinct (map fst ps)"
  shows "map_of (fold (\<lambda>p. AList.update (fst p) (snd p)) ps al) k =
           (case map_of ps k of Some v \<Rightarrow> Some v | None \<Rightarrow> map_of al k)"
  using assms
proof (induction ps arbitrary: al)
  case (Cons p ps)
  then have "map_of ps (fst p) = None" by (simp add: map_of_eq_None_iff)
  then show ?case using Cons by (cases p) (auto split: option.split)
qed simp

lemma fold_update_keys:
  "distinct (map fst al) \<Longrightarrow> distinct (map fst (fold (\<lambda>p. AList.update (fst p) (snd p)) ps al))"
  "(\<And>p. p \<in> set ps \<union> set al \<Longrightarrow> P p) \<Longrightarrow> q \<in> set (fold (\<lambda>p. AList.update (fst p) (snd p)) ps al) \<Longrightarrow> P q"
proof -
  show "distinct (map fst al) \<Longrightarrow> distinct (map fst (fold (\<lambda>p. AList.update (fst p) (snd p)) ps al))"
    by (induction ps arbitrary: al) simp_all
  show "(\<And>p. p \<in> set ps \<union> set al \<Longrightarrow> P p) \<Longrightarrow> q \<in> set (fold (\<lambda>p. AList.update (fst p) (snd p)) ps al) \<Longrightarrow> P q"
  proof (induction ps arbitrary: al)
    case (Cons p ps)
    have "P x" if "x \<in> set ps \<union> set (AList.update (fst p) (snd p) al)" for x
      using that Cons.prems(1) [of x] Cons.prems(1) [of p] in_alist_updateD [of x "fst p" "snd p" al] by auto
    then show ?case using Cons.IH Cons.prems(2) by auto
  qed simp
qed

lemma keyed_listsView:
  assumes "distinct (map fst al)" "\<And>p. p \<in> set al \<Longrightarrow> entity_id (snd p) = fst p"
  shows "listsView (map_of al) (map snd al)"
proof -
  have "map entity_id (map snd al) = map fst al" using assms(2) by simp
  moreover have "map_of al eid = Some e \<longleftrightarrow> e \<in> set (map snd al) \<and> entity_id e = eid" for eid e
  proof
    assume "map_of al eid = Some e"
    then have "(eid, e) \<in> set al" by (rule map_of_SomeD)
    then show "e \<in> set (map snd al) \<and> entity_id e = eid" using assms(2) by force
  next
    assume "e \<in> set (map snd al) \<and> entity_id e = eid"
    then obtain k where "(k, e) \<in> set al" "entity_id e = eid" by auto
    then show "map_of al eid = Some e" using assms(2) [of "(k, e)"] assms(1) by auto
  qed
  ultimately show ?thesis using assms(1) unfolding listsView_def by (simp only:) blast
qed

lemma listsView_mset:
  assumes "listsView sees rows" "set rows' = set rows" "distinct (map entity_id rows')"
  shows "listsView sees rows'"
  using assms by (simp add: listsView_def)

lemma bufferedOfModel_ok:
  assumes "tx_ok t tx"
  shows "distinct (map fst (bufferedOfModel ref tx))" "p \<in> set (bufferedOfModel ref tx) \<Longrightarrow> entity_id (snd p) = fst p"
  using assms by (auto simp: tx_ok_def buf_ok_def bufferedOfModel_def distinct_map_filter)

lemma merged_lists:
  assumes "tx_ok t tx" "listsView (\<lambda>eid. ofModel ref (visibleAt f tid eid (tx_SnapshotTime tx))) rows"
  shows "listsView (modelSees f tid tx ref) (map snd (mergedView ref tx rows))"
proof -
  let ?es = "filter (\<lambda>e. entity_id e \<notin> set (tx_Deletes tx)) rows"
  let ?ps = "map (\<lambda>e. (entity_id e, e)) ?es"
  have d: "distinct (map fst ?ps)" using assms(2) by (simp add: listsView_def comp_def distinct_map_filter)
  have fold: "fold (\<lambda>e. AList.update (entity_id e) e) ?es [] = fold (\<lambda>p. AList.update (fst p) (snd p)) ?ps []"
    by (simp add: fold_map comp_def)
  have look: "map_of (mergedView ref tx rows) eid = modelSees f tid tx ref eid" for eid
  proof -
    have "map_of ?ps eid = (if eid \<in> set (tx_Deletes tx) then None
        else ofModel ref (visibleAt f tid eid (tx_SnapshotTime tx)))"
    proof -
      have "map_of ?ps eid = Some e \<longleftrightarrow> eid \<notin> set (tx_Deletes tx) \<and> ofModel ref (visibleAt f tid eid (tx_SnapshotTime tx)) = Some e" for e
        using assms(2) map_of_eq_Some_iff [OF d] by (auto simp: listsView_def)
      then show ?thesis by (intro option_eqI) (simp only: if_split option.distinct simp_thms split: if_split, blast)
    qed
    then show ?thesis
      unfolding mergedView_def fold map_of_fold_update [OF bufferedOfModel_ok(1) [OF assms(1)]] map_of_fold_update [OF d]
        modelSees_def by (simp split: option.split)
  qed
  have "distinct (map fst (mergedView ref tx rows))"
    unfolding mergedView_def fold by (intro fold_update_keys(1)) simp
  moreover have c: "entity_id (snd q) = fst q" if "q \<in> set (fold (\<lambda>p. AList.update (fst p) (snd p)) ?ps [])" for q
    by (rule fold_update_keys(2) [OF _ that]) auto
  have "entity_id (snd p) = fst p" if m: "p \<in> set (mergedView ref tx rows)" for p
    by (rule fold_update_keys(2) [OF _ m [unfolded mergedView_def fold]])
       (use c bufferedOfModel_ok(2) [OF assms(1)] in blast)
  ultimately have "listsView (map_of (mergedView ref tx rows)) (map snd (mergedView ref tx rows))" by (rule keyed_listsView)
  moreover have "map_of (mergedView ref tx rows) = modelSees f tid tx ref" using look by (rule ext)
  ultimately show ?thesis by simp
qed

lemma pageSlice_window:
  assumes "1 \<le> limit" "limit < 2 ^ 63" "0 \<le> offset" "int (length rows) < 2 ^ 63"
  shows "pageSlice rows limit offset = window limit offset (sort_key entity_id rows)"
proof -
  let ?n = "int (length rows)"
  have w: "wrap64 (offset + limit) = (if offset + limit < 2 ^ 63 then offset + limit else offset + limit - 2 ^ 64)"
    if "offset < ?n"
    using that assms wrap64_id [of "offset + limit"] wrap64_over [of "offset + limit"] by auto
  have "take (nat (?n - offset)) (drop (nat offset) xs) = take (nat limit) (drop (nat offset) xs)"
    if "?n < offset + limit" "length xs = length rows" for xs :: "Entity list"
    using that assms(3) by (simp add: nat_diff_distrib)
  then show ?thesis
    using w assms by (auto simp: pageSlice_def window_def Let_def)
qed

lemma sort_listsView: "listsView sees rows \<Longrightarrow> listsView sees (sort_key entity_id rows)"
  by (rule listsView_mset) (auto simp: listsView_def distinct_map)

lemma listsView_dom:
  assumes "listsView sees rows"
  shows "dom sees = entity_id ` set rows" "card (dom sees) = length rows"
proof -
  show d: "dom sees = entity_id ` set rows" using assms by (auto simp: listsView_def)
  have "card (set (map entity_id rows)) = length (map entity_id rows)"
    using assms by (intro distinct_card) (simp add: listsView_def)
  then show "card (dom sees) = length rows" unfolding d by simp
qed

lemma snapshot_view:
  assumes "mem_inv f" "quietCtx ctx"
  shows "\<exists>rows. getAllSnapshotPointersUnlocked (c_Err ctx n) f tid ref t = Ok rows \<and>
           listsView (\<lambda>eid. ofModel ref (visibleAt f tid eid t)) rows"
  using mem_inv_D(1) [OF assms(1)] assms(2) by (intro snapshot_lists) (simp_all add: quietCtx_def)

lemma current_view:
  assumes "mem_inv f" "\<And>i. \<not> err i"
  shows "\<exists>rows. pollScan err 0 (latestRow ref) (sf_entityData f tid) = Ok rows \<and>
           listsView (\<lambda>eid. ofModel ref (latestSees f tid eid)) rows"
  using mem_inv_D(1) [OF assms(1)] assms(2) by (intro latest_lists)

lemma tx_of_ctx:
  assumes "mem_inv f" "GetTransaction f ctx = Some tx" shows "\<exists>t. c_Tx ctx = Some t \<and> sf_txHeap f t = Some tx \<and> tx_ok t tx"
  using assms by (auto simp: GetTransaction_def mem_inv_def split: option.splits)

text \<open>
  C29. A page is a window of the view. For the current state, a point in time and inside a transaction
  alike, \<^verbatim>\<open>GetPage\<close> returns the window of the model's entities in the order of their ids; so
  consecutive pages cover each entity of the view once. When \<^verbatim>\<open>offset + limit\<close> exceeds 64 bits and the
  offset is inside the view, the slice expression panics instead.
\<close>

theorem GetPage_window:
  assumes "mem_inv f" "quietCtx ctx" "txOpen ctx f"
    and "1 \<le> limit" "limit < 2 ^ 63" "0 \<le> offset"
    and "int (card (dom (pageView ctx f tid ref asAt))) < 2 ^ 63"
  shows "\<exists>view. listsView (pageView ctx f tid ref asAt) view \<and> sorted (map entity_id view) \<and>
           fst (EntityStore_GetPage ctx tid ref limit offset asAt f) = window limit offset view"
proof -
  have win: "pageSlice rows limit offset = window limit offset (sort_key entity_id rows)"
    if "listsView (pageView ctx f tid ref asAt) rows" for rows
    using pageSlice_window [OF assms(4-6), of rows] assms(7) listsView_dom(2) [OF that] by simp
  have fin: ?thesis
    if "listsView (pageView ctx f tid ref asAt) rows"
      "fst (EntityStore_GetPage ctx tid ref limit offset asAt f) = pageSlice rows limit offset" for rows
    using that win [OF that(1)] sort_listsView [OF that(1)]
    by (intro exI [of _ "sort_key entity_id rows"]) simp
  show ?thesis
  proof (cases asAt)
    case (Some t)
    obtain rows where r: "getAllSnapshotPointersUnlocked (c_Err ctx 0) f tid ref t = Ok rows"
      "listsView (\<lambda>eid. ofModel ref (visibleAt f tid eid t)) rows"
      using snapshot_view [OF assms(1,2)] by blast
    have "pageView ctx f tid ref asAt = (\<lambda>eid. ofModel ref (visibleAt f tid eid t))"
      using Some by (simp add: pageView_def fun_eq_iff)
    then show ?thesis using r Some assms(4,6) by (intro fin [of rows]) (simp_all add: EntityStore_GetPage_def)
  next
    case None
    show ?thesis
    proof (cases "GetTransaction f ctx")
      case no: None
      obtain rows where r: "pollScan (c_Err ctx 0) 0 (latestRow ref) (sf_entityData f tid) = Ok rows"
        "listsView (\<lambda>eid. ofModel ref (latestSees f tid eid)) rows"
        using current_view [OF assms(1), of "c_Err ctx 0"] assms(2) by (auto simp: quietCtx_def)
      have "pageView ctx f tid ref asAt = (\<lambda>eid. ofModel ref (latestSees f tid eid))"
        using None no by (simp add: pageView_def fun_eq_iff)
      then show ?thesis
        using r None no assms(4,6)
        by (intro fin [of rows]) (simp_all add: EntityStore_GetPage_def currentStatePointersUnlocked_def)
    next
      case (Some tx)
      obtain t where t: "tx_ok t tx" using tx_of_ctx [OF assms(1) Some] by blast
      obtain rows where r: "getAllSnapshotPointersUnlocked (c_Err ctx 0) f tid ref (tx_SnapshotTime tx) = Ok rows"
        "listsView (\<lambda>eid. ofModel ref (visibleAt f tid eid (tx_SnapshotTime tx))) rows"
        using snapshot_view [OF assms(1,2)] by blast
      have "checkOpen tx = Ok ()" using assms(3) Some by (simp add: txOpen_def checkOpen_def)
      moreover have "pageView ctx f tid ref asAt = modelSees f tid tx ref"
        using None Some by (simp add: pageView_def fun_eq_iff)
      ultimately show ?thesis
        using r(1) merged_lists [OF t r(2)] None Some assms(4,6)
        by (intro fin [of "map snd (mergedView ref tx rows)"]) (simp_all add: EntityStore_GetPage_def split: sum.split)
    qed
  qed
qed

lemma pageView_bound:
  "card (dom (pageView ctx f tid ref asAt)) \<le>
     length (sf_entityData f tid) + (case GetTransaction f ctx of None \<Rightarrow> 0 | Some tx \<Rightarrow> length (tx_Buffer tx))"
proof -
  let ?b = "case GetTransaction f ctx of None \<Rightarrow> [] | Some tx \<Rightarrow> map fst (tx_Buffer tx)"
  have none: "eid \<notin> fst ` set (sf_entityData f tid) \<Longrightarrow> visibleAt f tid eid t = None \<and> latestSees f tid eid = None" for eid t
    using unstored_key [of eid f tid] by (simp add: visibleAt_def visibleRows_def latestSees_def)
  have "dom (pageView ctx f tid ref asAt) \<subseteq> set (map fst (sf_entityData f tid) @ ?b)"
  proof
    fix eid assume d: "eid \<in> dom (pageView ctx f tid ref asAt)"
    show "eid \<in> set (map fst (sf_entityData f tid) @ ?b)"
    proof (rule ccontr)
      assume n: "eid \<notin> set (map fst (sf_entityData f tid) @ ?b)"
      have "map_of (bufferedOfModel ref tx) eid = None" if "GetTransaction f ctx = Some tx" for tx
        using n that by (auto simp: map_of_eq_None_iff bufferedOfModel_def)
      then have "pageView ctx f tid ref asAt eid = None"
        using none [of eid] n by (auto simp: pageView_def modelSees_def ofModel_def split: option.splits)
      then show False using d by auto
    qed
  qed
  then have "card (dom (pageView ctx f tid ref asAt)) \<le> card (set (map fst (sf_entityData f tid) @ ?b))"
    by (rule card_mono [OF finite_set])
  also have "\<dots> \<le> length (map fst (sf_entityData f tid) @ ?b)" by (rule card_length)
  finally show ?thesis by (simp split: option.splits)
qed

theorem GetPage_window_witness:
  "\<exists>view. sorted (map entity_id view) \<and>
     fst (EntityStore_GetPage (ctxOf ''t'' (Some ''x'')) ''t'' \<lparr>EntityName = ''m'', ModelVersion = ''1''\<rparr> 10 0 None openTx) =
       window 10 0 view \<and>
     map_sum (\<lambda>e. e) (map entity_id)
       (fst (EntityStore_GetPage (ctxOf ''t'' (Some ''x'')) ''t'' \<lparr>EntityName = ''m'', ModelVersion = ''1''\<rparr> 10 0 None openTx)) =
       Ok [''e'']"
proof -
  let ?c = "ctxOf ''t'' (Some ''x'')" and ?m = "\<lparr>EntityName = ''m'', ModelVersion = ''1''\<rparr>"
  have run: "map_sum (\<lambda>e. e) (map entity_id) (fst (EntityStore_GetPage ?c ''t'' ?m 10 0 None openTx)) = Ok [''e'']"
    "length (sf_entityData openTx ''t'') + (case GetTransaction openTx ?c of None \<Rightarrow> 0 | Some tx \<Rightarrow> length (tx_Buffer tx)) = 2"
    "txOpen ?c openTx"
    by code_simp+
  have "quietCtx ?c" by (simp add: quietCtx_def ctxOf_def)
  moreover have "int (card (dom (pageView ?c openTx ''t'' ?m None))) < 2 ^ 63"
    using pageView_bound [of ?c openTx "''t''" ?m None] run(2) by simp
  ultimately show ?thesis
    using GetPage_window [OF openTx_inv _ run(3), of 10 0 "''t''" ?m None] run(1) by auto
qed

lemma count_map_card:
  assumes "listsView sees rows"
  shows "count_list (map (\<lambda>e. m_State (Meta e)) rows) st = stateCount sees st"
proof -
  let ?r = "filter (\<lambda>e. m_State (Meta e) = st) rows"
  have "distinct (map entity_id ?r)" using assms by (simp add: listsView_def distinct_map_filter)
  then have "length ?r = card (set (map entity_id ?r))" by (metis distinct_card length_map)
  also have "set (map entity_id ?r) = {eid. \<exists>e. sees eid = Some e \<and> m_State (Meta e) = st}"
    using assms by (auto simp: listsView_def)
  finally have "length ?r = stateCount sees st" by (simp add: stateCount_def)
  moreover have "count_list (map g xs) st = length (filter (\<lambda>e. g e = st) xs)" for g :: "Entity \<Rightarrow> string" and xs
    by (induction xs) auto
  ultimately show ?thesis by simp
qed

lemma tallyStates_count:
  "tallyStates states sts st =
     (if (case states of None \<Rightarrow> True | Some l \<Rightarrow> st \<in> set l) \<and> st \<in> set sts
      then Some (int (count_list sts st)) else None)"
proof -
  let ?ok = "\<lambda>st. case states of None \<Rightarrow> True | Some l \<Rightarrow> st \<in> set l"
  let ?step = "\<lambda>st m. if ?ok st then m(st \<mapsto> (case m st of None \<Rightarrow> 0 | Some n \<Rightarrow> n) + 1) else m"
  have "fold ?step sts m st =
      (if ?ok st \<and> st \<in> set sts then Some ((case m st of None \<Rightarrow> 0 | Some n \<Rightarrow> n) + int (count_list sts st)) else m st)"
    for m :: "string \<rightharpoonup> int"
  proof (induction sts arbitrary: m)
    case (Cons x sts)
    show ?case
    proof (cases "x = st")
      case True
      then show ?thesis using Cons.IH [of "?step st m"] by (auto simp: count_notin)
    next
      case False
      then have "?step x m st = m st" by simp
      then show ?thesis using Cons.IH [of "?step x m"] False by simp
    qed
  qed simp
  then show ?thesis by (simp add: tallyStates_def)
qed

lemma ofModel_Some: "ofModel ref o' = Some e \<longleftrightarrow> o' = Some e \<and> model_of e = ref"
  by (auto simp: ofModel_def split: option.split)

lemma map_of_bufferedOfModel:
  assumes "tx_ok t tx" shows "map_of (bufferedOfModel ref tx) eid = ofModel ref (map_of (tx_Buffer tx) eid)"
proof (rule option_eqI)
  fix e
  have "distinct (map fst (tx_Buffer tx))" using assms by (simp add: tx_ok_def buf_ok_def)
  then show "map_of (bufferedOfModel ref tx) eid = Some e \<longleftrightarrow> ofModel ref (map_of (tx_Buffer tx) eid) = Some e"
    using bufferedOfModel_ok(1) [OF assms, of ref] by (simp add: ofModel_Some) (auto simp: bufferedOfModel_def)
qed

lemma countTx_lists:
  assumes "mem_inv f" "quietCtx ctx" "GetTransaction f ctx = Some tx"
  shows "\<exists>rows. countTx ctx f tid tx ref = Ok (map (\<lambda>e. m_State (Meta e)) rows) \<and> listsView (modelSees f tid tx ref) rows"
proof -
  obtain t where t: "tx_ok t tx" using tx_of_ctx [OF assms(1,3)] by blast
  obtain rows where r: "getAllSnapshotPointersUnlocked (c_Err ctx 0) f tid ref (tx_SnapshotTime tx) = Ok rows"
    "listsView (\<lambda>eid. ofModel ref (visibleAt f tid eid (tx_SnapshotTime tx))) rows"
    using snapshot_view [OF assms(1,2)] by blast
  let ?keep = "\<lambda>e. entity_id e \<notin> set (tx_Deletes tx) \<and> map_of (bufferedOfModel ref tx) (entity_id e) = None"
  let ?own = "map snd (bufferedOfModel ref tx)"
  note b = bufferedOfModel_ok(1) [OF t, of ref] bufferedOfModel_ok(2) [OF t, of _ ref]
  have live: "filter (\<lambda>p. fst p \<notin> set (tx_Deletes tx)) (bufferedOfModel ref tx) = bufferedOfModel ref tx"
  proof (rule filter_True, rule ballI)
    fix p assume "p \<in> set (bufferedOfModel ref tx)"
    then have "fst p \<in> fst ` set (tx_Buffer tx)" by (simp add: bufferedOfModel_def)
    moreover have "set (tx_Deletes tx) \<inter> fst ` set (tx_Buffer tx) = {}" using t by (simp add: tx_ok_def buf_ok_def)
    ultimately show "fst p \<notin> set (tx_Deletes tx)" by blast
  qed
  have "countTx ctx f tid tx ref =
      Ok (map (\<lambda>e. m_State (Meta e)) (filter ?keep rows) @ map (\<lambda>e. m_State (Meta e)) ?own)"
  proof -
    have "pollScan (c_Err ctx 1) 0
        (\<lambda>e. if entity_id e \<in> set (tx_Deletes tx) then Ok []
              else case map_of (tx_Buffer tx) (entity_id e) of
                     Some b \<Rightarrow> Ok (if model_of b = ref then [] else [m_State (Meta e)])
                   | None \<Rightarrow> Ok [m_State (Meta e)]) rows =
        Ok (concat (map (\<lambda>e. if ?keep e then [m_State (Meta e)] else []) rows))"
      by (rule pollScan_Ok)
         (use assms(2) in \<open>auto simp: quietCtx_def map_of_bufferedOfModel [OF t] ofModel_def split: option.splits\<close>)
    moreover have "concat (map (\<lambda>e. if P e then [g e] else []) xs) = map g (filter P xs)" for P and g :: "Entity \<Rightarrow> string" and xs
      by (induction xs) auto
    ultimately show ?thesis using r(1) by (simp add: countTx_def live)
  qed
  moreover have "listsView (modelSees f tid tx ref) (filter ?keep rows @ ?own)"
  proof -
    have own: "listsView (map_of (bufferedOfModel ref tx)) ?own" by (rule keyed_listsView [OF b(1)]) (rule b(2))
    have "distinct (map entity_id (filter ?keep rows @ ?own))"
      using r(2) own by (auto simp: listsView_def distinct_map_filter map_of_eq_None_iff b(2))
    moreover have "modelSees f tid tx ref eid = Some e \<longleftrightarrow> e \<in> set (filter ?keep rows @ ?own) \<and> entity_id e = eid" for eid e
    proof (cases "map_of (bufferedOfModel ref tx) eid")
      case None
      then have "\<not> (e \<in> set ?own \<and> entity_id e = eid)" using own unfolding listsView_def by (metis option.distinct(1))
      moreover have "ofModel ref (visibleAt f tid eid (tx_SnapshotTime tx)) = Some e \<longleftrightarrow> e \<in> set rows \<and> entity_id e = eid"
        using r(2) by (simp add: listsView_def)
      ultimately show ?thesis using None by (auto simp: modelSees_def simp del: set_map)
    next
      case (Some e')
      then have "Some e' = Some e \<longleftrightarrow> e \<in> set ?own \<and> entity_id e = eid" using own unfolding listsView_def by metis
      then show ?thesis using Some by (auto simp: modelSees_def simp del: set_map)
    qed
    ultimately show ?thesis unfolding listsView_def by blast
  qed
  ultimately show ?thesis by (intro exI [of _ "filter ?keep rows @ ?own"] conjI) (simp only: map_append)
qed

text \<open>
  C28. The counters agree with the view: \<^verbatim>\<open>Count\<close> is the number of entities of the model that the caller
  sees (inside a transaction its own writes and deletes included), and \<^verbatim>\<open>CountByState\<close> counts them per
  state, restricted to the states asked for, with no entry for a state that has none.
\<close>

theorem counts_match_view:
  assumes "mem_inv f" "quietCtx ctx" "txOpen ctx f"
  shows "EntityStore_Count ctx tid ref f = Ok (int (card (dom (pageView ctx f tid ref None)))) \<and>
         (\<exists>m. EntityStore_CountByState ctx tid ref states f = Ok m \<and>
            (\<forall>st. m st = (if (case states of None \<Rightarrow> True | Some l \<Rightarrow> st \<in> set l) \<and>
                             0 < stateCount (pageView ctx f tid ref None) st
                          then Some (int (stateCount (pageView ctx f tid ref None) st)) else None)))"
proof -
  let ?view = "pageView ctx f tid ref None"
  let ?st = "map (\<lambda>e. m_State (Meta e))"
  have "\<exists>rows. listsView ?view rows \<and> EntityStore_Count ctx tid ref f = Ok (int (length rows)) \<and>
      (states \<noteq> Some [] \<longrightarrow> EntityStore_CountByState ctx tid ref states f = Ok (tallyStates states (?st rows)))"
  proof (cases "GetTransaction f ctx")
    case None
    then have v: "?view = (\<lambda>eid. ofModel ref (latestSees f tid eid))" by (simp add: pageView_def fun_eq_iff)
    obtain rows where "latestOfModel f tid ref = Ok rows" "listsView ?view rows"
      using current_view [OF assms(1), of "\<lambda>_. False"] unfolding latestOfModel_def v by blast
    then show ?thesis using None by (intro exI [of _ rows]) (simp add: EntityStore_Count_def EntityStore_CountByState_def)
  next
    case (Some tx)
    then have v: "?view = modelSees f tid tx ref" by (simp add: pageView_def fun_eq_iff)
    have o: "checkOpen tx = Ok ()" using assms(3) Some by (simp add: txOpen_def checkOpen_def)
    obtain rows where "countTx ctx f tid tx ref = Ok (?st rows)" "listsView ?view rows"
      using countTx_lists [OF assms(1,2) Some] unfolding v by blast
    then show ?thesis
      using Some o by (intro exI [of _ rows]) (simp add: EntityStore_Count_def EntityStore_CountByState_def)
  qed
  then obtain rows where rows: "listsView ?view rows" "EntityStore_Count ctx tid ref f = Ok (int (length rows))"
    "states \<noteq> Some [] \<Longrightarrow> EntityStore_CountByState ctx tid ref states f = Ok (tallyStates states (?st rows))" by blast
  have cnt: "count_list (?st rows) st = stateCount ?view st" for st by (rule count_map_card [OF rows(1)])
  have pos: "st \<in> set (?st rows) \<longleftrightarrow> 0 < stateCount ?view st" for st
    unfolding cnt [symmetric] using count_list_0_iff [of "?st rows" st] by auto
  show ?thesis
  proof (cases "states = Some []")
    case True
    then show ?thesis using rows(2) listsView_dom(2) [OF rows(1)] by (simp add: EntityStore_CountByState_def)
  next
    case False
    then show ?thesis
      using rows(2) rows(3) [OF False] listsView_dom(2) [OF rows(1)]
      by (simp add: tallyStates_count cnt pos del: set_map)
  qed
qed

theorem counts_match_view_witness:
  "EntityStore_Count (ctxOf ''t'' (Some ''x'')) ''t'' \<lparr>EntityName = ''m'', ModelVersion = ''1''\<rparr> openTx = Ok 1 \<and>
   card (dom (pageView (ctxOf ''t'' (Some ''x'')) openTx ''t'' \<lparr>EntityName = ''m'', ModelVersion = ''1''\<rparr> None)) = 1"
proof -
  let ?c = "ctxOf ''t'' (Some ''x'')" and ?m = "\<lparr>EntityName = ''m'', ModelVersion = ''1''\<rparr>"
  have "EntityStore_Count ?c ''t'' ?m openTx = Ok 1" "txOpen ?c openTx" by code_simp+
  moreover have "quietCtx ?c" by (simp add: quietCtx_def ctxOf_def)
  ultimately show ?thesis using counts_match_view [OF openTx_inv, of ?c "''t''" ?m None] by simp
qed

end
