(* ===== verification/MemSearcher.thy ===== *)
theory MemSearcher
  imports MemViews
begin

text \<open>
  Searching a model (\<^verbatim>\<open>plugins/memory/searcher.go\<close>, \<^verbatim>\<open>path_validation.go\<close>). What the SPI module decides is a
  parameter, collected in \<open>SearchSpi\<close>: whether a filter can be prepared and what it matches
  (\<^verbatim>\<open>spi.Prepare\<close>), the canonical order (\<^verbatim>\<open>spi.LessByOrder\<close>), the bounded merge (\<^verbatim>\<open>spi.MergeBounded\<close>) and the
  path grammar (\<^verbatim>\<open>spi.ValidateFilterPath\<close>, \<^verbatim>\<open>spi.ParseFilterPath\<close>, a hop being the list of its
  subscripts). The polling loops of one \<^verbatim>\<open>Search\<close> are numbered: \<open>0\<close> the snapshot, \<open>1\<close> the filter, \<open>2\<close> and
  \<open>4\<close> the checks before a sort, \<open>3\<close> the buffer, \<open>5\<close> the \<^verbatim>\<open>next\<close> closure. \<^verbatim>\<open>sort.Slice\<close> is \<open>sortBy\<close>: for a strict
  total order every sorting algorithm gives that result.
\<close>

datatype SourceKind = SourceData | SourceMeta

datatype Filter = Filter (f_Op: string) (f_Path: string) (f_Value: string) (f_Children: "Filter list")

record OrderSpec =
  os_Path :: string
  os_Source :: SourceKind
  os_Desc :: bool

record SearchOptions =
  so_ModelName :: string
  so_ModelVersion :: string
  so_PointInTime :: "time option"
  so_OrderBy :: "OrderSpec list"
  so_Limit :: int
  so_TrackingRead :: bool

record SearchSpi =
  spi_Prepare :: "Filter \<Rightarrow> (Entity \<Rightarrow> bool) result"
  spi_LessByOrder :: "OrderSpec list \<Rightarrow> Entity \<Rightarrow> Entity \<Rightarrow> bool"
  spi_MergeBounded ::
    "Entity result list \<Rightarrow> Entity list \<Rightarrow> (entityid \<Rightarrow> bool) \<Rightarrow> OrderSpec list \<Rightarrow> int \<Rightarrow> Entity list result"
  spi_ValidateFilterPath :: "string \<Rightarrow> bool"
  spi_ParseFilterPath :: "string \<Rightarrow> string list list result"

definition metaOrderPaths :: "string list" where
  "metaOrderPaths =
     [''id'', ''state'', ''creationDate'', ''lastUpdateTime'', ''transitionForLatestSave'', ''transactionId'']"

definition validateJSONPath :: "SearchSpi \<Rightarrow> string \<Rightarrow> unit result" where
  "validateJSONPath spi path = (if spi_ValidateFilterPath spi path then Ok () else Err ErrInvalidFilterPath)"

fun validateFilterPaths :: "SearchSpi \<Rightarrow> Filter \<Rightarrow> unit result" where
  "validateFilterPaths spi (Filter op path val children) =
     (if children \<noteq> [] then firstErr (map (validateFilterPaths spi) children)
      else if path = [] then Ok ()
      else validateJSONPath spi path)"

definition rejectSubscript :: "SearchSpi \<Rightarrow> string \<Rightarrow> unit result" where
  "rejectSubscript spi path =
     (case spi_ParseFilterPath spi path of
        Inl _ \<Rightarrow> Err ErrInvalidFilterPath
      | Inr hops \<Rightarrow> if list_ex (\<lambda>subs. subs \<noteq> []) hops then Err ErrInvalidFilterPath else Ok ())"

definition validateOrderSpec :: "SearchSpi \<Rightarrow> OrderSpec \<Rightarrow> unit result" where
  "validateOrderSpec spi s =
     (if os_Path s = [] then Ok ()
      else if os_Source s = SourceMeta
           then (if os_Path s \<in> set metaOrderPaths then Ok () else Err ErrInvalidFilterPath)
      else case validateJSONPath spi (os_Path s) of
             Inl e \<Rightarrow> Err e
           | Inr _ \<Rightarrow> rejectSubscript spi (os_Path s))"

definition validateOrderSpecs :: "SearchSpi \<Rightarrow> OrderSpec list \<Rightarrow> unit result" where
  "validateOrderSpecs spi specs = firstErr (map (validateOrderSpec spi) specs)"

fun insertBy :: "('a \<Rightarrow> 'a \<Rightarrow> bool) \<Rightarrow> 'a \<Rightarrow> 'a list \<Rightarrow> 'a list" where
  "insertBy lt x [] = [x]"
| "insertBy lt x (y # ys) = (if lt x y then x # y # ys else y # insertBy lt x ys)"

definition sortBy :: "('a \<Rightarrow> 'a \<Rightarrow> bool) \<Rightarrow> 'a list \<Rightarrow> 'a list" where
  "sortBy lt xs = foldr (insertBy lt) xs []"

definition sortByOrder :: "SearchSpi \<Rightarrow> bool \<Rightarrow> Entity list \<Rightarrow> OrderSpec list \<Rightarrow> Entity list result" where
  "sortByOrder spi err rows order =
     (if err then Err ErrContext else Ok (sortBy (spi_LessByOrder spi order) rows))"

fun matchLoop ::
  "(nat \<Rightarrow> bool) \<Rightarrow> (Entity \<Rightarrow> bool) \<Rightarrow> int \<Rightarrow> nat \<Rightarrow> Entity list \<Rightarrow> Entity list \<Rightarrow> Entity list result" where
  "matchLoop err match limit i filtered [] = Ok filtered"
| "matchLoop err match limit i filtered (e # rows) =
     (if i mod 1024 = 0 \<and> err i then Err ErrContext
      else if match e then
        (if int (length (filtered @ [e])) > limit then Err ErrSearchResultLimitExceeded
         else matchLoop err match limit (i + 1) (filtered @ [e]) rows)
      else matchLoop err match limit (i + 1) filtered rows)"

definition matchSortBounded ::
  "SearchSpi \<Rightarrow> Ctx \<Rightarrow> (Entity \<Rightarrow> bool) \<Rightarrow> Entity list \<Rightarrow> OrderSpec list \<Rightarrow> int \<Rightarrow> Entity list result" where
  "matchSortBounded spi ctx match rows order limit =
     (case matchLoop (c_Err ctx 1) match limit 0 [] rows of
        Inl e \<Rightarrow> Err e
      | Inr filtered \<Rightarrow> sortByOrder spi (c_Err ctx 2 0) filtered order)"

text \<open>The rows the \<^verbatim>\<open>next\<close> closure yields: it stops with an error at a poll that finds the context done.\<close>

fun nextSeq :: "(nat \<Rightarrow> bool) \<Rightarrow> nat \<Rightarrow> Entity list \<Rightarrow> Entity result list" where
  "nextSeq err i [] = []"
| "nextSeq err i (e # es) = (if i mod 1024 = 0 \<and> err i then [Err ErrContext] else Ok e # nextSeq err (i + 1) es)"

definition isBuffered :: "TransactionState \<Rightarrow> entityid \<Rightarrow> bool" where
  "isBuffered tx eid \<longleftrightarrow> map_of (tx_Buffer tx) eid \<noteq> None"

definition suppressed :: "TransactionState \<Rightarrow> entityid \<Rightarrow> bool" where
  "suppressed tx eid \<longleftrightarrow> eid \<in> set (tx_Deletes tx) \<or> isBuffered tx eid"

definition addRow :: "ModelRef \<Rightarrow> (Entity \<Rightarrow> bool) \<Rightarrow> TransactionState \<Rightarrow> entityid \<times> Entity \<Rightarrow> Entity list result" where
  "addRow modelRef match tx p =
     Ok (if fst p \<in> set (tx_Deletes tx) \<or> model_of (snd p) \<noteq> modelRef \<or> \<not> match (snd p) then [] else [snd p])"

definition trackReads :: "TransactionState \<Rightarrow> Entity list \<Rightarrow> TransactionState" where
  "trackReads tx page =
     fold (\<lambda>e. addRead (entity_id e)) (filter (\<lambda>e. \<not> isBuffered tx (entity_id e)) page) tx"

definition searchOverlay ::
  "SearchSpi \<Rightarrow> Ctx \<Rightarrow> (Entity \<Rightarrow> bool) \<Rightarrow> ModelRef \<Rightarrow> SearchOptions \<Rightarrow> TransactionState \<Rightarrow> Entity list
   \<Rightarrow> Entity list result" where
  "searchOverlay spi ctx match modelRef opts tx committed =
     (case pollScan (c_Err ctx 1) 0 (\<lambda>e. Ok (if match e then [e] else [])) committed of
        Inl e \<Rightarrow> Err e
      | Inr filtered \<Rightarrow>
          (case sortByOrder spi (c_Err ctx 2 0) filtered (so_OrderBy opts) of
             Inl e \<Rightarrow> Err e
           | Inr filteredCommitted \<Rightarrow>
               (case pollScan (c_Err ctx 3) 0 (addRow modelRef match tx) (tx_Buffer tx) of
                  Inl e \<Rightarrow> Err e
                | Inr adds0 \<Rightarrow>
                    (case sortByOrder spi (c_Err ctx 4 0) adds0 (so_OrderBy opts) of
                       Inl e \<Rightarrow> Err e
                     | Inr adds \<Rightarrow>
                         spi_MergeBounded spi (nextSeq (c_Err ctx 5) 0 filteredCommitted) adds (suppressed tx)
                           (so_OrderBy opts) (so_Limit opts)))))"

definition EntityStore_Search ::
  "SearchSpi \<Rightarrow> Ctx \<Rightarrow> tenant \<Rightarrow> Filter \<Rightarrow> SearchOptions \<Rightarrow> StoreFactory \<Rightarrow> Entity list result \<times> StoreFactory" where
  "EntityStore_Search spi ctx tid flt opts f =
     (let modelRef = \<lparr>EntityName = so_ModelName opts, ModelVersion = so_ModelVersion opts\<rparr>
      in if so_Limit opts \<le> 0 then (Err (ErrMsg ''search: limit must be >= 1''), f)
         else case validateFilterPaths spi flt of
           Inl e \<Rightarrow> (Err e, f)
         | Inr _ \<Rightarrow>
         (case validateOrderSpecs spi (so_OrderBy opts) of
            Inl e \<Rightarrow> (Err e, f)
          | Inr _ \<Rightarrow>
          (case spi_Prepare spi flt of
             Inl e \<Rightarrow> (Err e, f)
           | Inr match \<Rightarrow>
           (case GetTransaction f ctx of
              None \<Rightarrow>
                (case (case so_PointInTime opts of
                         Some t \<Rightarrow> getAllSnapshotPointersUnlocked (c_Err ctx 0) f tid modelRef t
                       | None \<Rightarrow> currentStatePointersUnlocked (c_Err ctx 0) f tid modelRef) of
                   Inl e \<Rightarrow> (Err e, f)
                 | Inr committed \<Rightarrow>
                     (matchSortBounded spi ctx match committed (so_OrderBy opts) (so_Limit opts), f))
            | Some tx \<Rightarrow>
                (case checkOpen tx of
                   Inl e \<Rightarrow> (Err e, f)
                 | Inr _ \<Rightarrow>
                     (case so_PointInTime opts of
                        Some t \<Rightarrow>
                          (case getAllSnapshotPointersUnlocked (c_Err ctx 0) f tid modelRef t of
                             Inl e \<Rightarrow> (Err e, f)
                           | Inr committed \<Rightarrow>
                               (matchSortBounded spi ctx match committed (so_OrderBy opts) (so_Limit opts), f))
                      | None \<Rightarrow>
                          (case getAllSnapshotPointersUnlocked (c_Err ctx 0) f tid modelRef (tx_SnapshotTime tx) of
                             Inl e \<Rightarrow> (Err e, f)
                           | Inr committed \<Rightarrow>
                               (case searchOverlay spi ctx match modelRef opts tx committed of
                                  Inl e \<Rightarrow> (Err e, f)
                                | Inr page \<Rightarrow>
                                    (Ok page, if so_TrackingRead opts
                                              then set_tx (the (c_Tx ctx)) (trackReads tx page) f else f)))))))))"

text \<open>What a search may see of an entity: its own write whatever its model, then the snapshot.\<close>

definition txSees :: "StoreFactory \<Rightarrow> tenant \<Rightarrow> TransactionState \<Rightarrow> entityid \<Rightarrow> Entity option" where
  "txSees f tid tx eid =
     (if eid \<in> set (tx_Deletes tx) then None
      else case map_of (tx_Buffer tx) eid of
             Some e \<Rightarrow> Some e
           | None \<Rightarrow> visibleAt f tid eid (tx_SnapshotTime tx))"

definition searchView :: "Ctx \<Rightarrow> StoreFactory \<Rightarrow> tenant \<Rightarrow> SearchOptions \<Rightarrow> entityid \<Rightarrow> Entity option" where
  "searchView ctx f tid opts eid =
     ofModel \<lparr>EntityName = so_ModelName opts, ModelVersion = so_ModelVersion opts\<rparr>
       (case so_PointInTime opts of
          Some t \<Rightarrow> visibleAt f tid eid t
        | None \<Rightarrow>
            (case GetTransaction f ctx of
               None \<Rightarrow> latestSees f tid eid
             | Some tx \<Rightarrow> txSees f tid tx eid))"

text \<open>
  What the search relies on of the SPI: \<^verbatim>\<open>LessByOrder\<close> is a strict total order on entities with different
  ids, and \<^verbatim>\<open>MergeBounded\<close> drops the suppressed rows, merges the own writes in and fails when more
  rows remain than the limit.
\<close>

definition order_law :: "('a \<Rightarrow> 'a \<Rightarrow> bool) \<Rightarrow> ('a \<Rightarrow> 'k) \<Rightarrow> bool" where
  "order_law lt key \<longleftrightarrow>
     (\<forall>a b c. lt a b \<longrightarrow> lt b c \<longrightarrow> lt a c) \<and> (\<forall>a. \<not> lt a a) \<and> (\<forall>a b. key a \<noteq> key b \<longrightarrow> lt a b \<or> lt b a)"

definition merge_law :: "SearchSpi \<Rightarrow> bool" where
  "merge_law spi \<longleftrightarrow>
     (\<forall>xs adds del order limit.
        spi_MergeBounded spi (map Inr xs) adds del order limit =
          (let kept = filter (\<lambda>e. \<not> del (entity_id e)) xs
           in if limit < int (length kept + length adds) then Err ErrSearchResultLimitExceeded
              else Ok (sortBy (spi_LessByOrder spi order) (kept @ adds))))"

definition spi_laws :: "SearchSpi \<Rightarrow> bool" where
  "spi_laws spi \<longleftrightarrow> (\<forall>order. order_law (spi_LessByOrder spi order) entity_id) \<and> merge_law spi"

text \<open>An instance for the concrete runs: everything matches, entities in the order of their ids.\<close>

definition byId :: "Entity \<Rightarrow> Entity \<Rightarrow> bool" where
  "byId a b \<longleftrightarrow> entity_id a < entity_id b"

definition plainSpi :: SearchSpi where
  "plainSpi =
     \<lparr>spi_Prepare = (\<lambda>_. Ok (\<lambda>_. True)), spi_LessByOrder = (\<lambda>_. byId),
      spi_MergeBounded = (\<lambda>next adds del order limit.
        let kept = filter (\<lambda>e. \<not> del (entity_id e)) (map projr next)
        in if limit < int (length kept + length adds) then Err ErrSearchResultLimitExceeded
           else Ok (sortBy byId (kept @ adds))),
      spi_ValidateFilterPath = (\<lambda>_. True), spi_ParseFilterPath = (\<lambda>_. Ok [])\<rparr>"

definition everything :: Filter where
  "everything = Filter ''and'' [] [] []"

definition modelOpts :: "int \<Rightarrow> SearchOptions" where
  "modelOpts n =
     \<lparr>so_ModelName = ''m'', so_ModelVersion = ''1'', so_PointInTime = None, so_OrderBy = [], so_Limit = n,
      so_TrackingRead = True\<rparr>"

text \<open>The outcome of a bounded search over a view.\<close>

definition boundedSearch ::
  "(Entity \<Rightarrow> Entity \<Rightarrow> bool) \<Rightarrow> (Entity \<Rightarrow> bool) \<Rightarrow> int \<Rightarrow> (entityid \<Rightarrow> Entity option) \<Rightarrow> Entity list result \<Rightarrow> bool" where
  "boundedSearch lt match limit sees r \<longleftrightarrow>
     (let matched = {e. match e \<and> (\<exists>eid. sees eid = Some e)}
      in if limit < int (card matched) then r = Err ErrSearchResultLimitExceeded
         else \<exists>page. r = Ok page \<and> set page = matched \<and> distinct (map entity_id page) \<and> sorted_wrt lt page)"

text \<open>A transaction that rewrites the committed entity \<open>d\<close> of the model \<open>m\<close> under the model \<open>n\<close>.\<close>

definition modelChange :: StoreFactory where
  "modelChange =
     (let e = mkEntity ''d'' '''' ''A'' ''3''
      in exec noClaims
           (OpSave 0 (ctxOf ''t'' (Some ''x'')) ''t''
              (e\<lparr>Meta := (Meta e)\<lparr>m_ModelRef := \<lparr>EntityName = ''n'', ModelVersion = ''1''\<rparr>\<rparr>\<rparr>)))
     (fold (exec noClaims)
       [OpSave 5 (ctxOf ''t'' None) ''t'' (mkEntity ''d'' ''x0'' ''A'' ''1''),
        OpBegin ''x'' 20 (ctxOf ''t'' None)] NewStoreFactory)"

lemma set_insertBy [simp]: "set (insertBy lt x ys) = insert x (set ys)"
  by (induction ys) auto

lemma sortBy_simps [simp]: "sortBy lt [] = []" "sortBy lt (x # xs) = insertBy lt x (sortBy lt xs)"
  by (simp_all add: sortBy_def)

lemma set_sortBy [simp]: "set (sortBy lt xs) = set xs"
  by (induction xs) auto

lemma distinct_insertBy: "distinct (map key (insertBy lt x ys)) \<longleftrightarrow> key x \<notin> key ` set ys \<and> distinct (map key ys)"
  by (induction ys) auto

lemma distinct_sortBy [simp]: "distinct (map key (sortBy lt xs)) \<longleftrightarrow> distinct (map key xs)"
  by (induction xs) (auto simp: distinct_insertBy)

lemma length_sortBy [simp]: "length (sortBy lt xs) = length xs"
proof -
  have "length (insertBy lt x ys) = Suc (length ys)" for x ys by (induction ys) auto
  then show ?thesis by (induction xs) simp_all
qed

lemma sorted_insertBy:
  assumes "order_law lt key" "sorted_wrt lt ys" "key x \<notin> key ` set ys"
  shows "sorted_wrt lt (insertBy lt x ys)"
  using assms(2,3)
proof (induction ys)
  case (Cons y ys)
  have "lt x y \<or> lt y x" using assms(1) Cons.prems(2) by (auto simp: order_law_def)
  then show ?case using Cons assms(1) unfolding order_law_def by auto
qed simp

lemma sorted_sortBy:
  assumes "order_law lt key" "distinct (map key xs)" shows "sorted_wrt lt (sortBy lt xs)"
  using assms(2) by (induction xs) (auto intro: sorted_insertBy [OF assms(1)])

lemma matchLoop_Ok:
  assumes "\<And>i. \<not> err i"
  shows "int (length acc) \<le> limit \<Longrightarrow> matchLoop err match limit i acc rows =
           (if limit < int (length (acc @ filter match rows)) then Err ErrSearchResultLimitExceeded
            else Ok (acc @ filter match rows))"
  by (induction rows arbitrary: i acc) (auto simp: assms)

lemma nextSeq_Ok: "(\<And>i. \<not> err i) \<Longrightarrow> nextSeq err i es = map Ok es"
  by (induction es arbitrary: i) auto

lemma boundedSearchI:
  assumes "order_law lt entity_id" "distinct (map entity_id page)"
    and "\<And>e. e \<in> set page \<longleftrightarrow> match e \<and> (\<exists>eid. sees eid = Some e)"
    and "r = (if limit < int (length page) then Err ErrSearchResultLimitExceeded else Ok (sortBy lt page))"
  shows "boundedSearch lt match limit sees r"
proof -
  have m: "{e. match e \<and> (\<exists>eid. sees eid = Some e)} = set page" using assms(3) by blast
  have "distinct page" using assms(2) by (simp add: distinct_map)
  then have "card (set page) = length page" by (rule distinct_card)
  then show ?thesis
    using assms(2,4) sorted_sortBy [OF assms(1,2)] unfolding boundedSearch_def Let_def m by auto
qed

lemma sortByOrder_Ok: "sortByOrder spi False rows order = Ok (sortBy (spi_LessByOrder spi order) rows)"
  by (simp add: sortByOrder_def)

lemma matchSortBounded_search:
  assumes "spi_laws spi" "quietCtx ctx" "0 \<le> limit" "listsView sees rows"
  shows "boundedSearch (spi_LessByOrder spi order) match limit sees (matchSortBounded spi ctx match rows order limit)"
proof (rule boundedSearchI)
  show "order_law (spi_LessByOrder spi order) entity_id" using assms(1) by (simp add: spi_laws_def)
  show "distinct (map entity_id (filter match rows))" using assms(4) by (simp add: listsView_def distinct_map_filter)
  show "e \<in> set (filter match rows) \<longleftrightarrow> match e \<and> (\<exists>eid. sees eid = Some e)" for e
    using assms(4) by (auto simp: listsView_def)
  show "matchSortBounded spi ctx match rows order limit =
    (if limit < int (length (filter match rows)) then Err ErrSearchResultLimitExceeded
     else Ok (sortBy (spi_LessByOrder spi order) (filter match rows)))"
    using assms(2,3) matchLoop_Ok [of "c_Err ctx 1" "[]" limit match 0 rows]
    by (simp add: matchSortBounded_def quietCtx_def sortByOrder_Ok)
qed

text \<open>The overlay of a transaction's own writes: the buffered rows it adds, what a reader sees, and the list it builds.\<close>

lemma overlay_adds:
  assumes "tx_ok t tx"
  shows "e \<in> set (map snd (filter (\<lambda>p. fst p \<notin> set (tx_Deletes tx) \<and> model_of (snd p) = ref \<and> match (snd p)) (tx_Buffer tx))) \<longleftrightarrow>
    entity_id e \<notin> set (tx_Deletes tx) \<and> model_of e = ref \<and> match e \<and> map_of (tx_Buffer tx) (entity_id e) = Some e"
    (is "e \<in> set ?adds \<longleftrightarrow> _")
proof -
  have b: "distinct (map fst (tx_Buffer tx))" "\<And>k. map_of (tx_Buffer tx) k = Some e \<Longrightarrow> entity_id e = k"
    using assms map_of_SomeD by (fastforce simp: tx_ok_def buf_ok_def)+
  have "e \<in> set ?adds \<longleftrightarrow> (\<exists>k. (k, e) \<in> set (tx_Buffer tx) \<and> k \<notin> set (tx_Deletes tx) \<and> model_of e = ref \<and> match e)"
    by (auto simp: image_iff Bex_def)
  also have "\<dots> \<longleftrightarrow> (\<exists>k. map_of (tx_Buffer tx) k = Some e \<and> k \<notin> set (tx_Deletes tx) \<and> model_of e = ref \<and> match e)"
    using b(1) by simp
  finally show ?thesis using b(2) by blast
qed

lemma overlay_seen:
  assumes "tx_ok t tx" "listsView (\<lambda>eid. ofModel ref (visibleAt f tid eid (tx_SnapshotTime tx))) rows"
    and s: "ofModel ref (txSees f tid tx k) = Some e"
  shows "entity_id e = k"
proof (cases "map_of (tx_Buffer tx) k")
  case None
  then have "ofModel ref (visibleAt f tid k (tx_SnapshotTime tx)) = Some e"
    using s by (simp add: txSees_def ofModel_Some split: if_splits)
  then show ?thesis using assms(2) by (simp add: listsView_def)
next
  case (Some e')
  then have "e' = e" using s by (simp add: txSees_def ofModel_Some del: map_of_eq_Some_iff split: if_splits)
  then show ?thesis using Some assms(1) map_of_SomeD by (fastforce simp: tx_ok_def buf_ok_def)
qed

lemma overlay_list:
  fixes opts tx ref match rows
  assumes "spi_laws spi" "quietCtx ctx"
  defines "out \<equiv> filter (\<lambda>e. \<not> suppressed tx (entity_id e)) (sortBy (spi_LessByOrder spi (so_OrderBy opts)) (filter match rows)) @
    sortBy (spi_LessByOrder spi (so_OrderBy opts))
      (map snd (filter (\<lambda>p. fst p \<notin> set (tx_Deletes tx) \<and> model_of (snd p) = ref \<and> match (snd p)) (tx_Buffer tx)))"
  shows "searchOverlay spi ctx match ref opts tx rows =
    (if so_Limit opts < int (length out) then Err ErrSearchResultLimitExceeded
     else Ok (sortBy (spi_LessByOrder spi (so_OrderBy opts)) out))"
proof -
  let ?own = "\<lambda>p. fst p \<notin> set (tx_Deletes tx) \<and> model_of (snd p) = ref \<and> match (snd p)"
  have "pollScan (c_Err ctx 3) 0 (addRow ref match tx) (tx_Buffer tx) =
      Ok (concat (map (\<lambda>p. if ?own p then [snd p] else []) (tx_Buffer tx)))"
    using assms(2) by (intro pollScan_Ok) (auto simp: quietCtx_def addRow_def)
  moreover have "concat (map (\<lambda>p. if ?own p then [snd p] else []) ps) = map snd (filter ?own ps)" for ps :: "(entityid \<times> Entity) list"
    by (induction ps) auto
  moreover have "pollScan (c_Err ctx 1) 0 (\<lambda>e. Ok (if match e then [e] else [])) rows =
      Ok (concat (map (\<lambda>e. if match e then [e] else []) rows))"
    using assms(2) by (intro pollScan_Ok) (auto simp: quietCtx_def)
  moreover have "concat (map (\<lambda>e. if match e then [e] else []) es) = filter match es" for es by (induction es) auto
  ultimately show ?thesis
    using assms(1,2) by (simp add: out_def searchOverlay_def quietCtx_def sortByOrder_Ok nextSeq_Ok spi_laws_def merge_law_def Let_def)
qed

lemma overlay_search:
  assumes "spi_laws spi" "quietCtx ctx" and t: "tx_ok t tx"
    and v: "listsView (\<lambda>eid. ofModel ref (visibleAt f tid eid (tx_SnapshotTime tx))) rows"
  shows "boundedSearch (spi_LessByOrder spi (so_OrderBy opts)) match (so_Limit opts) (\<lambda>eid. ofModel ref (txSees f tid tx eid))
           (searchOverlay spi ctx match ref opts tx rows)"
proof (rule boundedSearchI [OF _ _ _ overlay_list [OF assms(1,2)]])
  let ?lt = "spi_LessByOrder spi (so_OrderBy opts)"
  let ?kept = "filter (\<lambda>e. \<not> suppressed tx (entity_id e)) (sortBy ?lt (filter match rows))"
  let ?adds = "map snd (filter (\<lambda>p. fst p \<notin> set (tx_Deletes tx) \<and> model_of (snd p) = ref \<and> match (snd p)) (tx_Buffer tx))"
  have b: "distinct (map fst (tx_Buffer tx))" "\<And>p. p \<in> set (tx_Buffer tx) \<Longrightarrow> entity_id (snd p) = fst p"
    using t by (auto simp: tx_ok_def buf_ok_def)
  have kept: "e \<in> set ?kept \<longleftrightarrow> \<not> suppressed tx (entity_id e) \<and> match e \<and>
      ofModel ref (visibleAt f tid (entity_id e) (tx_SnapshotTime tx)) = Some e" for e
    using v by (auto simp: listsView_def)
  show "order_law ?lt entity_id" using assms(1) by (simp add: spi_laws_def)
  have ids: "map entity_id (map snd (filter q (tx_Buffer tx))) = map fst (filter q (tx_Buffer tx))" for q using b(2) by simp
  have "distinct (map entity_id ?kept)" using v by (simp add: listsView_def distinct_map_filter)
  moreover have "distinct (map entity_id (sortBy ?lt ?adds))"
    unfolding distinct_sortBy ids using b(1) by (simp add: distinct_map_filter)
  moreover have "entity_id ` set ?kept \<inter> entity_id ` set (sortBy ?lt ?adds) = {}"
  proof -
    have "entity_id e \<noteq> entity_id e'" if "e \<in> set ?kept" "e' \<in> set ?adds" for e e'
    proof -
      have "map_of (tx_Buffer tx) (entity_id e) = None" using that(1) [unfolded kept] by (simp add: suppressed_def isBuffered_def)
      moreover have "map_of (tx_Buffer tx) (entity_id e') \<noteq> None" using that(2) [unfolded overlay_adds [OF t]] by simp
      ultimately show ?thesis by metis
    qed
    then show ?thesis unfolding set_sortBy by blast
  qed
  ultimately show "distinct (map entity_id (?kept @ sortBy ?lt ?adds))" by simp
  show "e \<in> set (?kept @ sortBy ?lt ?adds) \<longleftrightarrow> match e \<and> (\<exists>eid. ofModel ref (txSees f tid tx eid) = Some e)" for e
  proof -
    have "e \<in> set (?kept @ sortBy ?lt ?adds) \<longleftrightarrow> match e \<and> ofModel ref (txSees f tid tx (entity_id e)) = Some e"
      unfolding set_append set_sortBy Un_iff kept overlay_adds [OF t]
      unfolding suppressed_def isBuffered_def
      by (cases "map_of (tx_Buffer tx) (entity_id e)") (auto simp: txSees_def ofModel_Some simp del: map_of_eq_Some_iff)
    then show ?thesis using overlay_seen [OF t v] by blast
  qed
qed

lemma trackReads_reads:
  assumes "e \<in> set page" "\<not> isBuffered tx (entity_id e)"
  shows "entity_id e \<in> set (tx_ReadSet (trackReads tx page))"
proof -
  have "set (tx_ReadSet (fold (\<lambda>e. addRead (entity_id e)) es tx)) = entity_id ` set es \<union> set (tx_ReadSet tx)" for es tx
    by (induction es arbitrary: tx) (auto simp: addRead_def)
  then show ?thesis using assms unfolding trackReads_def by simp
qed

text \<open>The rows a search starts from are a listing of what its reader sees, outside a transaction and at a point in time.\<close>

lemma search_rows:
  assumes "mem_inv f" "quietCtx ctx" "GetTransaction f ctx = None \<or> so_PointInTime opts \<noteq> None"
    and ref: "ref = \<lparr>EntityName = so_ModelName opts, ModelVersion = so_ModelVersion opts\<rparr>"
  obtains rows where "listsView (searchView ctx f tid opts) rows"
    "(case so_PointInTime opts of Some t \<Rightarrow> getAllSnapshotPointersUnlocked (c_Err ctx 0) f tid ref t
      | None \<Rightarrow> currentStatePointersUnlocked (c_Err ctx 0) f tid ref) = Ok rows"
proof -
  have view: "searchView ctx f tid opts = (\<lambda>eid. ofModel ref (case so_PointInTime opts of
      Some t \<Rightarrow> visibleAt f tid eid t
    | None \<Rightarrow> (case GetTransaction f ctx of None \<Rightarrow> latestSees f tid eid | Some tx \<Rightarrow> txSees f tid tx eid)))"
    by (simp add: searchView_def fun_eq_iff ref)
  show thesis
  proof (cases "so_PointInTime opts")
    case None
    obtain rows where "currentStatePointersUnlocked (c_Err ctx 0) f tid ref = Ok rows"
      "listsView (\<lambda>eid. ofModel ref (latestSees f tid eid)) rows"
      using current_view [OF assms(1), of "c_Err ctx 0" ref tid] assms(2)
      by (auto simp: quietCtx_def currentStatePointersUnlocked_def)
    then show thesis using that assms(3) None by (simp add: view)
  next
    case (Some t)
    then show thesis using that snapshot_view [OF assms(1,2), of 0 tid ref t] by (auto simp: view)
  qed
qed

lemma tracked_read:
  assumes "c_Tx ctx = Some t" "e \<in> set page" "\<not> isBuffered tx (entity_id e)"
  shows "\<exists>tx'. GetTransaction (set_tx t (trackReads tx page) f) ctx = Some tx' \<and> entity_id e \<in> set (tx_ReadSet tx')"
  using trackReads_reads [OF assms(2,3)] assms(1) by (simp add: GetTransaction_def set_tx_def)


lemma byId_law: "order_law byId entity_id"
  unfolding order_law_def byId_def by auto

lemma plainSpi_laws: "spi_laws plainSpi"
  unfolding spi_laws_def merge_law_def plainSpi_def Let_def using byId_law by (simp add: comp_def)



end
