(* ===== verification/WfTypes.thy ===== *)
theory WfTypes
  imports Spi
begin

text \<open>
  Workflow definitions. The structs are those of the SPI module \<^verbatim>\<open>cyoda-go-spi\<close>, which is not part of the
  repository; only their shape is fixed here, with the fields that
  \<^verbatim>\<open>internal/domain/workflow\<close> reads and writes. A \<^verbatim>\<open>json.RawMessage\<close> is its bytes (\<^verbatim>\<open>nil\<close> is the empty
  string), a pointer to a bool or an integer is an option, and the \<^verbatim>\<open>States\<close> map is an association list
  because the validators range over it.
\<close>

record ScheduleFunction =
  fn_Name :: string
  fn_CalculationNodesTags :: string
  fn_ResultKind :: string
  fn_AttachEntity :: bool

record TransitionSchedule =
  sch_DelayMs :: int
  sch_TimeoutMs :: "int option"
  sch_Function :: "ScheduleFunction option"

record ProcessorConfig =
  cfg_AttachEntity :: bool
  cfg_RetryPolicy :: string
  cfg_AsyncResult :: "bool option"
  cfg_CrossoverToAsyncMs :: "int option"
  cfg_StartNewTxOnDispatch :: "bool option"

record ProcessorDefinition =
  pr_Type :: string
  pr_Name :: string
  pr_ExecutionMode :: string
  pr_Config :: ProcessorConfig
  pr_Annotations :: bytes

record TransitionDefinition =
  tr_Name :: string
  tr_Next :: string
  tr_Manual :: bool
  tr_Disabled :: bool
  tr_Schedule :: "TransitionSchedule option"
  tr_Criterion :: bytes
  tr_Processors :: "ProcessorDefinition list"
  tr_Annotations :: bytes
  tr_CriterionAnnotations :: bytes

record StateDefinition =
  sd_Transitions :: "TransitionDefinition list"
  sd_Annotations :: bytes

record WorkflowDefinition =
  wf_Version :: string
  wf_Name :: string
  wf_Description :: string
  wf_InitialState :: string
  wf_Active :: bool
  wf_Criterion :: bytes
  wf_States :: "(string \<times> StateDefinition) list"
  wf_Annotations :: bytes
  wf_CriterionAnnotations :: bytes

text \<open>
  A parsed condition (\<^verbatim>\<open>predicate.Condition\<close> of the SPI module): the five kinds of clause, with the fields
  the engine and the validators look at.
\<close>

datatype Condition =
    SimpleCondition (cond_JsonPath: string) (cond_Operator: string) (cond_Value: string)
  | ArrayCondition (cond_JsonPath: string) (cond_Value: string)
  | LifecycleCondition (cond_Field: string) (cond_Operator: string) (cond_Value: string)
  | GroupCondition (cond_Operator: string) (cond_Conditions: "Condition list")
  | FunctionCondition (cond_Name: string)

text \<open>The test \<^verbatim>\<open>len(c) > 0 && string(c) != "null"\<close> that the engine and the loop detector use.\<close>

definition hasCriterion :: "bytes \<Rightarrow> bool" where
  "hasCriterion c \<longleftrightarrow> c \<noteq> [] \<and> c \<noteq> ''null''"

definition stateDef_of :: "WorkflowDefinition \<Rightarrow> string \<Rightarrow> StateDefinition option" where
  "stateDef_of wfd s = map_of (wf_States wfd) s"

end
