(* ===== verification/WfValidate.thy ===== *)
theory WfValidate
  imports WfTypes MemStores
begin

text \<open>
  Importing workflow definitions: \<^verbatim>\<open>internal/domain/workflow/validate.go\<close>, \<^verbatim>\<open>import.go\<close>,
  \<^verbatim>\<open>schemaversion.go\<close> and the import and export operations of \<^verbatim>\<open>handler.go\<close>, over the model and workflow
  stores of the memory plugin.

  What is not modelled here is a parameter: the condition parser of the SPI module and the condition
  checks of \<^verbatim>\<open>internal/domain/search\<close> (collected in \<open>CriterionChecks\<close>), and the JSON copy of the workflow
  store. An import starts from the decoded request, whose mode is already in upper case; a run of checks
  with early returns is \<open>firstErr\<close> of the list of its checks, and error texts are reduced to the rule that
  failed.
\<close>

definition require :: "bool \<Rightarrow> string \<Rightarrow> unit result" where
  "require b msg = (if b then Ok () else Err (ErrMsg msg))"

subsection \<open>Schema versions\<close>

definition CurrentSchemaVersion :: string where
  "CurrentSchemaVersion = ''1.4''"

record SchemaRange =
  sr_Major :: int
  sr_MinMinor :: int
  sr_MaxMinor :: int

definition SupportedSchemaRanges :: "SchemaRange list" where
  "SupportedSchemaRanges = [\<lparr>sr_Major = 1, sr_MinMinor = 1, sr_MaxMinor = 4\<rparr>]"

fun splitDot :: "string \<Rightarrow> string list" where
  "splitDot [] = [[]]"
| "splitDot (c # cs) =
     (if c = CHR ''.'' then [] # splitDot cs
      else case splitDot cs of [] \<Rightarrow> [[c]] | s # ss \<Rightarrow> (c # s) # ss)"

definition isDigit :: "char \<Rightarrow> bool" where
  "isDigit c \<longleftrightarrow> CHR ''0'' \<le> c \<and> c \<le> CHR ''9''"

definition digitVal :: "char \<Rightarrow> int" where
  "digitVal c = int (of_char c) - 48"

definition atoi :: "string \<Rightarrow> int result" where
  "atoi s =
     (let n = fold (\<lambda>c acc. 10 * acc + digitVal c) s 0
      in if n < 2 ^ 63 then Ok n else Err (ErrMsg ''value out of range''))"

definition parseSegment :: "string \<Rightarrow> int result" where
  "parseSegment seg =
     (if seg = [] then Err (ErrMsg ''empty segment'')
      else if 1 < length seg \<and> hd seg = CHR ''0'' then Err (ErrMsg ''leading zero'')
      else if \<not> list_all isDigit seg then Err (ErrMsg ''non-digit character'')
      else atoi seg)"

definition ParseSchemaVersion :: "string \<Rightarrow> (int \<times> int) result" where
  "ParseSchemaVersion s =
     (if s = [] then Err (ErrMsg ''workflow schema version is empty'')
      else case splitDot s of
        [p, q] \<Rightarrow>
          (case parseSegment p of
             Inl e \<Rightarrow> Err e
           | Inr a \<Rightarrow> (case parseSegment q of Inl e \<Rightarrow> Err e | Inr b \<Rightarrow> Ok (a, b)))
      | _ \<Rightarrow> Err (ErrMsg ''not in MAJOR.MINOR form''))"

fun supportsIn :: "SchemaRange list \<Rightarrow> int \<Rightarrow> int \<Rightarrow> unit result" where
  "supportsIn [] major minor = Err (ErrMsg ''workflow schema major version unsupported'')"
| "supportsIn (r # rs) major minor =
     (if sr_Major r \<noteq> major then supportsIn rs major minor
      else if minor < sr_MinMinor r then Err (ErrMsg ''workflow schema minor version no longer accepted'')
      else if sr_MaxMinor r < minor then Err (ErrMsg ''workflow schema minor version too new'')
      else Ok ())"

definition Supports :: "int \<Rightarrow> int \<Rightarrow> unit result" where
  "Supports major minor = supportsIn SupportedSchemaRanges major minor"

definition validateSchemaVersions :: "WorkflowDefinition list \<Rightarrow> unit result" where
  "validateSchemaVersions workflows =
     firstErr (map (\<lambda>wfd. case ParseSchemaVersion (wf_Version wfd) of
                           Inl e \<Rightarrow> Err e
                         | Inr (a, b) \<Rightarrow> Supports a b) workflows)"

subsection \<open>Annotations\<close>

definition isSpace :: "char \<Rightarrow> bool" where
  "isSpace c \<longleftrightarrow> c \<in> {CHR '' '', CHR 0x09, CHR 0x0A, CHR 0x0B, CHR 0x0C, CHR 0x0D}"

definition TrimSpace :: "bytes \<Rightarrow> bytes" where
  "TrimSpace s = rev (dropWhile isSpace (rev (dropWhile isSpace s)))"

text \<open>\<^verbatim>\<open>json.Compact\<close> on valid JSON: white space outside string literals is dropped.\<close>

definition isJsonSpace :: "char \<Rightarrow> bool" where
  "isJsonSpace c \<longleftrightarrow> c \<in> {CHR '' '', CHR 0x09, CHR 0x0A, CHR 0x0D}"

fun json_Compact :: "bool \<Rightarrow> bytes \<Rightarrow> bytes" where
  "json_Compact quoted [] = []"
| "json_Compact False (c # cs) =
     (if c = CHR 0x22 then c # json_Compact True cs
      else if isJsonSpace c then json_Compact False cs
      else c # json_Compact False cs)"
| "json_Compact True (c # cs) =
     (if c = CHR 0x5C then (case cs of [] \<Rightarrow> [c] | d # ds \<Rightarrow> c # d # json_Compact True ds)
      else if c = CHR 0x22 then c # json_Compact False cs
      else c # json_Compact True cs)"

definition maxAnnotationsBytes :: int where
  "maxAnnotationsBytes = 64 * 1024"

definition canonicalizeAnnotations :: "bytes \<Rightarrow> bytes result" where
  "canonicalizeAnnotations raw =
     (let trimmed = TrimSpace raw
      in if trimmed = [] \<or> trimmed = ''null'' then Ok []
         else if hd trimmed \<noteq> CHR ''{'' then Err (ErrMsg ''annotations must be a JSON object'')
         else let buf = json_Compact False trimmed
              in if maxAnnotationsBytes < int (length buf) then Err (ErrMsg ''annotations size exceeds the limit'')
                 else Ok buf)"

definition normProcessor :: "ProcessorDefinition \<Rightarrow> ProcessorDefinition result" where
  "normProcessor p =
     (case canonicalizeAnnotations (pr_Annotations p) of Inl e \<Rightarrow> Err e | Inr a \<Rightarrow> Ok (p\<lparr>pr_Annotations := a\<rparr>))"

definition normTransition :: "TransitionDefinition \<Rightarrow> TransitionDefinition result" where
  "normTransition tr =
     (case canonicalizeAnnotations (tr_Annotations tr) of
        Inl e \<Rightarrow> Err e
      | Inr a \<Rightarrow>
          (case canonicalizeAnnotations (tr_CriterionAnnotations tr) of
             Inl e \<Rightarrow> Err e
           | Inr ca \<Rightarrow>
               (case mapResult normProcessor (tr_Processors tr) of
                  Inl e \<Rightarrow> Err e
                | Inr ps \<Rightarrow> Ok (tr\<lparr>tr_Annotations := a, tr_CriterionAnnotations := ca, tr_Processors := ps\<rparr>))))"

definition normState :: "string \<times> StateDefinition \<Rightarrow> (string \<times> StateDefinition) result" where
  "normState p =
     (case canonicalizeAnnotations (sd_Annotations (snd p)) of
        Inl e \<Rightarrow> Err e
      | Inr a \<Rightarrow>
          (case mapResult normTransition (sd_Transitions (snd p)) of
             Inl e \<Rightarrow> Err e
           | Inr ts \<Rightarrow> Ok (fst p, (snd p)\<lparr>sd_Annotations := a, sd_Transitions := ts\<rparr>)))"

definition normWorkflow :: "WorkflowDefinition \<Rightarrow> WorkflowDefinition result" where
  "normWorkflow wfd =
     (case canonicalizeAnnotations (wf_Annotations wfd) of
        Inl e \<Rightarrow> Err e
      | Inr a \<Rightarrow>
          (case canonicalizeAnnotations (wf_CriterionAnnotations wfd) of
             Inl e \<Rightarrow> Err e
           | Inr ca \<Rightarrow>
               (case mapResult normState (wf_States wfd) of
                  Inl e \<Rightarrow> Err e
                | Inr ss \<Rightarrow> Ok (wfd\<lparr>wf_Annotations := a, wf_CriterionAnnotations := ca, wf_States := ss\<rparr>))))"

definition validateAndNormalizeAnnotations :: "WorkflowDefinition list \<Rightarrow> WorkflowDefinition list result" where
  "validateAndNormalizeAnnotations workflows = mapResult normWorkflow workflows"

subsection \<open>Criteria and structure\<close>

record CriterionChecks =
  cc_ParseCondition :: "bytes \<Rightarrow> Condition option"
  cc_ConditionJSONPath :: "string \<Rightarrow> unit result"
  cc_ArrayClauseJSONPath :: "string \<Rightarrow> unit result"
  cc_LifecycleCondition :: "Condition \<Rightarrow> unit result"
  cc_CriterionCondition :: "Condition \<Rightarrow> unit result"
  cc_Patterns :: "Condition \<Rightarrow> unit result"

fun walkCriterion :: "CriterionChecks \<Rightarrow> Condition \<Rightarrow> unit result" where
  "walkCriterion cc (SimpleCondition path op val) = cc_ConditionJSONPath cc path"
| "walkCriterion cc (ArrayCondition path val) = cc_ArrayClauseJSONPath cc path"
| "walkCriterion cc (LifecycleCondition field op val) = cc_LifecycleCondition cc (LifecycleCondition field op val)"
| "walkCriterion cc (GroupCondition op conds) = firstErr (map (walkCriterion cc) conds)"
| "walkCriterion cc (FunctionCondition name) = Ok ()"

definition validateCriterion :: "CriterionChecks \<Rightarrow> bytes \<Rightarrow> unit result" where
  "validateCriterion cc criterion =
     (let trimmed = TrimSpace criterion
      in if trimmed = [] \<or> trimmed = ''null'' then Ok ()
         else case cc_ParseCondition cc trimmed of
                None \<Rightarrow> Ok ()
              | Some cond \<Rightarrow> firstErr [walkCriterion cc cond, cc_CriterionCondition cc cond, cc_Patterns cc cond])"

definition validExecutionModes :: "string list" where
  "validExecutionModes = ['''', ''SYNC'', ''ASYNC_SAME_TX'', ''ASYNC_NEW_TX'', ''COMMIT_BEFORE_DISPATCH'']"

definition validRetryPolicies :: "string list" where
  "validRetryPolicies = ['''', ''NONE'', ''FIXED'']"

definition maxIdentifierLen :: int where
  "maxIdentifierLen = 256"

definition validateProcessor :: "ProcessorDefinition \<Rightarrow> unit result" where
  "validateProcessor p = firstErr
     [require (pr_Name p \<noteq> []) ''empty processor name'',
      require (int (length (pr_Name p)) \<le> maxIdentifierLen) ''processor name too long'',
      require (cfg_AsyncResult (pr_Config p) \<noteq> Some True) ''asyncResult=true is not supported'',
      require (cfg_CrossoverToAsyncMs (pr_Config p) = None) ''crossoverToAsyncMs is not supported'',
      require (pr_ExecutionMode p \<in> set validExecutionModes) ''unknown executionMode'',
      require (cfg_RetryPolicy (pr_Config p) \<in> set validRetryPolicies) ''unknown retryPolicy'']"

definition validateSchedule :: "TransitionSchedule \<Rightarrow> unit result" where
  "validateSchedule sch = firstErr
     (require ((0 < sch_DelayMs sch) \<noteq> (sch_Function sch \<noteq> None))
        ''exactly one of schedule.delayMs or schedule.function is required'' #
      (case sch_Function sch of
         None \<Rightarrow> []
       | Some fn \<Rightarrow>
           [require (fn_ResultKind fn = ''Schedule'') ''schedule.function.resultKind must be Schedule'',
            require (fn_Name fn \<noteq> [] \<and> fn_CalculationNodesTags fn \<noteq> [])
              ''schedule.function requires name and calculationNodesTags'']))"

fun validateTransitions ::
  "CriterionChecks \<Rightarrow> WorkflowDefinition \<Rightarrow> string list \<Rightarrow> TransitionDefinition list \<Rightarrow> unit result" where
  "validateTransitions cc wfd trNames [] = Ok ()"
| "validateTransitions cc wfd trNames (tr # trs) =
     (case firstErr
        ([require (tr_Name tr \<noteq> []) ''empty transition name'',
          require (int (length (tr_Name tr)) \<le> maxIdentifierLen) ''transition name too long'',
          require (tr_Name tr \<notin> set trNames) ''duplicate transition name'',
          require (stateDef_of wfd (tr_Next tr) \<noteq> None) ''next state is not declared'',
          validateCriterion cc (tr_Criterion tr),
          require (\<not> (tr_Manual tr \<and> tr_Schedule tr \<noteq> None)) ''manual and scheduled are mutually exclusive''] @
         (case tr_Schedule tr of None \<Rightarrow> [] | Some sch \<Rightarrow> [validateSchedule sch]) @
         map validateProcessor (tr_Processors tr)) of
        Inl e \<Rightarrow> Err e
      | Inr _ \<Rightarrow> validateTransitions cc wfd (tr_Name tr # trNames) trs)"

definition validateState ::
  "CriterionChecks \<Rightarrow> WorkflowDefinition \<Rightarrow> string \<times> StateDefinition \<Rightarrow> unit result" where
  "validateState cc wfd p = firstErr
     [require (fst p \<noteq> []) ''empty state name'',
      require (int (length (fst p)) \<le> maxIdentifierLen) ''state name too long'',
      validateTransitions cc wfd [] (sd_Transitions (snd p))]"

definition validateWorkflowStructure :: "CriterionChecks \<Rightarrow> WorkflowDefinition \<Rightarrow> unit result" where
  "validateWorkflowStructure cc wfd = firstErr
     ([require (wf_Name wfd \<noteq> []) ''workflow with empty name'',
       require (int (length (wf_Name wfd)) \<le> maxIdentifierLen) ''workflow name too long'',
       require (wf_InitialState wfd \<noteq> []) ''initialState must not be empty'',
       require (stateDef_of wfd (wf_InitialState wfd) \<noteq> None) ''initialState is not declared in states'',
       validateCriterion cc (wf_Criterion wfd)] @
      map (validateState cc wfd) (wf_States wfd))"

fun duplicateNames :: "string list \<Rightarrow> WorkflowDefinition list \<Rightarrow> unit result" where
  "duplicateNames seen [] = Ok ()"
| "duplicateNames seen (wfd # wfs) =
     (if wf_Name wfd \<in> set seen \<and> wf_Name wfd \<noteq> [] then Err (ErrMsg ''duplicate workflow name'')
      else duplicateNames (wf_Name wfd # seen) wfs)"

definition validateImportRequest :: "CriterionChecks \<Rightarrow> WorkflowDefinition list \<Rightarrow> unit result" where
  "validateImportRequest cc workflows =
     firstErr (duplicateNames [] workflows # map (validateWorkflowStructure cc) workflows)"

definition validateProcessorFlags :: "WorkflowDefinition \<Rightarrow> unit result" where
  "validateProcessorFlags wfd =
     firstErr (concat (map (\<lambda>st. concat (map (\<lambda>tr. map (\<lambda>p.
       require (cfg_StartNewTxOnDispatch (pr_Config p) \<noteq> Some True \<or> pr_ExecutionMode p = ''COMMIT_BEFORE_DISPATCH'')
         ''startNewTxOnDispatch=true is only valid with COMMIT_BEFORE_DISPATCH'')
       (tr_Processors tr)) (sd_Transitions (snd st)))) (wf_States wfd)))"

subsection \<open>The loop detector\<close>

text \<open>
  The recursive closure \<^verbatim>\<open>dfs\<close> takes fuel, and running out of it is \<open>None\<close>; the colour and parent maps are
  threaded. A found cycle is the list that \<^verbatim>\<open>reconstructCyclePath\<close> joins; its backward walk over
  \<^verbatim>\<open>parent\<close> takes fuel as well.
\<close>

definition unguarded :: "TransitionDefinition \<Rightarrow> bool" where
  "unguarded tr \<longleftrightarrow> \<not> tr_Manual tr \<and> \<not> tr_Disabled tr \<and> \<not> hasCriterion (tr_Criterion tr)"

definition adjOf :: "WorkflowDefinition \<Rightarrow> string \<Rightarrow> string list" where
  "adjOf wfd s =
     (case stateDef_of wfd s of None \<Rightarrow> [] | Some d \<Rightarrow> map tr_Next (filter unguarded (sd_Transitions d)))"

datatype color = white | gray | black

type_synonym dfsState = "(string \<Rightarrow> color) \<times> (string \<Rightarrow> string)"

fun walkBack :: "nat \<Rightarrow> (string \<Rightarrow> string) \<Rightarrow> string \<Rightarrow> string \<Rightarrow> string list \<Rightarrow> string list option" where
  "walkBack fuel parent cycleStart cur parts =
     (if cur = cycleStart then Some parts
      else case fuel of
             0 \<Rightarrow> None
           | Suc k \<Rightarrow> walkBack k parent cycleStart (parent cur) (cur # parts))"

declare walkBack.simps [simp del]

definition reconstructCyclePath :: "nat \<Rightarrow> (string \<Rightarrow> string) \<Rightarrow> string \<Rightarrow> string \<Rightarrow> string list option" where
  "reconstructCyclePath fuel parent tail cycleStart =
     map_option (\<lambda>parts. cycleStart # parts @ [cycleStart]) (walkBack fuel parent cycleStart tail [])"

fun dfs :: "nat \<Rightarrow> (string \<Rightarrow> string list) \<Rightarrow> nat \<Rightarrow> string \<Rightarrow> dfsState \<Rightarrow> (string list + dfsState) option"
  and dfsEdges ::
    "nat \<Rightarrow> (string \<Rightarrow> string list) \<Rightarrow> nat \<Rightarrow> string \<Rightarrow> string list \<Rightarrow> dfsState \<Rightarrow> (string list + dfsState) option" where
  "dfs n adj 0 state cp = None"
| "dfs n adj (Suc k) state cp =
     (case dfsEdges n adj k state (adj state) ((fst cp)(state := gray), snd cp) of
        Some (Inr cp') \<Rightarrow> Some (Inr ((fst cp')(state := black), snd cp'))
      | r \<Rightarrow> r)"
| "dfsEdges n adj k state [] cp = Some (Inr cp)"
| "dfsEdges n adj k state (next # rest) cp =
     (case fst cp next of
        gray \<Rightarrow> map_option Inl (reconstructCyclePath n (snd cp) state next)
      | white \<Rightarrow>
          (case dfs n adj k next (fst cp, (snd cp)(next := state)) of
             Some (Inr cp') \<Rightarrow> dfsEdges n adj k state rest cp'
           | r \<Rightarrow> r)
      | black \<Rightarrow> dfsEdges n adj k state rest cp)"

fun dfsRoots ::
  "nat \<Rightarrow> (string \<Rightarrow> string list) \<Rightarrow> string list \<Rightarrow> dfsState \<Rightarrow> (string list + dfsState) option" where
  "dfsRoots n adj [] cp = Some (Inr cp)"
| "dfsRoots n adj (s # ss) cp =
     (if fst cp s = white
      then case dfs n adj n s cp of
             Some (Inr cp') \<Rightarrow> dfsRoots n adj ss cp'
           | r \<Rightarrow> r
      else dfsRoots n adj ss cp)"

definition graphNodes :: "WorkflowDefinition \<Rightarrow> string list" where
  "graphNodes wfd = map fst (wf_States wfd) @ concat (map (adjOf wfd) (map fst (wf_States wfd)))"

definition loopSearch :: "WorkflowDefinition \<Rightarrow> (string list + dfsState) option" where
  "loopSearch wfd =
     dfsRoots (length (graphNodes wfd)) (adjOf wfd) (sort (map fst (wf_States wfd))) (\<lambda>_. white, \<lambda>_. [])"

definition validateWorkflowLoops :: "WorkflowDefinition \<Rightarrow> unit result" where
  "validateWorkflowLoops wfd =
     (case loopSearch wfd of
        Some (Inr _) \<Rightarrow> Ok ()
      | Some (Inl _) \<Rightarrow> Err (ErrMsg ''infinite loop detected'')
      | None \<Rightarrow> Err (Panic ''out of fuel''))"

definition validateWorkflows :: "WorkflowDefinition list \<Rightarrow> bool \<Rightarrow> unit result" where
  "validateWorkflows workflows allowCycles =
     firstErr (concat (map (\<lambda>wfd. (if allowCycles then [] else [validateWorkflowLoops wfd]) @ [validateProcessorFlags wfd])
       workflows))"

subsection \<open>Import and export\<close>

text \<open>
  The shape the probe decodes: per transition whether there is a schedule, a function in it, and an
  \<^verbatim>\<open>attachEntity\<close> in that, and the same field of every processor.
\<close>

type_synonym transitionProbe = "bool option option option \<times> bool option list"
type_synonym workflowProbe = "(string \<times> transitionProbe list) list"

fun alignDefaults :: "('a \<Rightarrow> 'b \<Rightarrow> 'a) \<Rightarrow> 'a list \<Rightarrow> 'b list \<Rightarrow> 'a list" where
  "alignDefaults g (x # xs) (p # ps) = g x p # alignDefaults g xs ps"
| "alignDefaults g xs ps = xs"

definition defaultProcessor :: "ProcessorDefinition \<Rightarrow> bool option \<Rightarrow> ProcessorDefinition" where
  "defaultProcessor p probe =
     (if probe = None then p\<lparr>pr_Config := (pr_Config p)\<lparr>cfg_AttachEntity := True\<rparr>\<rparr> else p)"

definition defaultTransition :: "TransitionDefinition \<Rightarrow> transitionProbe \<Rightarrow> TransitionDefinition" where
  "defaultTransition tr probe =
     (let tr1 = (case tr_Schedule tr of
                   Some sch \<Rightarrow>
                     (case sch_Function sch of
                        Some fn \<Rightarrow>
                          if fst probe = Some (Some None)
                          then tr\<lparr>tr_Schedule := Some (sch\<lparr>sch_Function := Some (fn\<lparr>fn_AttachEntity := True\<rparr>)\<rparr>)\<rparr>
                          else tr
                      | None \<Rightarrow> tr)
                 | None \<Rightarrow> tr)
      in tr1\<lparr>tr_Processors := alignDefaults defaultProcessor (tr_Processors tr1) (snd probe)\<rparr>)"

definition defaultState :: "workflowProbe \<Rightarrow> string \<times> StateDefinition \<Rightarrow> string \<times> StateDefinition" where
  "defaultState probe st =
     (case map_of probe (fst st) of
        None \<Rightarrow> st
      | Some trs \<Rightarrow>
          (fst st, (snd st)\<lparr>sd_Transitions := alignDefaults defaultTransition (sd_Transitions (snd st)) trs\<rparr>))"

record workflowImportDef =
  wid_Version :: string
  wid_Name :: string
  wid_Description :: string
  wid_InitialState :: string
  wid_Active :: "bool option"
  wid_Criterion :: bytes
  wid_States :: "(string \<times> StateDefinition) list"
  wid_Annotations :: bytes
  wid_CriterionAnnotations :: bytes

record importRequest =
  ir_ImportMode :: string
  ir_AllowCycles :: bool
  ir_Workflows :: "workflowImportDef list"

definition applyAttachEntityDefaults ::
  "workflowImportDef list \<Rightarrow> workflowProbe list \<Rightarrow> workflowImportDef list" where
  "applyAttachEntityDefaults workflows probe =
     alignDefaults (\<lambda>w p. w\<lparr>wid_States := map (defaultState p) (wid_States w)\<rparr>) workflows probe"

definition incomingDef :: "workflowImportDef \<Rightarrow> WorkflowDefinition" where
  "incomingDef w =
     \<lparr>wf_Version = wid_Version w, wf_Name = wid_Name w, wf_Description = wid_Description w,
      wf_InitialState = wid_InitialState w, wf_Active = (case wid_Active w of None \<Rightarrow> True | Some b \<Rightarrow> b),
      wf_Criterion = wid_Criterion w, wf_States = wid_States w, wf_Annotations = wid_Annotations w,
      wf_CriterionAnnotations = wid_CriterionAnnotations w\<rparr>"

definition mergeExisting ::
  "WorkflowDefinition list \<Rightarrow> (string \<rightharpoonup> WorkflowDefinition) \<times> string list" where
  "mergeExisting existing = (fold (\<lambda>w m. m(wf_Name w \<mapsto> w)) existing Map.empty, map wf_Name existing)"

definition mergeStep ::
  "WorkflowDefinition \<Rightarrow> (string \<rightharpoonup> WorkflowDefinition) \<times> string list
   \<Rightarrow> (string \<rightharpoonup> WorkflowDefinition) \<times> string list" where
  "mergeStep w mo =
     ((fst mo)(wf_Name w \<mapsto> w), if fst mo (wf_Name w) = None then snd mo @ [wf_Name w] else snd mo)"

definition applyImportMode ::
  "WorkflowDefinition list \<Rightarrow> WorkflowDefinition list \<Rightarrow> string \<Rightarrow> WorkflowDefinition list" where
  "applyImportMode existing incoming mode =
     (if mode = ''REPLACE'' then incoming
      else if mode = ''ACTIVATE'' then
        map (\<lambda>w. w\<lparr>wf_Active := False\<rparr>)
          (filter (\<lambda>w. wf_Name w \<notin> wf_Name ` set incoming) existing) @ incoming
      else
        let (merged, order) = fold mergeStep incoming (mergeExisting existing)
        in map (\<lambda>n. the (merged n)) order)"

datatype httpError = HttpError (he_Status: nat) (he_Code: string)

definition knownModes :: "string list" where
  "knownModes = [''MERGE'', ''REPLACE'', ''ACTIVATE'']"

definition ImportEntityModelWorkflow ::
  "CriterionChecks \<Rightarrow> (WorkflowDefinition list \<Rightarrow> WorkflowDefinition list result) \<Rightarrow> tenant \<Rightarrow> ModelRef
   \<Rightarrow> importRequest \<Rightarrow> workflowProbe list \<Rightarrow> modelData \<Rightarrow> WorkflowDefinition wfData
   \<Rightarrow> (httpError + unit) \<times> WorkflowDefinition wfData" where
  "ImportEntityModelWorkflow cc jsonCopy tid ref req probe models s =
     (let mode = (if ir_ImportMode req = [] then ''MERGE'' else ir_ImportMode req);
          incoming = map incomingDef (applyAttachEntityDefaults (ir_Workflows req) probe)
      in if mode \<notin> set knownModes then (Inl (HttpError 400 ''BAD_REQUEST''), s)
         else case validateSchemaVersions incoming of
           Inl _ \<Rightarrow> (Inl (HttpError 400 ''WORKFLOW_SCHEMA_VERSION_UNSUPPORTED''), s)
         | Inr _ \<Rightarrow>
         (case ModelStore_Get tid ref models of
            Inl e \<Rightarrow> (Inl (if e = ErrNotFound then HttpError 404 ''MODEL_NOT_FOUND'' else HttpError 500 ''INTERNAL''), s)
          | Inr _ \<Rightarrow>
          (case WorkflowStore_Get jsonCopy tid ref s of
             Inl e \<Rightarrow> (Inl (HttpError 500 ''INTERNAL''), s)
           | Inr existing \<Rightarrow>
               if incoming = [] \<and> (mode = ''REPLACE'' \<or> mode = ''ACTIVATE'')
               then (Inl (HttpError 400 ''VALIDATION_FAILED''), s)
               else case validateImportRequest cc incoming of
                 Inl _ \<Rightarrow> (Inl (HttpError 400 ''VALIDATION_FAILED''), s)
               | Inr _ \<Rightarrow>
               (case validateAndNormalizeAnnotations incoming of
                  Inl _ \<Rightarrow> (Inl (HttpError 400 ''VALIDATION_FAILED''), s)
                | Inr incoming' \<Rightarrow>
                    let result = applyImportMode existing incoming' mode
                    in case validateWorkflows result (ir_AllowCycles req) of
                         Inl _ \<Rightarrow> (Inl (HttpError 400 ''VALIDATION_FAILED''), s)
                       | Inr _ \<Rightarrow>
                           (case WorkflowStore_Save jsonCopy tid ref result s of
                              (Inl _, s') \<Rightarrow> (Inl (HttpError 500 ''INTERNAL''), s')
                            | (Inr _, s') \<Rightarrow> (Inr (), s'))))))"

definition ExportEntityModelWorkflow ::
  "(WorkflowDefinition list \<Rightarrow> WorkflowDefinition list result) \<Rightarrow> tenant \<Rightarrow> ModelRef \<Rightarrow> modelData
   \<Rightarrow> WorkflowDefinition wfData \<Rightarrow> httpError + WorkflowDefinition list" where
  "ExportEntityModelWorkflow jsonCopy tid ref models s =
     (case ModelStore_Get tid ref models of
        Inl e \<Rightarrow> Inl (if e = ErrNotFound then HttpError 404 ''MODEL_NOT_FOUND'' else HttpError 500 ''INTERNAL'')
      | Inr _ \<Rightarrow>
          (case WorkflowStore_Get jsonCopy tid ref s of
             Inl _ \<Rightarrow> Inl (HttpError 500 ''INTERNAL'')
           | Inr workflows \<Rightarrow>
               if workflows = [] then Inl (HttpError 404 ''WORKFLOW_NOT_FOUND'')
               else Inr (map (\<lambda>w. w\<lparr>wf_Version := CurrentSchemaVersion\<rparr>) workflows)))"

text \<open>The graph of unguarded automated transitions, and what a reported cycle is.\<close>

definition edgesOf :: "(string \<Rightarrow> string list) \<Rightarrow> (string \<times> string) set" where
  "edgesOf adj = {(a, b). b \<in> set (adj a)}"

fun pathOf :: "(string \<Rightarrow> string list) \<Rightarrow> string list \<Rightarrow> bool" where
  "pathOf adj (a # b # rest) \<longleftrightarrow> b \<in> set (adj a) \<and> pathOf adj (b # rest)"
| "pathOf adj _ \<longleftrightarrow> True"

definition isCycle :: "(string \<Rightarrow> string list) \<Rightarrow> string list \<Rightarrow> bool" where
  "isCycle adj path \<longleftrightarrow> 2 \<le> length path \<and> hd path = last path \<and> pathOf adj path"

text \<open>The gray states, from the one being explored back to the root, linked by \<^verbatim>\<open>parent\<close>.\<close>

fun linked :: "(string \<Rightarrow> string list) \<Rightarrow> (string \<Rightarrow> string) \<Rightarrow> string list \<Rightarrow> bool" where
  "linked adj p (x # y # rest) \<longleftrightarrow> p x = y \<and> x \<in> set (adj y) \<and> linked adj p (y # rest)"
| "linked adj p _ \<longleftrightarrow> True"

definition dfs_ok :: "(string \<Rightarrow> string list) \<Rightarrow> string set \<Rightarrow> string list \<Rightarrow> dfsState \<Rightarrow> bool" where
  "dfs_ok adj U stack cp \<longleftrightarrow>
     (\<forall>s. fst cp s = gray \<longleftrightarrow> s \<in> set stack) \<and> distinct stack \<and> set stack \<subseteq> U \<and> linked adj (snd cp) stack \<and>
     (\<forall>a b. fst cp a = black \<and> b \<in> set (adj a) \<longrightarrow> fst cp b = black) \<and>
     (\<forall>a. fst cp a = black \<longrightarrow> (a, a) \<notin> (edgesOf adj)\<^sup>+)"

definition whites :: "string set \<Rightarrow> dfsState \<Rightarrow> nat" where
  "whites U cp = card {s \<in> U. fst cp s = white}"

definition grown :: "dfsState \<Rightarrow> dfsState \<Rightarrow> bool" where
  "grown cp cp' \<longleftrightarrow>
     (\<forall>s. fst cp s = black \<longrightarrow> fst cp' s = black) \<and> (\<forall>s. fst cp' s = white \<longrightarrow> fst cp s = white)"

text \<open>What a client sends back after an export: every field explicit.\<close>

definition stamp :: "WorkflowDefinition \<Rightarrow> WorkflowDefinition" where
  "stamp w = w\<lparr>wf_Version := CurrentSchemaVersion\<rparr>"

definition exportedDef :: "WorkflowDefinition \<Rightarrow> workflowImportDef" where
  "exportedDef w =
     \<lparr>wid_Version = wf_Version w, wid_Name = wf_Name w, wid_Description = wf_Description w,
      wid_InitialState = wf_InitialState w, wid_Active = Some (wf_Active w), wid_Criterion = wf_Criterion w,
      wid_States = wf_States w, wid_Annotations = wf_Annotations w,
      wid_CriterionAnnotations = wf_CriterionAnnotations w\<rparr>"

definition reimport :: "bool \<Rightarrow> WorkflowDefinition list \<Rightarrow> importRequest" where
  "reimport allowCycles ws =
     \<lparr>ir_ImportMode = ''REPLACE'', ir_AllowCycles = allowCycles, ir_Workflows = map exportedDef ws\<rparr>"

definition explicitProbe :: "workflowProbe list \<Rightarrow> bool" where
  "explicitProbe probes \<longleftrightarrow>
     (\<forall>w \<in> set probes. \<forall>st \<in> set w. \<forall>tr \<in> set (snd st). fst tr \<noteq> Some (Some None) \<and> None \<notin> set (snd tr))"

text \<open>A definition without its annotations.\<close>

definition bareProcessor :: "ProcessorDefinition \<Rightarrow> ProcessorDefinition" where
  "bareProcessor p = p\<lparr>pr_Annotations := []\<rparr>"

definition bareTransition :: "TransitionDefinition \<Rightarrow> TransitionDefinition" where
  "bareTransition tr =
     tr\<lparr>tr_Annotations := [], tr_CriterionAnnotations := [], tr_Processors := map bareProcessor (tr_Processors tr)\<rparr>"

definition bareState :: "string \<times> StateDefinition \<Rightarrow> string \<times> StateDefinition" where
  "bareState st =
     (fst st, (snd st)\<lparr>sd_Annotations := [], sd_Transitions := map bareTransition (sd_Transitions (snd st))\<rparr>)"

definition bareWorkflow :: "WorkflowDefinition \<Rightarrow> WorkflowDefinition" where
  "bareWorkflow w =
     w\<lparr>wf_Version := [], wf_Annotations := [], wf_CriterionAnnotations := [], wf_States := map bareState (wf_States w)\<rparr>"

definition helloWorkflow :: workflowImportDef where
  "helloWorkflow =
     \<lparr>wid_Version = ''1.1'', wid_Name = ''w'', wid_Description = '''', wid_InitialState = ''A'', wid_Active = None,
      wid_Criterion = '''',
      wid_States =
        [(''A'', \<lparr>sd_Transitions =
            [\<lparr>tr_Name = ''go'', tr_Next = ''B'', tr_Manual = False, tr_Disabled = False, tr_Schedule = None,
              tr_Criterion = '''', tr_Processors = [], tr_Annotations = ''{ }'', tr_CriterionAnnotations = ''null''\<rparr>],
            sd_Annotations = ''''\<rparr>),
         (''B'', \<lparr>sd_Transitions = [], sd_Annotations = ''''\<rparr>)],
      wid_Annotations = '' {  } '', wid_CriterionAnnotations = ''''\<rparr>"

definition noChecks :: CriterionChecks where
  "noChecks =
     \<lparr>cc_ParseCondition = (\<lambda>_. None), cc_ConditionJSONPath = (\<lambda>_. Ok ()), cc_ArrayClauseJSONPath = (\<lambda>_. Ok ()),
      cc_LifecycleCondition = (\<lambda>_. Ok ()), cc_CriterionCondition = (\<lambda>_. Ok ()), cc_Patterns = (\<lambda>_. Ok ())\<rparr>"

lemma pathOf_snoc: "xs \<noteq> [] \<Longrightarrow> pathOf adj (xs @ [z]) \<longleftrightarrow> pathOf adj xs \<and> z \<in> set (adj (last xs))"
  by (induction xs rule: pathOf.induct) auto

lemma pathOf_trancl: "pathOf adj (a # b # xs) \<Longrightarrow> (a, last (b # xs)) \<in> (edgesOf adj)\<^sup>+"
proof (induction xs arbitrary: a b)
  case (Cons x xs)
  then have "(a, b) \<in> edgesOf adj" "(b, last (x # xs)) \<in> (edgesOf adj)\<^sup>+" by (auto simp: edgesOf_def)
  then show ?case by (simp add: trancl_into_trancl2)
qed (auto simp: edgesOf_def)

lemma isCycle_not_acyclic: assumes "isCycle adj path" shows "\<not> acyclic (edgesOf adj)"
proof -
  obtain a b xs where p: "path = a # b # xs"
    using assms by (auto simp: isCycle_def Suc_le_length_iff numeral_2_eq_2)
  then show ?thesis using pathOf_trancl [of adj a b xs] assms by (auto simp: isCycle_def acyclic_def split: if_splits)
qed

lemma walkBack_linked:
  assumes "linked adj p (x # S)" "y \<in> set (x # S)" "length S \<le> fuel"
  shows "\<exists>pre. walkBack fuel p y x parts = Some (pre @ parts) \<and> pathOf adj (y # pre) \<and> last (y # pre) = x"
  using assms
proof (induction S arbitrary: x parts fuel)
  case Nil
  then show ?case by (auto simp: walkBack.simps)
next
  case (Cons z S)
  show ?case
  proof (cases "x = y")
    case True
    then show ?thesis by (auto simp: walkBack.simps)
  next
    case False
    obtain k where k: "fuel = Suc k" using Cons.prems(3) by (cases fuel) auto
    obtain pre where pre: "walkBack k p y z (x # parts) = Some (pre @ x # parts)" "pathOf adj (y # pre)" "last (y # pre) = z"
      using Cons.IH [of z k "x # parts"] Cons.prems False k by auto
    then have "walkBack fuel p y x parts = Some ((pre @ [x]) @ parts)"
      using False k Cons.prems(1) by (simp add: walkBack.simps [of "Suc k"])
    moreover have "pathOf adj (y # pre @ [x])"
      using pathOf_snoc [of "y # pre" adj x] pre(2,3) Cons.prems(1) by simp
    ultimately show ?thesis by (intro exI [of _ "pre @ [x]"]) simp
  qed
qed

lemma cycle_found:
  assumes "dfs_ok adj U (state # stack) cp" "fst cp y = gray" "y \<in> set (adj state)" "finite U" "card U \<le> n"
  shows "\<exists>path. reconstructCyclePath n (snd cp) state y = Some path \<and> isCycle adj path"
proof -
  have S: "linked adj (snd cp) (state # stack)" "y \<in> set (state # stack)" "distinct (state # stack)" "set (state # stack) \<subseteq> U"
    using assms(1,2) by (auto simp: dfs_ok_def)
  have "length (state # stack) \<le> card U" using S(3,4) assms(4) by (metis card_mono distinct_card)
  then have "length stack \<le> n" using assms(5) by simp
  then obtain pre where "walkBack n (snd cp) y state [] = Some pre" "pathOf adj (y # pre)" "last (y # pre) = state"
    using walkBack_linked [OF S(1,2), of n "[]"] by auto
  moreover have "pathOf adj (y # pre @ [y])"
    using pathOf_snoc [of "y # pre" adj y] calculation assms(3) by simp
  ultimately show ?thesis by (simp add: reconstructCyclePath_def isCycle_def)
qed

lemma black_reach:
  assumes "\<forall>a b. c a = black \<and> b \<in> set (adj a) \<longrightarrow> c b = black" "(a, b) \<in> (edgesOf adj)\<^sup>*" "c a = black"
  shows "c b = black"
  using assms(2,3) by (induction rule: rtrancl_induct) (use assms(1) in \<open>auto simp: edgesOf_def\<close>)

lemma dfs_ok_push:
  assumes "dfs_ok adj U stack (c, p)" "c s = white" "s \<in> U" "stack \<noteq> [] \<longrightarrow> p s = hd stack \<and> s \<in> set (adj (hd stack))"
  shows "dfs_ok adj U (s # stack) (c(s := gray), p)"
proof -
  have "c s \<noteq> gray" using assms(2) by simp
  then have "s \<notin> set stack" using assms(1) by (simp add: dfs_ok_def)
  moreover have "linked adj p (s # stack)" using assms(1,4) by (cases stack) (auto simp: dfs_ok_def)
  ultimately show ?thesis using assms(1-3) by (auto simp: dfs_ok_def)
qed

lemma linked_unvisited: "linked adj p stack \<Longrightarrow> s \<notin> set stack \<Longrightarrow> linked adj (p(s := t)) stack"
  by (induction adj p stack rule: linked.induct) auto

lemma dfs_ok_parent:
  assumes "dfs_ok adj U stack (c, p)" "c s = white" shows "dfs_ok adj U stack (c, p(s := t))"
proof -
  have "c s \<noteq> gray" using assms(2) by simp
  then have "s \<notin> set stack" using assms(1) by (simp add: dfs_ok_def)
  then show ?thesis using assms(1) linked_unvisited [of adj p stack s t] by (simp add: dfs_ok_def)
qed

lemma dfs_ok_pop:
  assumes "dfs_ok adj U (s # stack) cp" "\<forall>b \<in> set (adj s). fst cp b = black"
  shows "dfs_ok adj U stack ((fst cp)(s := black), snd cp)"
proof -
  have ok: "fst cp s = gray" "\<forall>a b. fst cp a = black \<and> b \<in> set (adj a) \<longrightarrow> fst cp b = black"
    "\<forall>a. fst cp a = black \<longrightarrow> (a, a) \<notin> (edgesOf adj)\<^sup>+"
    using assms(1) by (auto simp: dfs_ok_def)
  have "(s, s) \<notin> (edgesOf adj)\<^sup>+"
  proof
    assume "(s, s) \<in> (edgesOf adj)\<^sup>+"
    then obtain b where "b \<in> set (adj s)" "(b, s) \<in> (edgesOf adj)\<^sup>*" by (auto simp: edgesOf_def dest: tranclD)
    then show False using black_reach [OF ok(2)] assms(2) ok(1) by fastforce
  qed
  moreover have "linked adj (snd cp) stack" using assms(1) by (cases stack) (auto simp: dfs_ok_def)
  ultimately show ?thesis using assms ok by (auto simp: dfs_ok_def)
qed

lemma whites_shrink: "finite U \<Longrightarrow> grown cp cp' \<Longrightarrow> whites U cp' \<le> whites U cp"
  unfolding whites_def by (rule card_mono) (auto simp: grown_def)

lemma whites_gray: "finite U \<Longrightarrow> s \<in> U \<Longrightarrow> c s = white \<Longrightarrow> Suc (whites U (c(s := gray), p)) = whites U (c, p)"
proof -
  assume U: "finite U" "s \<in> U" "c s = white"
  have "{x \<in> U. fst (c(s := gray), p) x = white} = {x \<in> U. c x = white} - {s}" by auto
  moreover have "s \<in> {x \<in> U. c x = white}" using U by simp
  moreover have "finite {x \<in> U. c x = white}" using U(1) by simp
  ultimately show ?thesis unfolding whites_def by (simp only: fst_conv card.remove)
qed

lemma whites_pos: "finite U \<Longrightarrow> s \<in> U \<Longrightarrow> fst cp s = white \<Longrightarrow> 0 < whites U cp"
  unfolding whites_def by (subst card_gt_0_iff) auto

lemma grown_refl: "grown cp cp" by (simp add: grown_def)

lemma grown_trans: "grown a b \<Longrightarrow> grown b c \<Longrightarrow> grown a c" unfolding grown_def by blast

text \<open>What a call returns: a cycle, or a state in which the explored part is black.\<close>

text \<open>One edge to a white state: its search, then the remaining edges.\<close>

lemma dfsEdges_white:
  assumes "fst cp y = white" and U: "finite U"
    and sub: "(\<exists>path. dfs n adj k y (fst cp, (snd cp)(y := state)) = Some (Inl path) \<and> isCycle adj path) \<or>
      (\<exists>cp'. dfs n adj k y (fst cp, (snd cp)(y := state)) = Some (Inr cp') \<and> dfs_ok adj U (state # stack) cp' \<and>
        grown (fst cp, (snd cp)(y := state)) cp' \<and> fst cp' y = black)"
    and rest: "\<And>cp'. dfs n adj k y (fst cp, (snd cp)(y := state)) = Some (Inr cp') \<Longrightarrow> dfs_ok adj U (state # stack) cp' \<Longrightarrow>
      whites U cp' \<le> k \<Longrightarrow>
      (\<exists>path. dfsEdges n adj k state rest cp' = Some (Inl path) \<and> isCycle adj path) \<or>
      (\<exists>cp''. dfsEdges n adj k state rest cp' = Some (Inr cp'') \<and> dfs_ok adj U (state # stack) cp'' \<and> grown cp' cp'' \<and>
        (\<forall>b \<in> set rest. fst cp'' b = black))"
    and k: "whites U cp \<le> k"
  shows "(\<exists>path. dfsEdges n adj k state (y # rest) cp = Some (Inl path) \<and> isCycle adj path) \<or>
    (\<exists>cp''. dfsEdges n adj k state (y # rest) cp = Some (Inr cp'') \<and> dfs_ok adj U (state # stack) cp'' \<and> grown cp cp'' \<and>
      (\<forall>b \<in> set (y # rest). fst cp'' b = black))"
  using sub
proof
  assume "\<exists>path. dfs n adj k y (fst cp, (snd cp)(y := state)) = Some (Inl path) \<and> isCycle adj path"
  then show ?thesis using assms(1) by (cases cp) auto
next
  assume "\<exists>cp'. dfs n adj k y (fst cp, (snd cp)(y := state)) = Some (Inr cp') \<and> dfs_ok adj U (state # stack) cp' \<and>
    grown (fst cp, (snd cp)(y := state)) cp' \<and> fst cp' y = black"
  then obtain cp' where s: "dfs n adj k y (fst cp, (snd cp)(y := state)) = Some (Inr cp')" "dfs_ok adj U (state # stack) cp'"
    "grown cp cp'" "fst cp' y = black" by (auto simp: grown_def)
  have "whites U cp' \<le> k" using whites_shrink [OF U s(3)] k by simp
  then consider path where "dfsEdges n adj k state rest cp' = Some (Inl path)" "isCycle adj path"
    | cp'' where "dfsEdges n adj k state rest cp' = Some (Inr cp'')" "dfs_ok adj U (state # stack) cp''"
      "grown cp' cp''" "\<forall>b \<in> set rest. fst cp'' b = black"
    using rest [OF s(1,2)] by blast
  then show ?thesis
  proof cases
    case 1
    then show ?thesis using s(1) assms(1) by (cases cp) simp
  next
    case a: (2 cp'')
    have "fst cp'' y = black" using a(3) s(4) unfolding grown_def by blast
    then show ?thesis using grown_trans [OF s(3) a(3)] a s(1) assms(1) by (cases cp) simp
  qed
qed

lemma dfs_correct:
  "finite U \<and> card U \<le> n \<and> (\<forall>a \<in> U. set (adj a) \<subseteq> U) \<Longrightarrow> dfs_ok adj U stack cp \<Longrightarrow> fst cp s = white \<Longrightarrow>
     s \<in> U \<Longrightarrow> whites U cp \<le> k \<Longrightarrow> (stack \<noteq> [] \<longrightarrow> snd cp s = hd stack \<and> s \<in> set (adj (hd stack))) \<Longrightarrow>
     (\<exists>path. dfs n adj k s cp = Some (Inl path) \<and> isCycle adj path) \<or>
     (\<exists>cp'. dfs n adj k s cp = Some (Inr cp') \<and> dfs_ok adj U stack cp' \<and> grown cp cp' \<and> fst cp' s = black)"
  "finite U \<and> card U \<le> n \<and> (\<forall>a \<in> U. set (adj a) \<subseteq> U) \<Longrightarrow> dfs_ok adj U (s # stack) cp \<Longrightarrow>
     set nexts \<subseteq> set (adj s) \<Longrightarrow> whites U cp \<le> k \<Longrightarrow>
     (\<exists>path. dfsEdges n adj k s nexts cp = Some (Inl path) \<and> isCycle adj path) \<or>
     (\<exists>cp'. dfsEdges n adj k s nexts cp = Some (Inr cp') \<and> dfs_ok adj U (s # stack) cp' \<and> grown cp cp' \<and>
        (\<forall>b \<in> set nexts. fst cp' b = black))"
proof (induction n adj k s cp and n adj k s nexts cp arbitrary: stack and stack rule: dfs_dfsEdges.induct)
  case (1 n adj state cp)
  then show ?case using whites_pos [of U state cp] by simp
next
  case (2 n adj k state cp)
  obtain c p where cp: "cp = (c, p)" by force
  have ok: "dfs_ok adj U (state # stack) (c(state := gray), p)"
    using dfs_ok_push 2 unfolding cp by auto
  have "whites U (c(state := gray), p) \<le> k" using whites_gray [of U state c p] 2 unfolding cp by auto
  then consider path where "dfsEdges n adj k state (adj state) (c(state := gray), p) = Some (Inl path)" "isCycle adj path"
    | cp' where "dfsEdges n adj k state (adj state) (c(state := gray), p) = Some (Inr cp')"
      "dfs_ok adj U (state # stack) cp'" "grown (c(state := gray), p) cp'" "\<forall>b \<in> set (adj state). fst cp' b = black"
    using 2(1) [of stack] 2(2) ok unfolding cp by auto
  then show ?case
  proof cases
    case 1
    then show ?thesis by (simp add: cp)
  next
    case (2 cp')
    have "grown cp ((fst cp')(state := black), snd cp')"
      using 2(3) \<open>fst cp state = white\<close> unfolding cp grown_def by (auto split: if_splits)
    then show ?thesis using 2 dfs_ok_pop [OF 2(2,4)] by (auto simp: cp)
  qed
next
  case (3 n adj k state cp)
  then show ?case by (simp add: grown_refl)
next
  case (4 n adj k state y rest cp)
  have rest: "set rest \<subseteq> set (adj state)" "y \<in> set (adj state)" using 4(6) by auto
  obtain c p where cp: "cp = (c, p)" by force
  show ?case
  proof (cases "c y")
    case gray
    then show ?thesis using cycle_found [OF 4(5) _ rest(2)] 4(4) unfolding cp by auto
  next
    case black
    then show ?thesis using 4(3) [of stack] 4(4,5,7) rest unfolding cp grown_def by fastforce
  next
    case white
    have "state \<in> U" using 4(5) by (auto simp: dfs_ok_def)
    then have s: "y \<in> U" using 4(4) rest(2) by blast
    have ok: "dfs_ok adj U (state # stack) (c, p(y := state))" using dfs_ok_parent 4(5) white unfolding cp by blast
    have "whites U (c, p(y := state)) \<le> k" using 4(7) unfolding cp whites_def by simp
    then show ?thesis
      using 4(1) [of "state # stack"] 4(2) [OF _ _ refl 4(4) _ rest(1)] 4(4,7) ok white rest(2) s unfolding cp
      by (intro dfsEdges_white) auto
  qed
qed

lemma dfsRoots_correct:
  assumes U: "finite U \<and> card U \<le> n \<and> (\<forall>a \<in> U. set (adj a) \<subseteq> U)"
  shows "dfs_ok adj U [] cp \<Longrightarrow> set roots \<subseteq> U \<Longrightarrow>
     (\<exists>path. dfsRoots n adj roots cp = Some (Inl path) \<and> isCycle adj path) \<or>
     (\<exists>cp'. dfsRoots n adj roots cp = Some (Inr cp') \<and> dfs_ok adj U [] cp' \<and> grown cp cp' \<and>
        (\<forall>r \<in> set roots. fst cp' r = black))"
proof (induction roots arbitrary: cp)
  case Nil
  then show ?case by (simp add: grown_refl)
next
  case (Cons r roots)
  have "whites U cp \<le> card U" unfolding whites_def using U by (intro card_mono) auto
  then have w: "whites U cp \<le> n" using U by simp
  have ng: "fst cp r \<noteq> gray" using Cons.prems(1) by (simp add: dfs_ok_def)
  show ?case
  proof (cases "fst cp r = white")
    case False
    then have b: "fst cp r = black" using ng by (cases "fst cp r") auto
    have rest: "set roots \<subseteq> U" using Cons.prems(2) by simp
    show ?thesis using Cons.IH [OF Cons.prems(1) rest] False b unfolding grown_def by auto
  next
    case True
    consider path where "dfs n adj n r cp = Some (Inl path)" "isCycle adj path"
      | cp' where "dfs n adj n r cp = Some (Inr cp')" "dfs_ok adj U [] cp'" "grown cp cp'" "fst cp' r = black"
      using dfs_correct(1) [OF U Cons.prems(1) True _ w] Cons.prems(2) by auto
    then show ?thesis
    proof cases
      case 1
      then show ?thesis using True by simp
    next
      case (2 cp')
      have rest: "set roots \<subseteq> U" using Cons.prems(2) by simp
      consider path where "dfsRoots n adj roots cp' = Some (Inl path)" "isCycle adj path"
        | cp'' where "dfsRoots n adj roots cp' = Some (Inr cp'')" "dfs_ok adj U [] cp''" "grown cp' cp''"
          "\<forall>r \<in> set roots. fst cp'' r = black"
        using Cons.IH [OF 2(2) rest] by blast
      then show ?thesis
      proof cases
        case 1
        then show ?thesis using True 2(1) by simp
      next
        case a: (2 cp'')
        have "fst cp'' r = black" using a(3) 2(4) unfolding grown_def by blast
        then show ?thesis using grown_trans [OF 2(3) a(3)] a True 2(1) by simp
      qed
    qed
  qed
qed

lemma stateDef_declared: "stateDef_of wfd s = Some d \<Longrightarrow> s \<in> set (map fst (wf_States wfd))"
  by (auto simp: stateDef_of_def image_iff dest!: map_of_SomeD intro: rev_bexI)

lemma graphNodes_closed:
  "finite (set (graphNodes wfd)) \<and> card (set (graphNodes wfd)) \<le> length (graphNodes wfd) \<and>
   (\<forall>a \<in> set (graphNodes wfd). set (adjOf wfd a) \<subseteq> set (graphNodes wfd))"
proof -
  have "set (adjOf wfd a) \<subseteq> set (graphNodes wfd)" for a
  proof (cases "stateDef_of wfd a")
    case None
    then show ?thesis by (simp add: adjOf_def)
  next
    case (Some d)
    then have "a \<in> set (map fst (wf_States wfd))" by (rule stateDef_declared)
    then show ?thesis unfolding graphNodes_def by auto
  qed
  then show ?thesis by (simp add: card_length)
qed

text \<open>
  C8. The loop detector is exact and always ends. A workflow is accepted exactly when the graph of its
  unguarded automated transitions has no cycle, also through states that are not declared; a rejected
  workflow comes with a real cycle of that graph; and the recursion never needs more levels than there
  are states and targets.
\<close>

theorem validateWorkflowLoops_exact:
  "(validateWorkflowLoops wfd = Ok () \<longleftrightarrow> acyclic (edgesOf (adjOf wfd))) \<and>
   (case loopSearch wfd of
      None \<Rightarrow> False
    | Some (Inl path) \<Rightarrow> isCycle (adjOf wfd) path
    | Some (Inr _) \<Rightarrow> True)"
proof -
  let ?U = "set (graphNodes wfd)" and ?roots = "sort (map fst (wf_States wfd))"
  have "dfs_ok (adjOf wfd) ?U [] (\<lambda>_. white, \<lambda>_. [])" by (simp add: dfs_ok_def)
  moreover have "set ?roots \<subseteq> ?U" by (auto simp: graphNodes_def)
  ultimately consider path where "loopSearch wfd = Some (Inl path)" "isCycle (adjOf wfd) path"
    | cp where "loopSearch wfd = Some (Inr cp)" "dfs_ok (adjOf wfd) ?U [] cp" "\<forall>r \<in> set ?roots. fst cp r = black"
    using dfsRoots_correct [OF graphNodes_closed] unfolding loopSearch_def by blast
  then show ?thesis
  proof cases
    case 1
    then show ?thesis using isCycle_not_acyclic by (simp add: validateWorkflowLoops_def)
  next
    case (2 cp)
    have "(s, s) \<notin> (edgesOf (adjOf wfd))\<^sup>+" for s
    proof (cases "stateDef_of wfd s")
      case None
      then show ?thesis by (auto simp: edgesOf_def adjOf_def dest: tranclD)
    next
      case (Some d)
      then have "s \<in> set ?roots" using stateDef_declared by simp
      then have "fst cp s = black" using 2(3) by blast
      then show ?thesis using 2(2) unfolding dfs_ok_def by blast
    qed
    then show ?thesis using 2(1) by (simp add: validateWorkflowLoops_def acyclic_def)
  qed
qed

subsection \<open>Exported workflows can be imported again\<close>

lemma json_Compact_last:
  "t \<noteq> [] \<Longrightarrow> \<not> isJsonSpace (last t) \<Longrightarrow> json_Compact q t \<noteq> [] \<and> last (json_Compact q t) = last t"
proof (induction q t rule: json_Compact.induct)
  case (2 c cs)
  show ?case
  proof (cases "cs = []")
    case True
    then show ?thesis using 2(5) by simp
  next
    case False
    then show ?thesis using 2 by simp
  qed
next
  case (3 c cs)
  show ?case
  proof (cases cs)
    case Nil
    then show ?thesis by simp
  next
    case (Cons d ds)
    then show ?thesis using 3 by (cases "ds = []") simp_all
  qed
qed simp

lemma json_Compact_idem [simp]: "json_Compact q (json_Compact q t) = json_Compact q t"
  by (induction q t rule: json_Compact.induct) (auto split: list.split)

lemma isJsonSpace_isSpace: "isJsonSpace c \<Longrightarrow> isSpace c" by (auto simp: isJsonSpace_def isSpace_def)

lemma TrimSpace_ends:
  assumes "TrimSpace s = t" "t \<noteq> []" shows "\<not> isSpace (hd t)" "\<not> isSpace (last t)"
proof -
  let ?u = "dropWhile isSpace s"
  have t: "rev t = dropWhile isSpace (rev ?u)" unfolding assms(1) [symmetric] by (simp add: TrimSpace_def)
  have "rev t \<noteq> []" using assms(2) by simp
  then have "\<not> isSpace (hd (rev t))" unfolding t by (rule hd_dropWhile)
  then show "\<not> isSpace (last t)" using assms(2) by (simp add: hd_rev)
  obtain pre where pre: "rev ?u = pre @ rev t" unfolding t by (metis takeWhile_dropWhile_id)
  then have "?u = t @ rev pre" by (metis rev_append rev_rev_ident)
  then have "hd ?u = hd t" "?u \<noteq> []" using assms(2) by simp_all
  then show "\<not> isSpace (hd t)" using hd_dropWhile by metis
qed

lemma TrimSpace_id: "t \<noteq> [] \<Longrightarrow> \<not> isSpace (hd t) \<Longrightarrow> \<not> isSpace (last t) \<Longrightarrow> TrimSpace t = t"
proof -
  assume t: "t \<noteq> []" "\<not> isSpace (hd t)" "\<not> isSpace (last t)"
  then have "dropWhile isSpace t = t" by (cases t) auto
  moreover have "dropWhile isSpace (rev t) = rev t" using t by (cases t rule: rev_cases) auto
  ultimately show ?thesis by (simp add: TrimSpace_def)
qed

lemma canonicalizeAnnotations_idem:
  assumes "canonicalizeAnnotations raw = Ok a" shows "canonicalizeAnnotations a = Ok a"
proof (cases "a = []")
  case True
  then show ?thesis by (simp add: canonicalizeAnnotations_def TrimSpace_def)
next
  case False
  let ?t = "TrimSpace raw"
  have t: "?t \<noteq> []" "hd ?t = CHR ''{''" "a = json_Compact False ?t" "int (length a) \<le> maxAnnotationsBytes"
    using assms False by (auto simp: canonicalizeAnnotations_def Let_def split: if_splits)
  have l: "\<not> isSpace (last ?t)" using TrimSpace_ends(2) [OF refl t(1)] .
  then have last: "last a = last ?t" using json_Compact_last [OF t(1)] isJsonSpace_isSpace t(3) by blast
  have h: "hd a = CHR ''{''" using t by (cases ?t) (auto simp: isJsonSpace_def)
  have "TrimSpace a = a" using False h l last by (intro TrimSpace_id) (auto simp: isSpace_def)
  moreover have "a \<noteq> ''null''" using h by auto
  ultimately show ?thesis using False h t(3,4) by (simp add: canonicalizeAnnotations_def)
qed

lemma stamp_fields [simp]:
  "wf_Version (stamp w) = CurrentSchemaVersion" "wf_Name (stamp w) = wf_Name w" "wf_States (stamp w) = wf_States w"
  "wf_Annotations (stamp w) = wf_Annotations w" "wf_CriterionAnnotations (stamp w) = wf_CriterionAnnotations w"
  "stamp (stamp w) = stamp w" "bareWorkflow (stamp w) = bareWorkflow w" "incomingDef (exportedDef w) = w"
  by (simp_all add: stamp_def bareWorkflow_def incomingDef_def exportedDef_def)

lemma norm_bare:
  "normProcessor p = Ok p' \<Longrightarrow> bareProcessor p' = bareProcessor p \<and> normProcessor p' = Ok p'"
  "normTransition t = Ok t' \<Longrightarrow> bareTransition t' = bareTransition t \<and> normTransition t' = Ok t'"
  "normState st = Ok st' \<Longrightarrow> bareState st' = bareState st \<and> normState st' = Ok st'"
  "normWorkflow w = Ok w' \<Longrightarrow> bareWorkflow w' = bareWorkflow w \<and> normWorkflow w' = Ok w'"
proof -
  show p: "normProcessor p = Ok p' \<Longrightarrow> bareProcessor p' = bareProcessor p \<and> normProcessor p' = Ok p'" for p p'
    by (auto simp: normProcessor_def bareProcessor_def canonicalizeAnnotations_idem split: sum.splits)
  have ps: "map bareProcessor ps' = map bareProcessor ps \<and> mapResult normProcessor ps' = Ok ps'"
    if "mapResult normProcessor ps = Ok ps'" for ps ps'
    using that p by (simp add: mapResult_Ok) (induction rule: list_all2_induct; auto)
  show t: "normTransition t = Ok t' \<Longrightarrow> bareTransition t' = bareTransition t \<and> normTransition t' = Ok t'" for t t'
    using ps by (auto simp: normTransition_def bareTransition_def canonicalizeAnnotations_idem split: sum.splits)
  have ts: "map bareTransition ts' = map bareTransition ts \<and> mapResult normTransition ts' = Ok ts'"
    if "mapResult normTransition ts = Ok ts'" for ts ts'
    using that t by (simp add: mapResult_Ok) (induction rule: list_all2_induct; auto)
  show s: "normState st = Ok st' \<Longrightarrow> bareState st' = bareState st \<and> normState st' = Ok st'" for st st'
    using ts by (auto simp: normState_def bareState_def canonicalizeAnnotations_idem split: sum.splits)
  have ss: "map bareState ss' = map bareState ss \<and> mapResult normState ss' = Ok ss'"
    if "mapResult normState ss = Ok ss'" for ss ss'
    using that s by (simp add: mapResult_Ok) (induction rule: list_all2_induct; auto)
  show "normWorkflow w = Ok w' \<Longrightarrow> bareWorkflow w' = bareWorkflow w \<and> normWorkflow w' = Ok w'"
    using ss by (auto simp: normWorkflow_def bareWorkflow_def canonicalizeAnnotations_idem split: sum.splits)
qed

lemma norm_bare_list:
  assumes "list_all2 (\<lambda>a b. normWorkflow a = Ok b) xs ys"
  shows "map bareWorkflow ys = map bareWorkflow xs" "\<forall>y \<in> set ys. normWorkflow y = Ok y"
  using assms by (induction rule: list_all2_induct) (simp_all add: norm_bare(4))

lemma bare_checks:
  "validateProcessor (bareProcessor p) = validateProcessor p"
  "validateState cc (bareWorkflow w) (bareState st) = validateState cc w st"
  "validateWorkflowStructure cc (bareWorkflow w) = validateWorkflowStructure cc w"
proof -
  show p: "validateProcessor (bareProcessor p) = validateProcessor p" for p
    by (simp add: validateProcessor_def bareProcessor_def)
  have "map_of (map bareState ss) n = None \<longleftrightarrow> map_of ss n = None" for ss n
    by (induction ss) (auto simp: bareState_def)
  then have d: "stateDef_of (bareWorkflow w) n = None \<longleftrightarrow> stateDef_of w n = None" for n
    by (simp add: stateDef_of_def bareWorkflow_def)
  have t: "validateTransitions cc (bareWorkflow w) names (map bareTransition ts) = validateTransitions cc w names ts" for names ts
  proof (induction ts arbitrary: names)
    case (Cons tr ts)
    have f: "tr_Name (bareTransition tr) = tr_Name tr" "tr_Next (bareTransition tr) = tr_Next tr"
      "tr_Criterion (bareTransition tr) = tr_Criterion tr" "tr_Manual (bareTransition tr) = tr_Manual tr"
      "tr_Schedule (bareTransition tr) = tr_Schedule tr"
      "map validateProcessor (tr_Processors (bareTransition tr)) = map validateProcessor (tr_Processors tr)"
      using p by (simp_all add: bareTransition_def comp_def)
    show ?case unfolding list.map validateTransitions.simps f d Cons.IH ..
  qed simp
  show s: "validateState cc (bareWorkflow w) (bareState st) = validateState cc w st" for st
    by (simp add: validateState_def bareState_def t)
  have f: "wf_Name (bareWorkflow w) = wf_Name w" "wf_InitialState (bareWorkflow w) = wf_InitialState w"
    "wf_Criterion (bareWorkflow w) = wf_Criterion w"
    "map (validateState cc (bareWorkflow w)) (wf_States (bareWorkflow w)) = map (validateState cc w) (wf_States w)"
    using s by (simp_all add: bareWorkflow_def comp_def)
  show "validateWorkflowStructure cc (bareWorkflow w) = validateWorkflowStructure cc w"
    unfolding validateWorkflowStructure_def f d ..
qed

lemma stamp_checks:
  "validateProcessorFlags (stamp w) = validateProcessorFlags w" "validateWorkflowLoops (stamp w) = validateWorkflowLoops w"
  "normWorkflow w = Ok w \<Longrightarrow> normWorkflow (stamp w) = Ok (stamp w)"
  "validateWorkflows (map stamp ws) b = validateWorkflows ws b"
proof -
  show f: "validateProcessorFlags (stamp w) = validateProcessorFlags w" for w by (simp add: validateProcessorFlags_def)
  have "adjOf (stamp w) = adjOf w" for w by (simp add: fun_eq_iff adjOf_def stateDef_of_def)
  then show l: "validateWorkflowLoops (stamp w) = validateWorkflowLoops w" for w
    by (simp add: validateWorkflowLoops_def loopSearch_def graphNodes_def)
  show "normWorkflow w = Ok w \<Longrightarrow> normWorkflow (stamp w) = Ok (stamp w)"
    by (cases w) (auto simp: normWorkflow_def stamp_def split: sum.splits)
  show "validateWorkflows (map stamp ws) b = validateWorkflows ws b"
    by (simp add: validateWorkflows_def comp_def f l cong: if_cong)
qed

lemma duplicateNames_names:
  "map wf_Name ws = map wf_Name ws' \<Longrightarrow> duplicateNames seen ws = duplicateNames seen ws'"
proof (induction ws arbitrary: ws' seen)
  case (Cons w ws)
  then show ?case by (cases ws') auto
qed simp

lemma alignDefaults_names:
  "map wid_Name (alignDefaults (\<lambda>w p. w\<lparr>wid_States := map (defaultState p) (wid_States w)\<rparr>) ws probe) = map wid_Name ws"
proof (induction ws arbitrary: probe)
  case (Cons w ws)
  then show ?case by (cases probe) auto
qed simp

lemma explicit_defaults:
  assumes "explicitProbe probes" shows "applyAttachEntityDefaults ws probes = ws"
proof -
  have align: "(\<And>x p. p \<in> set ps \<Longrightarrow> g x p = x) \<Longrightarrow> alignDefaults g xs ps = xs" for g :: "'a \<Rightarrow> 'b \<Rightarrow> 'a" and xs ps
    by (induction g xs ps rule: alignDefaults.induct) auto
  have alignP: "None \<notin> set ps \<Longrightarrow> alignDefaults defaultProcessor xs ps = xs" for xs ps
    by (induction defaultProcessor xs ps rule: alignDefaults.induct) (auto simp: defaultProcessor_def)
  have tr: "defaultTransition t p = t" if "fst p \<noteq> Some (Some None)" "None \<notin> set (snd p)" for t p
    using that by (simp add: defaultTransition_def Let_def alignP split: option.split)
  have alignT: "(\<forall>p \<in> set ps. fst p \<noteq> Some (Some None) \<and> None \<notin> set (snd p)) \<Longrightarrow> alignDefaults defaultTransition xs ps = xs" for xs ps
    by (induction defaultTransition xs ps rule: alignDefaults.induct) (auto simp: tr)
  have st: "map (defaultState p) ss = ss" if "p \<in> set probes" for p ss
  proof -
    have "defaultState p s = s" for s
    proof (cases "map_of p (fst s)")
      case (Some trs)
      then have "\<forall>q \<in> set trs. fst q \<noteq> Some (Some None) \<and> None \<notin> set (snd q)"
        using that assms map_of_SomeD [OF Some] unfolding explicitProbe_def by fastforce
      then show ?thesis using Some alignT by (simp add: defaultState_def)
    qed (simp add: defaultState_def)
    then show ?thesis by (simp add: map_idI)
  qed
  show ?thesis unfolding applyAttachEntityDefaults_def by (rule align) (use st in simp)
qed



end
