(* ===== verification/WfEngine.thy ===== *)
theory WfEngine
  imports WfValidate MemScheduledTasks "HOL-Library.State_Monad"
begin

text \<open>
  The workflow engine of \<^verbatim>\<open>internal/domain/workflow\<close> (\<^verbatim>\<open>engine.go\<close>, \<^verbatim>\<open>engine_processors.go\<close>,
  \<^verbatim>\<open>processor_output.go\<close>, \<^verbatim>\<open>ifmatch.go\<close>, \<^verbatim>\<open>transition_aborted.go\<close>, \<^verbatim>\<open>arm.go\<close>, \<^verbatim>\<open>schedule_function.go\<close>,
  \<^verbatim>\<open>transitions.go\<close>), running on the memory plugin's stores and transaction manager.

  An engine call is a program of the state monad over \<open>EngState\<close>: the stores, the entity object that the
  cascade mutates, the If-Match slot of the context, the descriptor memo of the current processor
  pipeline, and a counter from which UUIDs and clock readings are drawn. \<open>Engine\<close> holds the fields of the
  source's struct and the code that is not modelled here:

  \<^item> the compute nodes (\<open>ExtProc\<close>): a callout may change the stores in any way and answers with data, a
    verdict or a schedule;
  \<^item> \<open>e_Parse\<close> and \<open>e_Evaluate\<close>: the SPI's condition parser and the typed evaluation of an inline condition by
    \<^verbatim>\<open>internal/domain/search\<close> and \<^verbatim>\<open>internal/match\<close>;
  \<^item> \<open>e_Storable\<close> and \<open>e_Admit\<close>: the checks of \<^verbatim>\<open>internal/domain/model/ingest\<close> on processor output;
  \<^item> \<open>e_Hash\<close> and \<open>e_DecodeSchedule\<close>: the hexadecimal digest of a task id and the strict JSON decoding of a
    schedule.

  The engine is always wired to a transaction manager, so its nil checks on that field are not
  modelled; neither are panics, tracing, logging and the per-transaction gate. The detail text of an
  audit event is reduced to the name it is about.
\<close>

datatype eerror =
    EStore gerror
  | EInternal
  | EBadRequest string
  | ETransitionNotFound
  | ECriterionNotMatched string
  | ECriterion
  | EDispatch string
  | EProcessor string eerror
  | EProcessorOutputRejected
  | EProcessorOutputInfra
  | ECommitBeforeDispatchInfra gerror
  | EPostSegmentConflict gerror
  | EScheduledTaskInfra gerror
  | EScheduleFunctionInvalidResult
  | EAborted
  | EContext

type_synonym 'a eresult = "eerror + 'a"

record Stores =
  db_Factory :: StoreFactory
  db_Audit :: smAudit
  db_Workflows :: "WorkflowDefinition wfData"
  db_Models :: modelData

record EngState =
  es_Stores :: Stores
  es_Entity :: Entity
  es_IfMatch :: string
  es_Memo :: "ModelDescriptor eresult option"
  es_Tick :: nat

type_synonym 'a eng = "(EngState, 'a) state"

record FunctionResult =
  fr_Kind :: string
  fr_Value :: bytes

record ScheduleSpec =
  ss_FireAt :: "int option"
  ss_FireAfterMs :: "int option"
  ss_ExpireAt :: "int option"
  ss_ExpireAfterMs :: "int option"

record ExtProc =
  xp_Processor ::
    "Ctx \<Rightarrow> Entity \<Rightarrow> ProcessorDefinition \<Rightarrow> string \<Rightarrow> string \<Rightarrow> txid \<Rightarrow> Stores \<Rightarrow> bytes option eresult \<times> Stores"
  xp_Criteria ::
    "Ctx \<Rightarrow> Entity \<Rightarrow> bytes \<Rightarrow> string \<Rightarrow> string \<Rightarrow> string \<Rightarrow> txid \<Rightarrow> Stores \<Rightarrow> (bool \<times> string) eresult \<times> Stores"
  xp_Function ::
    "Ctx \<Rightarrow> Entity \<Rightarrow> ScheduleFunction \<Rightarrow> string \<Rightarrow> string \<Rightarrow> txid \<Rightarrow> Stores \<Rightarrow> FunctionResult eresult \<times> Stores"

record Engine =
  e_ExtProc :: "ExtProc option"
  e_MaxStateVisits :: int
  e_DefaultWorkflows :: "WorkflowDefinition list"
  e_ExpiryGraceMs :: int
  e_NewUUID :: "nat \<Rightarrow> string"
  e_Clock :: "nat \<Rightarrow> time"
  e_Claims :: compute_claims
  e_JsonCopy :: "WorkflowDefinition list \<Rightarrow> WorkflowDefinition list result"
  e_Parse :: "bytes \<Rightarrow> Condition option"
  e_Evaluate :: "Condition \<Rightarrow> Entity \<Rightarrow> Stores \<Rightarrow> bool eresult"
  e_Storable :: "bytes \<Rightarrow> bool"
  e_Admit :: "ModelDescriptor \<Rightarrow> bytes \<Rightarrow> modelData \<Rightarrow> unit eresult \<times> modelData"
  e_Hash :: "string \<Rightarrow> string"
  e_DecodeSchedule :: "bytes \<Rightarrow> ScheduleSpec option"

subsection \<open>Construction\<close>

definition defaultMaxStateVisits :: int where
  "defaultMaxStateVisits = 10"

definition defaultExpiryGraceMs :: int where
  "defaultExpiryGraceMs = 100"

definition plainTransition :: "string \<Rightarrow> string \<Rightarrow> bool \<Rightarrow> TransitionDefinition" where
  "plainTransition name target manual =
     \<lparr>tr_Name = name, tr_Next = target, tr_Manual = manual, tr_Disabled = False, tr_Schedule = None, tr_Criterion = [],
      tr_Processors = [], tr_Annotations = [], tr_CriterionAnnotations = []\<rparr>"

definition plainState :: "TransitionDefinition list \<Rightarrow> StateDefinition" where
  "plainState trs = \<lparr>sd_Transitions = trs, sd_Annotations = []\<rparr>"

definition defaultWorkflow :: WorkflowDefinition where
  "defaultWorkflow =
     \<lparr>wf_Version = ''1.4'', wf_Name = ''default'', wf_Description = ''Default entity lifecycle workflow'',
      wf_InitialState = ''NONE'', wf_Active = True, wf_Criterion = [],
      wf_States =
        [(''NONE'', plainState [plainTransition ''NEW'' ''CREATED'' False]),
         (''CREATED'', plainState [plainTransition ''UPDATE'' ''CREATED'' True, plainTransition ''DELETE'' ''DELETED'' True]),
         (''DELETED'', plainState [])],
      wf_Annotations = [], wf_CriterionAnnotations = []\<rparr>"

definition WithMaxStateVisits :: "int \<Rightarrow> Engine \<Rightarrow> Engine" where
  "WithMaxStateVisits n e = (if 0 < n then e\<lparr>e_MaxStateVisits := n\<rparr> else e)"

definition WithExternalProcessing :: "ExtProc option \<Rightarrow> Engine \<Rightarrow> Engine" where
  "WithExternalProcessing xp e = e\<lparr>e_ExtProc := xp\<rparr>"

definition NewEngine :: "(Engine \<Rightarrow> Engine) list \<Rightarrow> Engine \<Rightarrow> Engine" where
  "NewEngine opts base =
     (fold (\<lambda>opt. opt) opts
        (base\<lparr>e_ExtProc := None, e_MaxStateVisits := defaultMaxStateVisits, e_ExpiryGraceMs := defaultExpiryGraceMs\<rparr>))
     \<lparr>e_DefaultWorkflows := [defaultWorkflow]\<rparr>"

subsection \<open>State access\<close>

abbreviation ret :: "'a \<Rightarrow> 'a eng" where
  "ret \<equiv> State_Monad.return"

definition reads :: "(EngState \<Rightarrow> 'a) \<Rightarrow> 'a eng" where
  "reads f = State (\<lambda>s. (f s, s))"

definition modifies :: "(EngState \<Rightarrow> EngState) \<Rightarrow> unit eng" where
  "modifies f = State (\<lambda>s. ((), f s))"

definition onStores :: "(Stores \<Rightarrow> 'a \<times> Stores) \<Rightarrow> 'a eng" where
  "onStores f = State (\<lambda>s. case f (es_Stores s) of (r, db) \<Rightarrow> (r, s\<lparr>es_Stores := db\<rparr>))"

definition onFactory :: "(StoreFactory \<Rightarrow> 'a \<times> StoreFactory) \<Rightarrow> 'a eng" where
  "onFactory f = onStores (\<lambda>db. case f (db_Factory db) of (r, sf) \<Rightarrow> (r, db\<lparr>db_Factory := sf\<rparr>))"

definition drawTick :: "nat eng" where
  "drawTick = State (\<lambda>s. (es_Tick s, s\<lparr>es_Tick := Suc (es_Tick s)\<rparr>))"

definition newUUID :: "Engine \<Rightarrow> string eng" where
  "newUUID e = do { n \<leftarrow> drawTick; ret (e_NewUUID e n) }"

definition now :: "Engine \<Rightarrow> time eng" where
  "now e = do { n \<leftarrow> drawTick; ret (e_Clock e n) }"

definition unixMilli :: "time \<Rightarrow> int" where
  "unixMilli t = (t - 62135596800 * 1000000000) div 1000000"

definition setState :: "string \<Rightarrow> unit eng" where
  "setState st = modifies (\<lambda>s. s\<lparr>es_Entity := (es_Entity s)\<lparr>Meta := (Meta (es_Entity s))\<lparr>m_State := st\<rparr>\<rparr>\<rparr>)"

definition withoutCancel :: "Ctx \<Rightarrow> Ctx" where
  "withoutCancel ctx = ctx\<lparr>c_Err := \<lambda>_ _. False\<rparr>"

definition recordEvent :: "tenant option \<Rightarrow> txid \<Rightarrow> string \<Rightarrow> string \<Rightarrow> string \<Rightarrow> unit eng" where
  "recordEvent audit txID st eventType details =
     modifies (\<lambda>s. case audit of
       None \<Rightarrow> s
     | Some tid \<Rightarrow>
         let eid = entity_id (es_Entity s);
             event = \<lparr>ev_EventType = eventType, ev_EntityID = eid, ev_State = st, ev_TransactionID = txID, ev_Details = details\<rparr>
         in s\<lparr>es_Stores := (es_Stores s)\<lparr>db_Audit := StateMachineAuditStore_Record tid eid event (db_Audit (es_Stores s))\<rparr>\<rparr>)"

definition recordHere :: "tenant option \<Rightarrow> txid \<Rightarrow> string \<Rightarrow> string \<Rightarrow> unit eng" where
  "recordHere audit txID eventType details =
     do { ent \<leftarrow> reads es_Entity; recordEvent audit txID (m_State (Meta ent)) eventType details }"

definition rollbackSegment :: "Ctx \<Rightarrow> txid \<Rightarrow> txid \<Rightarrow> unit eng" where
  "rollbackSegment ctx openTxID entryTxID =
     (if openTxID = [] \<or> openTxID = entryTxID then ret ()
      else do { _ \<leftarrow> onFactory (Rollback (withoutCancel ctx) openTxID); ret () })"

definition resolveAuditTxID :: "Engine \<Rightarrow> txid eng" where
  "resolveAuditTxID e =
     do { ent \<leftarrow> reads es_Entity;
          if m_TransactionID (Meta ent) \<noteq> [] then ret (m_TransactionID (Meta ent)) else newUUID e }"

subsection \<open>Criteria\<close>

definition maxCriterionReasonLen :: nat where
  "maxCriterionReasonLen = 2048"

definition runeStart :: "char \<Rightarrow> bool" where
  "runeStart c \<longleftrightarrow> (of_char c :: nat) div 64 \<noteq> 2"

fun cutAt :: "string \<Rightarrow> nat \<Rightarrow> nat" where
  "cutAt s 0 = 0"
| "cutAt s (Suc n) = (if runeStart (s ! Suc n) then Suc n else cutAt s n)"

definition capReason :: "string \<Rightarrow> string" where
  "capReason s = (if length s \<le> maxCriterionReasonLen then s else take (cutAt s maxCriterionReasonLen) s)"

definition evaluateCriterion ::
  "Engine \<Rightarrow> bytes \<Rightarrow> Ctx \<Rightarrow> txid \<Rightarrow> string \<Rightarrow> string \<Rightarrow> string \<Rightarrow> (bool \<times> string) eresult eng" where
  "evaluateCriterion e criterion ctx txID target workflow transition =
     (case e_Parse e criterion of
        None \<Rightarrow> ret (Inl ECriterion)
      | Some (FunctionCondition _) \<Rightarrow>
          (case e_ExtProc e of
             None \<Rightarrow> ret (Inl ECriterion)
           | Some xp \<Rightarrow>
               do { ent \<leftarrow> reads es_Entity;
                    r \<leftarrow> onStores (xp_Criteria xp ctx ent criterion target workflow transition txID);
                    ret (case r of Inl err \<Rightarrow> Inl err | Inr (matches, reason) \<Rightarrow> Inr (matches, capReason reason)) })
      | Some cond \<Rightarrow>
          do { s \<leftarrow> reads id;
               ret (case e_Evaluate e cond (es_Entity s) (es_Stores s) of
                      Inl err \<Rightarrow> Inl err | Inr b \<Rightarrow> Inr (b, [])) })"

subsection \<open>Workflow selection\<close>

fun selectLoop ::
  "Engine \<Rightarrow> Ctx \<Rightarrow> WorkflowDefinition list \<Rightarrow> tenant option \<Rightarrow> txid \<Rightarrow> WorkflowDefinition option eresult eng" where
  "selectLoop e ctx [] audit txID = ret (Inr None)"
| "selectLoop e ctx (wfd # wfds) audit txID =
     (if \<not> wf_Active wfd then selectLoop e ctx wfds audit txID
      else if \<not> hasCriterion (wf_Criterion wfd)
      then do { recordHere audit txID ''WORKFLOW_FOUND'' (wf_Name wfd); ret (Inr (Some wfd)) }
      else do {
        r \<leftarrow> evaluateCriterion e (wf_Criterion wfd) ctx txID ''WORKFLOW'' (wf_Name wfd) [];
        case r of
          Inl err \<Rightarrow> ret (Inl err)
        | Inr (matched, _) \<Rightarrow>
            if matched
            then do { recordHere audit txID ''WORKFLOW_FOUND'' (wf_Name wfd); ret (Inr (Some wfd)) }
            else do { recordHere audit txID ''WORKFLOW_SKIP'' (wf_Name wfd); selectLoop e ctx wfds audit txID } })"

definition selectWorkflow ::
  "Engine \<Rightarrow> Ctx \<Rightarrow> WorkflowDefinition list \<Rightarrow> tenant option \<Rightarrow> txid \<Rightarrow> WorkflowDefinition eresult eng" where
  "selectWorkflow e ctx workflows audit txID =
     do { r \<leftarrow> selectLoop e ctx workflows audit txID;
          case r of
            Inl err \<Rightarrow> ret (Inl err)
          | Inr (Some wfd) \<Rightarrow> ret (Inr wfd)
          | Inr None \<Rightarrow>
              (case e_DefaultWorkflows e of
                 d # _ \<Rightarrow> do { recordHere audit txID ''WORKFLOW_FOUND'' (wf_Name d); ret (Inr d) }
               | [] \<Rightarrow> do { recordHere audit txID ''WORKFLOW_NOT_FOUND'' []; ret (Inl (EBadRequest ''no matching workflow'')) }) }"

definition resolveWorkflowWith ::
  "Engine \<Rightarrow> Ctx \<Rightarrow> tenant option \<Rightarrow> txid \<Rightarrow> WorkflowDefinition eresult eng" where
  "resolveWorkflowWith e ctx audit txID =
     (case resolveTenant ctx of
        Inl _ \<Rightarrow> ret (Inl EInternal)
      | Inr tid \<Rightarrow>
          do { s \<leftarrow> reads id;
               case WorkflowStore_Get (e_JsonCopy e) tid (model_of (es_Entity s)) (db_Workflows (es_Stores s)) of
                 Inl err \<Rightarrow>
                   if err = ErrNotFound then selectWorkflow e ctx (e_DefaultWorkflows e) audit txID
                   else ret (Inl EInternal)
               | Inr workflows \<Rightarrow>
                   selectWorkflow e ctx (if workflows = [] then e_DefaultWorkflows e else workflows) audit txID })"

definition resolveWorkflow :: "Engine \<Rightarrow> Ctx \<Rightarrow> tenant option \<Rightarrow> txid \<Rightarrow> WorkflowDefinition eresult eng" where
  "resolveWorkflow e ctx audit txID = resolveWorkflowWith e ctx audit txID"

definition resolveWorkflowForQuery :: "Engine \<Rightarrow> Ctx \<Rightarrow> WorkflowDefinition eresult eng" where
  "resolveWorkflowForQuery e ctx = resolveWorkflowWith e ctx None []"

subsection \<open>Processor output and the If-Match slot\<close>

definition descriptor :: "tenant \<Rightarrow> ModelDescriptor eresult eng" where
  "descriptor tid =
     do { s \<leftarrow> reads id;
          case es_Memo s of
            Some r \<Rightarrow> ret r
          | None \<Rightarrow>
              let r = (case ModelStore_Get tid (model_of (es_Entity s)) (db_Models (es_Stores s)) of
                         Inl _ \<Rightarrow> Inl EProcessorOutputInfra | Inr d \<Rightarrow> Inr d)
              in do { modifies (\<lambda>s. s\<lparr>es_Memo := Some r\<rparr>); ret r } }"

definition applyProcessorData :: "Engine \<Rightarrow> Ctx \<Rightarrow> bytes \<Rightarrow> unit eresult eng" where
  "applyProcessorData e ctx data =
     (if \<not> e_Storable e data then ret (Inl EProcessorOutputRejected)
      else case resolveTenant ctx of
        Inl _ \<Rightarrow> ret (Inl EProcessorOutputInfra)
      | Inr tid \<Rightarrow>
          do { r \<leftarrow> descriptor tid;
               case r of
                 Inl err \<Rightarrow> ret (Inl err)
               | Inr desc \<Rightarrow>
                   do { a \<leftarrow> onStores (\<lambda>db. case e_Admit e desc data (db_Models db) of (r, m) \<Rightarrow> (r, db\<lparr>db_Models := m\<rparr>));
                        case a of
                          Inl err \<Rightarrow> ret (Inl err)
                        | Inr _ \<Rightarrow>
                            do { modifies (\<lambda>s. s\<lparr>es_Entity := (es_Entity s)\<lparr>Data := data\<rparr>\<rparr>); ret (Inr ()) } } })"

definition consumeIfMatch :: "string eng" where
  "consumeIfMatch = State (\<lambda>s. (es_IfMatch s, s\<lparr>es_IfMatch := []\<rparr>))"

definition withIfMatch :: "string \<Rightarrow> unit eng" where
  "withIfMatch expected = (if expected = [] then ret () else modifies (\<lambda>s. s\<lparr>es_IfMatch := expected\<rparr>))"

definition LookupActualTxID :: "Ctx \<Rightarrow> entityid \<Rightarrow> txid eng" where
  "LookupActualTxID ctx eid =
     (let readCtx = (withoutCancel ctx)\<lparr>c_Tx := None\<rparr>
      in case resolveTenant readCtx of
           Inl _ \<Rightarrow> ret []
         | Inr tid \<Rightarrow>
             do { r \<leftarrow> onFactory (EntityStore_Get readCtx tid eid);
                  ret (case r of Inl _ \<Rightarrow> [] | Inr row \<Rightarrow> m_TransactionID (Meta row)) })"

definition recordAbortForIfMatchConflict :: "Ctx \<Rightarrow> tenant option \<Rightarrow> txid \<Rightarrow> string \<Rightarrow> unit eng" where
  "recordAbortForIfMatchConflict ctx audit entryTxID transition =
     do { ent \<leftarrow> reads es_Entity;
          actual \<leftarrow> LookupActualTxID ctx (entity_id ent);
          recordHere audit entryTxID ''TRANSITION_ABORTED'' transition }"

subsection \<open>Processors\<close>

definition clientAttributableStoreErr :: "gerror \<Rightarrow> bool" where
  "clientAttributableStoreErr err \<longleftrightarrow> err \<in> {ErrConflict, ErrUniqueViolation, ErrPartialUniqueKey}"

definition saveEntity :: "Engine \<Rightarrow> Ctx \<Rightarrow> tenant \<Rightarrow> unit result eng" where
  "saveEntity e ctx tid =
     do { t \<leftarrow> now e; ent \<leftarrow> reads es_Entity;
          r \<leftarrow> onFactory (EntityStore_Save (e_Claims e) t ctx tid ent);
          ret (case r of Inl err \<Rightarrow> Inl err | Inr _ \<Rightarrow> Inr ()) }"

definition compareAndSaveEntity :: "Engine \<Rightarrow> Ctx \<Rightarrow> tenant \<Rightarrow> txid \<Rightarrow> unit result eng" where
  "compareAndSaveEntity e ctx tid expected =
     do { t \<leftarrow> now e; ent \<leftarrow> reads es_Entity;
          r \<leftarrow> onFactory (EntityStore_CompareAndSave (e_Claims e) t ctx tid ent expected);
          ret (case r of Inl err \<Rightarrow> Inl err | Inr _ \<Rightarrow> Inr ()) }"

definition commitTx :: "Engine \<Rightarrow> Ctx \<Rightarrow> txid \<Rightarrow> unit result eng" where
  "commitTx e ctx txID =
     do { t1 \<leftarrow> now e; t2 \<leftarrow> now e; onFactory (Commit (e_Claims e) t1 t2 ctx txID) }"

definition beginTx :: "Engine \<Rightarrow> Ctx \<Rightarrow> (txid \<times> Ctx) result eng" where
  "beginTx e ctx = do { i \<leftarrow> newUUID e; t \<leftarrow> now e; onFactory (Begin i t ctx) }"

definition flushAndCommitSegment :: "Engine \<Rightarrow> Ctx \<Rightarrow> txid \<Rightarrow> txid \<Rightarrow> unit eresult eng" where
  "flushAndCommitSegment e ctx txID expected =
     (case resolveTenant ctx of
        Inl err \<Rightarrow> ret (Inl (ECommitBeforeDispatchInfra err))
      | Inr tid \<Rightarrow>
          do { r \<leftarrow> (if expected \<noteq> [] then compareAndSaveEntity e ctx tid expected else saveEntity e ctx tid);
               case r of
                 Inl err \<Rightarrow>
                   ret (Inl (if expected \<noteq> [] \<and> clientAttributableStoreErr err then EStore err
                             else ECommitBeforeDispatchInfra err))
               | Inr _ \<Rightarrow>
                   if c_Err ctx 11 0 then ret (Inl EContext)
                   else do { c \<leftarrow> commitTx e (withoutCancel ctx) txID;
                             ret (case c of Inl err \<Rightarrow> Inl (ECommitBeforeDispatchInfra err) | Inr _ \<Rightarrow> Inr ()) } })"

definition beginNext :: "Engine \<Rightarrow> Ctx \<Rightarrow> (txid \<times> Ctx) eresult eng" where
  "beginNext e ctx =
     do { r \<leftarrow> beginTx e (withoutCancel ctx);
          ret (case r of Inl err \<Rightarrow> Inl (ECommitBeforeDispatchInfra err) | Inr p \<Rightarrow> Inr p) }"

definition commitAndBeginNextSegment :: "Engine \<Rightarrow> Ctx \<Rightarrow> txid \<Rightarrow> txid \<Rightarrow> (txid \<times> Ctx) eresult eng" where
  "commitAndBeginNextSegment e ctx txID expected =
     do { r \<leftarrow> flushAndCommitSegment e ctx txID expected;
          case r of Inl err \<Rightarrow> ret (Inl err) | Inr _ \<Rightarrow> beginNext e ctx }"

definition dispatchProcessor ::
  "Engine \<Rightarrow> Ctx \<Rightarrow> ProcessorDefinition \<Rightarrow> string \<Rightarrow> string \<Rightarrow> txid \<Rightarrow> bytes option eresult eng" where
  "dispatchProcessor e ctx proc workflow transition txID =
     (case e_ExtProc e of
        None \<Rightarrow> ret (Inr None)
      | Some xp \<Rightarrow>
          do { ent \<leftarrow> reads es_Entity; onStores (xp_Processor xp ctx ent proc workflow transition txID) })"

text \<open>The part of \<^verbatim>\<open>executeCommitBeforeDispatch\<close> after the new segment is open: apply the result and write it.\<close>

definition applyAfterDispatch :: "Engine \<Rightarrow> Ctx \<Rightarrow> bytes option \<Rightarrow> txid \<Rightarrow> unit eresult eng" where
  "applyAfterDispatch e newCtx pending tPre =
     do { a \<leftarrow> (case pending of None \<Rightarrow> ret (Inr ()) | Some data \<Rightarrow> applyProcessorData e newCtx data);
          case a of
            Inl err \<Rightarrow> ret (Inl err)
          | Inr _ \<Rightarrow>
              (case resolveTenant newCtx of
                 Inl err \<Rightarrow> ret (Inl (ECommitBeforeDispatchInfra err))
               | Inr tid \<Rightarrow>
                   do { r \<leftarrow> compareAndSaveEntity e newCtx tid tPre;
                        ret (case r of
                               Inl err \<Rightarrow>
                                 Inl (if clientAttributableStoreErr err then EPostSegmentConflict err
                                      else ECommitBeforeDispatchInfra err)
                             | Inr _ \<Rightarrow> Inr ()) }) }"

text \<open>The deferred release: a segment that is not handed back is rolled back.\<close>

definition orRollback :: "Ctx \<Rightarrow> txid \<Rightarrow> txid \<Rightarrow> 'a eresult \<Rightarrow> 'a eresult eng" where
  "orRollback segCtx segTxID entryTxID r =
     (case r of
        Inl err \<Rightarrow> do { rollbackSegment segCtx segTxID entryTxID; ret (Inl err) }
      | Inr x \<Rightarrow> ret (Inr x))"

definition isConflict :: "eerror \<Rightarrow> bool" where
  "isConflict err \<longleftrightarrow> err \<in> {EStore ErrConflict, ECommitBeforeDispatchInfra ErrConflict}"

definition flushFailed :: "Ctx \<Rightarrow> tenant option \<Rightarrow> txid \<Rightarrow> string \<Rightarrow> txid \<Rightarrow> eerror \<Rightarrow> 'a eresult eng" where
  "flushFailed ctx audit entryTxID transition expected err =
     do { (if expected \<noteq> [] \<and> isConflict err
           then recordAbortForIfMatchConflict ctx audit entryTxID transition else ret ());
          ret (Inl err) }"

definition finishSegment :: "Engine \<Rightarrow> Ctx \<Rightarrow> txid \<Rightarrow> bytes option \<Rightarrow> txid \<Rightarrow> (Ctx \<times> txid) eresult eng" where
  "finishSegment e newCtx newTxID pending txID =
     do { a \<leftarrow> applyAfterDispatch e newCtx pending txID;
          orRollback newCtx newTxID txID (case a of Inl err \<Rightarrow> Inl err | Inr _ \<Rightarrow> Inr (newCtx, newTxID)) }"

definition executeCommitBeforeDispatch ::
  "Engine \<Rightarrow> Ctx \<Rightarrow> ProcessorDefinition \<Rightarrow> string \<Rightarrow> string \<Rightarrow> txid \<Rightarrow> tenant option \<Rightarrow> txid \<Rightarrow> (Ctx \<times> txid) eresult eng" where
  "executeCommitBeforeDispatch e ctx proc workflow transition txID audit entryTxID =
     do { expected \<leftarrow> consumeIfMatch;
          if cfg_StartNewTxOnDispatch (pr_Config proc) = Some True then
            do { b \<leftarrow> commitAndBeginNextSegment e ctx txID expected;
                 case b of
                   Inl err \<Rightarrow> flushFailed ctx audit entryTxID transition expected err
                 | Inr (newTxID, newCtx) \<Rightarrow>
                     do { d \<leftarrow> dispatchProcessor e newCtx proc workflow transition newTxID;
                          case d of
                            Inl err \<Rightarrow> orRollback newCtx newTxID txID (Inl err)
                          | Inr pending \<Rightarrow> finishSegment e newCtx newTxID pending txID } }
          else
            do { c \<leftarrow> flushAndCommitSegment e ctx txID expected;
                 case c of
                   Inl err \<Rightarrow> flushFailed ctx audit entryTxID transition expected err
                 | Inr _ \<Rightarrow>
                     do { d \<leftarrow> dispatchProcessor e ((withoutCancel ctx)\<lparr>c_Tx := None\<rparr>) proc workflow transition [];
                          case d of
                            Inl err \<Rightarrow> ret (Inl err)
                          | Inr pending \<Rightarrow>
                              do { b \<leftarrow> beginNext e ctx;
                                   case b of
                                     Inl err \<Rightarrow> ret (Inl err)
                                   | Inr (newTxID, newCtx) \<Rightarrow> finishSegment e newCtx newTxID pending txID } } } }"

definition executeSyncProcessor ::
  "Engine \<Rightarrow> Ctx \<Rightarrow> ProcessorDefinition \<Rightarrow> string \<Rightarrow> string \<Rightarrow> txid \<Rightarrow> unit eresult eng" where
  "executeSyncProcessor e ctx proc workflow transition txID =
     do { d \<leftarrow> dispatchProcessor e ctx proc workflow transition txID;
          case d of
            Inl err \<Rightarrow> ret (Inl err)
          | Inr None \<Rightarrow> ret (Inr ())
          | Inr (Some data) \<Rightarrow> applyProcessorData e ctx data }"

definition executeAsyncNewTx ::
  "Engine \<Rightarrow> Ctx \<Rightarrow> ProcessorDefinition \<Rightarrow> string \<Rightarrow> string \<Rightarrow> txid \<Rightarrow> unit eresult eng" where
  "executeAsyncNewTx e ctx proc workflow transition txID =
     (if e_ExtProc e = None then ret (Inr ())
      else do {
        i \<leftarrow> newUUID e;
        sp \<leftarrow> onFactory (Savepoint i ctx txID);
        case sp of
          Inl err \<Rightarrow> ret (Inl (EStore err))
        | Inr spID \<Rightarrow>
            do { d \<leftarrow> dispatchProcessor e ctx proc workflow transition txID;
                 case d of
                   Inl err \<Rightarrow> do { _ \<leftarrow> onFactory (RollbackToSavepoint ctx txID spID); ret (Inl err) }
                 | Inr _ \<Rightarrow>
                     do { r \<leftarrow> onFactory (ReleaseSavepoint ctx txID spID);
                          ret (case r of Inl err \<Rightarrow> Inl (EStore err) | Inr _ \<Rightarrow> Inr ()) } } })"

fun processorLoop ::
  "Engine \<Rightarrow> tenant option \<Rightarrow> string \<Rightarrow> string \<Rightarrow> txid \<Rightarrow> ProcessorDefinition list \<Rightarrow> Ctx \<Rightarrow> txid
   \<Rightarrow> (Ctx \<times> txid \<times> unit eresult) eng" where
  "processorLoop e audit workflow transition txID [] ctx cur = ret (ctx, cur, Inr ())"
| "processorLoop e audit workflow transition txID (proc # procs) ctx cur =
     (if pr_Type proc = ''internalized''
      then do { recordHere audit txID ''STATE_PROCESS_RESULT'' (pr_Name proc);
                ret (ctx, cur, Inl (EProcessor (pr_Name proc) (EBadRequest ''not yet implemented''))) }
      else if pr_ExecutionMode proc = ''ASYNC_NEW_TX''
      then do { _ \<leftarrow> executeAsyncNewTx e ctx proc workflow transition cur;
                recordHere audit txID ''STATE_PROCESS_RESULT'' (pr_Name proc);
                processorLoop e audit workflow transition txID procs ctx cur }
      else if pr_ExecutionMode proc = ''COMMIT_BEFORE_DISPATCH''
      then do { r \<leftarrow> executeCommitBeforeDispatch e ctx proc workflow transition cur audit txID;
                recordHere audit txID ''STATE_PROCESS_RESULT'' (pr_Name proc);
                case r of
                  Inl err \<Rightarrow> ret (ctx, cur, Inl (EProcessor (pr_Name proc) err))
                | Inr (newCtx, newTxID) \<Rightarrow> processorLoop e audit workflow transition txID procs newCtx newTxID }
      else do { r \<leftarrow> executeSyncProcessor e ctx proc workflow transition cur;
                recordHere audit txID ''STATE_PROCESS_RESULT'' (pr_Name proc);
                case r of
                  Inl err \<Rightarrow> ret (ctx, cur, Inl (EProcessor (pr_Name proc) err))
                | Inr _ \<Rightarrow> processorLoop e audit workflow transition txID procs ctx cur })"

definition executeProcessors ::
  "Engine \<Rightarrow> Ctx \<Rightarrow> ProcessorDefinition list \<Rightarrow> tenant option \<Rightarrow> string \<Rightarrow> string \<Rightarrow> txid
   \<Rightarrow> (Ctx \<times> txid \<times> unit eresult) eng" where
  "executeProcessors e ctx processors audit workflow transition txID =
     (if processors = [] then ret (ctx, txID, Inr ())
      else do { recordHere audit txID ''PAUSE_FOR_PROCESSING'' transition;
                modifies (\<lambda>s. s\<lparr>es_Memo := None\<rparr>);
                processorLoop e audit workflow transition txID processors ctx txID })"

subsection \<open>Transitions and the cascade\<close>

definition fireTransition ::
  "Engine \<Rightarrow> Ctx \<Rightarrow> WorkflowDefinition \<Rightarrow> TransitionDefinition \<Rightarrow> tenant option \<Rightarrow> txid
   \<Rightarrow> (Ctx \<times> txid \<times> unit eresult) eng" where
  "fireTransition e ctx wfd tr audit txID =
     do { m \<leftarrow> (if hasCriterion (tr_Criterion tr)
               then evaluateCriterion e (tr_Criterion tr) ctx txID ''TRANSITION'' (wf_Name wfd) (tr_Name tr)
               else ret (Inr (True, [])));
          case m of
            Inl err \<Rightarrow> ret (ctx, txID, Inl err)
          | Inr (matched, reason) \<Rightarrow>
              if \<not> matched
              then do { recordHere audit txID ''TRANSITION_NOT_MATCH_CRITERION'' (tr_Name tr);
                        ret (ctx, txID, Inl (ECriterionNotMatched reason)) }
              else do {
                p \<leftarrow> executeProcessors e ctx (tr_Processors tr) audit (wf_Name wfd) (tr_Name tr) txID;
                case p of
                  (newCtx, newTxID, Inl err) \<Rightarrow>
                    do { recordHere audit txID ''STATE_PROCESS_RESULT'' (tr_Name tr); ret (newCtx, newTxID, Inl err) }
                | (newCtx, newTxID, Inr _) \<Rightarrow>
                    do { recordHere audit txID ''TRANSITION_MAKE'' (tr_Name tr);
                         setState (tr_Next tr);
                         ret (newCtx, newTxID, Inr ()) } } }"

definition attemptTransition ::
  "Engine \<Rightarrow> Ctx \<Rightarrow> WorkflowDefinition \<Rightarrow> string \<Rightarrow> tenant option \<Rightarrow> txid \<Rightarrow> (Ctx \<times> txid \<times> unit eresult) eng" where
  "attemptTransition e ctx wfd name audit txID =
     do { ent \<leftarrow> reads es_Entity;
          case stateDef_of wfd (m_State (Meta ent)) of
            None \<Rightarrow> ret (ctx, txID, Inl (EBadRequest ''state not found in workflow''))
          | Some sd \<Rightarrow>
              (case find (\<lambda>tr. tr_Name tr = name) (sd_Transitions sd) of
                 None \<Rightarrow> do { recordHere audit txID ''TRANSITION_NOT_FOUND'' name; ret (ctx, txID, Inl ETransitionNotFound) }
               | Some tr \<Rightarrow>
                   if tr_Disabled tr \<or> tr_Schedule tr \<noteq> None
                   then do { recordHere audit txID ''TRANSITION_NOT_FOUND'' name; ret (ctx, txID, Inl ETransitionNotFound) }
                   else fireTransition e ctx wfd tr audit txID) }"

definition automated :: "TransitionDefinition \<Rightarrow> bool" where
  "automated tr \<longleftrightarrow> \<not> tr_Disabled tr \<and> \<not> tr_Manual tr \<and> tr_Schedule tr = None"

text \<open>The inner loop of \<^verbatim>\<open>cascadeAutomated\<close>: the first automated transition whose criterion holds fires.\<close>

fun tryTransitions ::
  "Engine \<Rightarrow> tenant option \<Rightarrow> WorkflowDefinition \<Rightarrow> txid \<Rightarrow> TransitionDefinition list \<Rightarrow> Ctx \<Rightarrow> txid
   \<Rightarrow> (Ctx \<times> txid \<times> bool eresult) eng" where
  "tryTransitions e audit wfd txID [] ctx cur = ret (ctx, cur, Inr False)"
| "tryTransitions e audit wfd txID (tr # trs) ctx cur =
     (if \<not> automated tr then tryTransitions e audit wfd txID trs ctx cur
      else do {
        m \<leftarrow> (if hasCriterion (tr_Criterion tr)
             then evaluateCriterion e (tr_Criterion tr) ctx cur ''TRANSITION'' (wf_Name wfd) (tr_Name tr)
             else ret (Inr (True, [])));
        case m of
          Inl err \<Rightarrow> ret (ctx, cur, Inl err)
        | Inr (matched, _) \<Rightarrow>
            if \<not> matched
            then do { recordHere audit txID ''TRANSITION_NOT_MATCH_CRITERION'' (tr_Name tr);
                      tryTransitions e audit wfd txID trs ctx cur }
            else do {
              p \<leftarrow> executeProcessors e ctx (tr_Processors tr) audit (wf_Name wfd) (tr_Name tr) cur;
              case p of
                (newCtx, newTxID, Inl err) \<Rightarrow>
                  do { recordHere audit txID ''STATE_PROCESS_RESULT'' (tr_Name tr); ret (newCtx, newTxID, Inl err) }
              | (newCtx, newTxID, Inr _) \<Rightarrow>
                  do { recordHere audit txID ''TRANSITION_MAKE'' (tr_Name tr);
                       setState (tr_Next tr);
                       ret (newCtx, newTxID, Inr True) } } })"

definition maxCascadeDepth :: nat where
  "maxCascadeDepth = 100"

primrec cascadeLoop ::
  "Engine \<Rightarrow> tenant option \<Rightarrow> WorkflowDefinition \<Rightarrow> txid \<Rightarrow> nat \<Rightarrow> (string \<Rightarrow> int) \<Rightarrow> Ctx \<Rightarrow> txid
   \<Rightarrow> (Ctx \<times> txid \<times> unit eresult) eng" where
  "cascadeLoop e audit wfd txID 0 visits ctx cur =
     do { recordHere audit txID ''CANCEL'' []; ret (ctx, cur, Inl EAborted) }"
| "cascadeLoop e audit wfd txID (Suc left) visits ctx cur =
     (if c_Err ctx 10 (maxCascadeDepth - Suc left) then ret (ctx, cur, Inl EContext)
      else do {
        ent \<leftarrow> reads es_Entity;
        let st = m_State (Meta ent);
        let visits' = visits(st := visits st + 1);
        (if e_MaxStateVisits e < visits' st
         then do { recordHere audit txID ''CANCEL'' st; ret (ctx, cur, Inl EAborted) }
         else case stateDef_of wfd st of
           None \<Rightarrow> ret (ctx, cur, Inr ())
         | Some sd \<Rightarrow>
             do { r \<leftarrow> tryTransitions e audit wfd txID (sd_Transitions sd) ctx cur;
                  case r of
                    (newCtx, newTxID, Inl err) \<Rightarrow> ret (newCtx, newTxID, Inl err)
                  | (newCtx, newTxID, Inr fired) \<Rightarrow>
                      if fired then cascadeLoop e audit wfd txID left visits' newCtx newTxID
                      else ret (newCtx, newTxID, Inr ()) }) })"

definition cascadeAutomated ::
  "Engine \<Rightarrow> Ctx \<Rightarrow> WorkflowDefinition \<Rightarrow> tenant option \<Rightarrow> txid \<Rightarrow> (Ctx \<times> txid \<times> unit eresult) eng" where
  "cascadeAutomated e ctx wfd audit txID = cascadeLoop e audit wfd txID maxCascadeDepth (\<lambda>_. 0) ctx txID"

subsection \<open>Scheduled transitions of the settled state\<close>

definition taskID :: "Engine \<Rightarrow> tenant \<Rightarrow> entityid \<Rightarrow> string \<Rightarrow> string \<Rightarrow> string" where
  "taskID e tid eid sourceState transition =
     e_Hash e (''fire-transition|'' @ tid @ ''|'' @ eid @ ''|'' @ sourceState @ ''|'' @ transition)"

definition workflowHasSchedule :: "WorkflowDefinition \<Rightarrow> bool" where
  "workflowHasSchedule wfd =
     list_ex (\<lambda>st. list_ex (\<lambda>tr. tr_Schedule tr \<noteq> None) (sd_Transitions (snd st))) (wf_States wfd)"

definition resolveSchedule :: "Engine \<Rightarrow> bytes \<Rightarrow> int \<Rightarrow> (int \<times> int option) option eresult" where
  "resolveSchedule e raw armMs =
     (case e_DecodeSchedule e raw of
        None \<Rightarrow> Inl EScheduleFunctionInvalidResult
      | Some s \<Rightarrow>
          if (ss_FireAt s = None) = (ss_FireAfterMs s = None) then Inl EScheduleFunctionInvalidResult
          else if ss_ExpireAt s \<noteq> None \<and> ss_ExpireAfterMs s \<noteq> None then Inl EScheduleFunctionInvalidResult
          else
            let sched = (case ss_FireAt s of Some t \<Rightarrow> t | None \<Rightarrow> wrap64 (armMs + the (ss_FireAfterMs s)));
                expiry = (case ss_ExpireAt s of
                            Some t \<Rightarrow> Some t
                          | None \<Rightarrow> map_option (\<lambda>d. wrap64 (sched + d)) (ss_ExpireAfterMs s))
            in case expiry of
                 None \<Rightarrow> Inr (Some (sched, None))
               | Some x \<Rightarrow> if x \<le> sched then Inr None else Inr (Some (sched, Some (wrap64 (x - sched)))))"

definition parseInt32 :: "string \<Rightarrow> int" where
  "parseInt32 s =
     (let neg = (s \<noteq> [] \<and> hd s = CHR ''-'');
          ds = (if s \<noteq> [] \<and> hd s \<in> {CHR ''-'', CHR ''+''} then tl s else s);
          n = fold (\<lambda>c acc. 10 * acc + digitVal c) ds 0
      in if ds = [] \<or> \<not> list_all isDigit ds then 0
         else if neg then max (- (2 ^ 31)) (- n) else min (2 ^ 31 - 1) n)"

definition mkScheduledTask ::
  "Ctx \<Rightarrow> Entity \<Rightarrow> TransitionDefinition \<Rightarrow> string \<Rightarrow> int \<Rightarrow> int \<Rightarrow> int option \<Rightarrow> ScheduledTask" where
  "mkScheduledTask ctx ent tr i armMs sched timeoutMs =
     \<lparr>st_ID = i, st_TenantID = m_TenantID (Meta ent), st_Type = ''fire-transition'', st_ScheduledTime = sched,
      st_TimeoutMs = timeoutMs, st_EntityID = entity_id ent, st_ModelName = EntityName (model_of ent),
      st_ModelVersion = parseInt32 (ModelVersion (model_of ent)), st_Transition = tr_Name tr,
      st_SourceState = m_State (Meta ent), st_ArmedAt = armMs, st_ArmedBy = c_Origin ctx,
      st_RedispatchAfter = None, st_AttemptCount = 0\<rparr>"

definition armViaFunction ::
  "Engine \<Rightarrow> Ctx \<Rightarrow> WorkflowDefinition \<Rightarrow> TransitionDefinition \<Rightarrow> ScheduleFunction \<Rightarrow> string \<Rightarrow> int \<Rightarrow> txid
   \<Rightarrow> ScheduledTask option eresult eng" where
  "armViaFunction e ctx wfd tr fn i armMs txID =
     (case e_ExtProc e of
        None \<Rightarrow> ret (Inl (EBadRequest ''no external processing service''))
      | Some xp \<Rightarrow>
          do { ent \<leftarrow> reads es_Entity;
               r \<leftarrow> onStores (xp_Function xp ctx ent fn (wf_Name wfd) (tr_Name tr) txID);
               ret (case r of
                      Inl err \<Rightarrow> Inl err
                    | Inr res \<Rightarrow>
                        if fr_Kind res \<noteq> ''Schedule'' then Inl EScheduleFunctionInvalidResult
                        else case resolveSchedule e (fr_Value res) armMs of
                               Inl err \<Rightarrow> Inl err
                             | Inr None \<Rightarrow> Inr None
                             | Inr (Some (sched, timeoutMs)) \<Rightarrow>
                                 Inr (Some (mkScheduledTask ctx ent tr i armMs sched timeoutMs))) })"

definition armable :: "TransitionDefinition \<Rightarrow> bool" where
  "armable tr \<longleftrightarrow> tr_Schedule tr \<noteq> None \<and> \<not> tr_Manual tr \<and> \<not> tr_Disabled tr"

text \<open>The arming loop: the tasks to arm, and the ids and names of the transitions born expired.\<close>

fun armLoop ::
  "Engine \<Rightarrow> Ctx \<Rightarrow> WorkflowDefinition \<Rightarrow> int \<Rightarrow> txid \<Rightarrow> TransitionDefinition list
   \<Rightarrow> (ScheduledTask list \<times> (string \<times> string) list) eresult eng" where
  "armLoop e ctx wfd armMs txID [] = ret (Inr ([], []))"
| "armLoop e ctx wfd armMs txID (tr # trs) =
     (if \<not> armable tr then armLoop e ctx wfd armMs txID trs
      else do {
        ent \<leftarrow> reads es_Entity;
        let i = taskID e (m_TenantID (Meta ent)) (entity_id ent) (m_State (Meta ent)) (tr_Name tr);
        let sch = the (tr_Schedule tr);
        t \<leftarrow> (case sch_Function sch of
               Some fn \<Rightarrow> armViaFunction e ctx wfd tr fn i armMs txID
             | None \<Rightarrow> ret (Inr (Some (mkScheduledTask ctx ent tr i armMs (wrap64 (armMs + sch_DelayMs sch)) (sch_TimeoutMs sch)))));
        case t of
          Inl err \<Rightarrow> ret (Inl err)
        | Inr o' \<Rightarrow>
            do { r \<leftarrow> armLoop e ctx wfd armMs txID trs;
                 ret (case r of
                        Inl err \<Rightarrow> Inl err
                      | Inr (arm, born) \<Rightarrow>
                          (case o' of None \<Rightarrow> Inr (arm, (i, tr_Name tr) # born) | Some task \<Rightarrow> Inr (task # arm, born))) } })"

fun recordAll :: "tenant option \<Rightarrow> txid \<Rightarrow> string \<Rightarrow> (string \<times> string) list \<Rightarrow> unit eng" where
  "recordAll audit txID eventType [] = ret ()"
| "recordAll audit txID eventType ((st, name) # rest) =
     do { recordEvent audit txID st eventType name; recordAll audit txID eventType rest }"

definition reconcileScheduledTasks ::
  "Engine \<Rightarrow> Ctx \<Rightarrow> WorkflowDefinition \<Rightarrow> txid \<Rightarrow> tenant option \<Rightarrow> string \<Rightarrow> unit eresult eng" where
  "reconcileScheduledTasks e ctx wfd txID audit suppressCancelAuditFor =
     (if \<not> workflowHasSchedule wfd then ret (Inr ())
      else do {
        t \<leftarrow> now e;
        let armMs = unixMilli t;
        ent \<leftarrow> reads es_Entity;
        let st = m_State (Meta ent);
        a \<leftarrow> (case stateDef_of wfd st of None \<Rightarrow> ret (Inr ([], [])) | Some sd \<Rightarrow> armLoop e ctx wfd armMs txID (sd_Transitions sd));
        case a of
          Inl err \<Rightarrow> ret (Inl err)
        | Inr (arm, born) \<Rightarrow>
            do { c \<leftarrow> onFactory (scheduledTaskStore_ReconcileForEntity ctx
                        \<lparr>rr_TenantID = m_TenantID (Meta ent), rr_EntityID = entity_id ent, rr_CurrentState = st,
                         rr_Arm = arm, rr_Cancel = map fst born\<rparr>);
                 case c of
                   Inl err \<Rightarrow> ret (Inl (EScheduledTaskInfra err))
                 | Inr cancelled \<Rightarrow>
                     do { recordAll audit txID ''SCHEDULED_TRANSITION_ARM'' (map (\<lambda>a. (st, st_Transition a)) arm);
                          recordAll audit txID ''SCHEDULED_TRANSITION_CANCEL''
                            (map (\<lambda>c. (st_SourceState c, st_Transition c))
                               (filter (\<lambda>c. suppressCancelAuditFor = [] \<or> st_ID c \<noteq> suppressCancelAuditFor) cancelled));
                          recordAll audit txID ''SCHEDULED_TRANSITION_EXPIRE'' (map (\<lambda>b. (st, snd b)) born);
                          ret (Inr ()) } } })"

subsection \<open>The entry points\<close>

record EngineResult =
  er_State :: string
  er_Success :: bool
  er_StopReason :: string
  er_FinalCtx :: Ctx
  er_FinalTxID :: txid
  er_Segmented :: bool

text \<open>
  The common end of the three entry points: cascade from the current state, reconcile the timers, record
  the finish and hand the open segment to the caller; an error at any point releases the open segment.
\<close>

definition settle ::
  "Engine \<Rightarrow> WorkflowDefinition \<Rightarrow> tenant option \<Rightarrow> txid \<Rightarrow> string \<Rightarrow> Ctx \<Rightarrow> txid \<Rightarrow> EngineResult eresult eng" where
  "settle e wfd audit txID finished ctx cur =
     do { c \<leftarrow> cascadeAutomated e ctx wfd audit cur;
          case c of
            (ctx2, tx2, Inl err) \<Rightarrow> orRollback ctx2 tx2 txID (Inl err)
          | (ctx2, tx2, Inr _) \<Rightarrow>
              do { r \<leftarrow> reconcileScheduledTasks e ctx2 wfd tx2 audit [];
                   case r of
                     Inl err \<Rightarrow> orRollback ctx2 tx2 txID (Inl err)
                   | Inr _ \<Rightarrow>
                       do { recordHere audit txID ''STATE_MACHINE_FINISH'' finished;
                            ent \<leftarrow> reads es_Entity;
                            ret (Inr \<lparr>er_State = m_State (Meta ent), er_Success = True, er_StopReason = [],
                                      er_FinalCtx = ctx2, er_FinalTxID = tx2, er_Segmented = (tx2 \<noteq> txID)\<rparr>) } } }"

definition Execute :: "Engine \<Rightarrow> Ctx \<Rightarrow> string \<Rightarrow> EngineResult eresult eng" where
  "Execute e ctx transitionName =
     (case resolveTenant ctx of
        Inl err \<Rightarrow> ret (Inl (EStore err))
      | Inr tid \<Rightarrow>
          do { txID \<leftarrow> resolveAuditTxID e;
               recordHere (Some tid) txID ''STATE_MACHINE_START'' [];
               w \<leftarrow> resolveWorkflow e ctx (Some tid) txID;
               case w of
                 Inl err \<Rightarrow> ret (Inl err)
               | Inr wfd \<Rightarrow>
                   do { setState (wf_InitialState wfd);
                        a \<leftarrow> (if transitionName \<noteq> [] then attemptTransition e ctx wfd transitionName (Some tid) txID
                             else ret (ctx, txID, Inr ()));
                        case a of
                          (ctx1, tx1, Inl err) \<Rightarrow> orRollback ctx1 tx1 txID (Inl err)
                        | (ctx1, tx1, Inr _) \<Rightarrow> settle e wfd (Some tid) txID ''State machine finished'' ctx1 tx1 } })"

definition ManualTransition :: "Engine \<Rightarrow> Ctx \<Rightarrow> string \<Rightarrow> EngineResult eresult eng" where
  "ManualTransition e ctx transitionName =
     (case resolveTenant ctx of
        Inl err \<Rightarrow> ret (Inl (EStore err))
      | Inr tid \<Rightarrow>
          do { txID \<leftarrow> resolveAuditTxID e;
               recordHere (Some tid) txID ''STATE_MACHINE_START'' [];
               w \<leftarrow> resolveWorkflow e ctx (Some tid) txID;
               case w of
                 Inl err \<Rightarrow> ret (Inl err)
               | Inr wfd \<Rightarrow>
                   do { a \<leftarrow> attemptTransition e ctx wfd transitionName (Some tid) txID;
                        case a of
                          (ctx1, tx1, Inl err) \<Rightarrow> orRollback ctx1 tx1 txID (Inl err)
                        | (ctx1, tx1, Inr _) \<Rightarrow> settle e wfd (Some tid) txID ''Manual transition finished'' ctx1 tx1 } })"

definition ManualTransitionWithIfMatch :: "Engine \<Rightarrow> Ctx \<Rightarrow> string \<Rightarrow> string \<Rightarrow> EngineResult eresult eng" where
  "ManualTransitionWithIfMatch e ctx transitionName ifMatch =
     do { withIfMatch ifMatch; ManualTransition e ctx transitionName }"

definition Loopback :: "Engine \<Rightarrow> Ctx \<Rightarrow> EngineResult eresult eng" where
  "Loopback e ctx =
     (case resolveTenant ctx of
        Inl err \<Rightarrow> ret (Inl (EStore err))
      | Inr tid \<Rightarrow>
          do { txID \<leftarrow> resolveAuditTxID e;
               recordHere (Some tid) txID ''STATE_MACHINE_START'' [];
               w \<leftarrow> resolveWorkflow e ctx (Some tid) txID;
               case w of
                 Inl err \<Rightarrow> ret (Inl err)
               | Inr wfd \<Rightarrow>
                   do { ent \<leftarrow> reads es_Entity;
                        if stateDef_of wfd (m_State (Meta ent)) = None
                        then do { recordHere (Some tid) txID ''FORCE_SUCCESS'' (wf_Name wfd);
                                  recordHere (Some tid) txID ''STATE_MACHINE_FINISH'' [];
                                  ret (Inr \<lparr>er_State = m_State (Meta ent), er_Success = True,
                                            er_StopReason = ''STATE_NOT_IN_WORKFLOW'', er_FinalCtx = ctx, er_FinalTxID = txID,
                                            er_Segmented = False\<rparr>) }
                        else settle e wfd (Some tid) txID ''Loopback finished'' ctx txID } })"

definition LoopbackWithIfMatch :: "Engine \<Rightarrow> Ctx \<Rightarrow> string \<Rightarrow> EngineResult eresult eng" where
  "LoopbackWithIfMatch e ctx ifMatch = do { withIfMatch ifMatch; Loopback e ctx }"

definition GetAvailableTransitionsForEntity :: "Engine \<Rightarrow> Ctx \<Rightarrow> string list eresult eng" where
  "GetAvailableTransitionsForEntity e ctx =
     do { w \<leftarrow> resolveWorkflowForQuery e ctx;
          ent \<leftarrow> reads es_Entity;
          ret (case w of
                 Inl err \<Rightarrow> Inl err
               | Inr wfd \<Rightarrow>
                   (case stateDef_of wfd (m_State (Meta ent)) of
                      None \<Rightarrow> Inr []
                    | Some sd \<Rightarrow> Inr (map tr_Name (sd_Transitions sd)))) }"

definition GetAvailableTransitions :: "Engine \<Rightarrow> Ctx \<Rightarrow> entityid \<Rightarrow> string list eresult eng" where
  "GetAvailableTransitions e ctx eid =
     (case resolveTenant ctx of
        Inl _ \<Rightarrow> ret (Inl EInternal)
      | Inr tid \<Rightarrow>
          do { r \<leftarrow> onFactory (EntityStore_Get ctx tid eid);
               case r of
                 Inl err \<Rightarrow> ret (Inl (if err = ErrNotFound then EBadRequest ''ENTITY_NOT_FOUND'' else EInternal))
               | Inr ent \<Rightarrow> do { modifies (\<lambda>s. s\<lparr>es_Entity := ent\<rparr>); GetAvailableTransitionsForEntity e ctx } })"

end
