(* ===== verification/WfCascade.thy ===== *)
theory WfCascade
  imports WfEngine
begin

text \<open>
  Where a cascade can take an entity. The state of the entity changes only along automated transitions of
  the workflow, a cascade takes at most \<^verbatim>\<open>maxCascadeDepth\<close> of them and visits no state more often than
  the limit, and when it ends without an error every automated transition out of the settled state has
  been refused by its criterion on the settled entity.
\<close>

definition stateOf :: "EngState \<Rightarrow> string" where
  "stateOf s = m_State (Meta (es_Entity s))"

definition autoStep :: "WorkflowDefinition \<Rightarrow> string \<Rightarrow> string \<Rightarrow> bool" where
  "autoStep wfd a b \<longleftrightarrow>
     (case stateDef_of wfd a of
        None \<Rightarrow> False
      | Some sd \<Rightarrow> list_ex (\<lambda>tr. automated tr \<and> tr_Next tr = b) (sd_Transitions sd))"

text \<open>A criterion that some evaluation on the given entity answered with no.\<close>

definition refused :: "Engine \<Rightarrow> WorkflowDefinition \<Rightarrow> Entity \<Rightarrow> TransitionDefinition \<Rightarrow> bool" where
  "refused e wfd ent tr \<longleftrightarrow>
     hasCriterion (tr_Criterion tr) \<and>
     (\<exists>ctx cur s reason s'. es_Entity s = ent \<and>
        run_state (evaluateCriterion e (tr_Criterion tr) ctx cur ''TRANSITION'' (wf_Name wfd) (tr_Name tr)) s =
          (Inr (False, reason), s'))"

definition settled :: "Engine \<Rightarrow> WorkflowDefinition \<Rightarrow> Entity \<Rightarrow> bool" where
  "settled e wfd ent \<longleftrightarrow>
     (case stateDef_of wfd (m_State (Meta ent)) of
        None \<Rightarrow> True
      | Some sd \<Rightarrow> \<forall>tr \<in> set (sd_Transitions sd). automated tr \<longrightarrow> refused e wfd ent tr)"

text \<open>The states a cascade goes through, with the visit counts it starts from.\<close>

definition cascadePath ::
  "Engine \<Rightarrow> WorkflowDefinition \<Rightarrow> nat \<Rightarrow> (string \<Rightarrow> int)
   \<Rightarrow> string list \<Rightarrow> EngState \<Rightarrow> unit eresult \<Rightarrow> EngState \<Rightarrow> bool" where
  "cascadePath e wfd left visits path s r s' \<longleftrightarrow>
     path \<noteq> [] \<and> hd path = stateOf s \<and> last path = stateOf s' \<and> successively (autoStep wfd) path \<and>
     length path \<le> Suc left \<and>
     (r = Inr () \<longrightarrow> settled e wfd (es_Entity s') \<and>
        (\<forall>x \<in> set path. visits x + int (count_list path x) \<le> e_MaxStateVisits e))"

text \<open>A program that keeps a part of the entity.\<close>

definition kept :: "(Entity \<Rightarrow> 'b) \<Rightarrow> 'a eng \<Rightarrow> bool" where
  "kept f m \<longleftrightarrow> (\<forall>s. f (es_Entity (snd (run_state m s))) = f (es_Entity s))"

text \<open>An engine and a store for the concrete runs.\<close>

definition plainBase :: Engine where
  "plainBase =
     \<lparr>e_ExtProc = None, e_MaxStateVisits = 0, e_DefaultWorkflows = [], e_ExpiryGraceMs = 0,
      e_NewUUID = (\<lambda>n. CHR ''u'' # replicate n CHR ''x''), e_Clock = (\<lambda>n. int n), e_Claims = noClaims,
      e_JsonCopy = Inr, e_Parse = (\<lambda>_. None), e_Evaluate = (\<lambda>_ _ _. Inr True), e_Storable = (\<lambda>_. True),
      e_Admit = (\<lambda>_ _ m. (Inr (), m)), e_Hash = (\<lambda>x. x), e_DecodeSchedule = (\<lambda>_. None)\<rparr>"

definition plainEngine :: Engine where
  "plainEngine = NewEngine [] plainBase"

definition startState :: "StoreFactory \<Rightarrow> Entity \<Rightarrow> EngState" where
  "startState f ent =
     \<lparr>es_Stores = \<lparr>db_Factory = f, db_Audit = Map.empty, db_Workflows = Map.empty, db_Models = Map.empty\<rparr>,
      es_Entity = ent, es_IfMatch = [], es_Memo = None, es_Tick = 0\<rparr>"

lemma run_prims [simp]:
  "run_state (reads f) s = (f s, s)" "run_state (modifies g) s = ((), g s)"
  "run_state (onStores h) s = (fst (h (es_Stores s)), s\<lparr>es_Stores := snd (h (es_Stores s))\<rparr>)"
  "run_state drawTick s = (es_Tick s, s\<lparr>es_Tick := Suc (es_Tick s)\<rparr>)"
  "run_state consumeIfMatch s = (es_IfMatch s, s\<lparr>es_IfMatch := []\<rparr>)"
  by (simp_all add: reads_def modifies_def onStores_def drawTick_def consumeIfMatch_def split: prod.split)

lemma kept_ret: "kept f (ret x)" by (simp add: kept_def)

lemma kept_bind:
  assumes "kept f m" "\<And>x. kept f (g x)" shows "kept f (State_Monad.bind m g)"
  using assms unfolding kept_def by (auto split: prod.split) (metis prod.sel)

lemma kept_prims:
  "kept f (reads g)" "kept f (onStores h)" "kept f (onFactory k)" "kept f drawTick" "kept f consumeIfMatch"
  "kept f (recordEvent audit txID st ty d)"
  by (simp_all add: kept_def onFactory_def recordEvent_def Let_def split: option.split)

lemma kept_modifies: "(\<And>s. f (es_Entity (g s)) = f (es_Entity s)) \<Longrightarrow> kept f (modifies g)"
  by (simp add: kept_def)

lemmas kept_intros = kept_ret kept_bind kept_prims

lemma kept_basics:
  "kept f (newUUID e)" "kept f (now e)" "kept f (recordHere audit txID ty d)" "kept f (rollbackSegment ctx a b)"
  by (auto simp: newUUID_def now_def recordHere_def rollbackSegment_def intro!: kept_intros)

lemma kept_evaluateCriterion: "kept f (evaluateCriterion e c ctx txID target w t)"
  unfolding evaluateCriterion_def by (auto intro!: kept_intros split: option.split Condition.split)

lemma kept_store_steps:
  "kept f (saveEntity e ctx tid)" "kept f (compareAndSaveEntity e ctx tid x)" "kept f (commitTx e ctx t)"
  "kept f (beginTx e ctx)"
  by (auto simp: saveEntity_def compareAndSaveEntity_def commitTx_def beginTx_def intro!: kept_intros kept_basics)

lemma kept_descriptor: "kept f (descriptor tid)"
  unfolding descriptor_def Let_def by (auto intro!: kept_intros kept_modifies split: option.split)

lemma kept_applyProcessorData: "kept Meta (applyProcessorData e ctx d)"
  unfolding applyProcessorData_def
  by (auto intro!: kept_intros kept_modifies kept_descriptor split: sum.split)

lemma kept_dispatch: "kept f (dispatchProcessor e ctx proc w t x)"
  unfolding dispatchProcessor_def by (auto intro!: kept_intros split: option.split)

lemma kept_segments:
  "kept f (flushAndCommitSegment e ctx txID x)" "kept f (beginNext e ctx)" "kept f (commitAndBeginNextSegment e ctx txID x)"
  "kept f (flushFailed ctx audit entry t x err)" "kept f (orRollback ctx a b r)"
proof -
  show f: "kept f (flushAndCommitSegment e ctx txID x)"
    unfolding flushAndCommitSegment_def by (auto intro!: kept_intros kept_store_steps split: sum.split)
  show b: "kept f (beginNext e ctx)" unfolding beginNext_def by (auto intro!: kept_intros kept_store_steps)
  show "kept f (commitAndBeginNextSegment e ctx txID x)"
    unfolding commitAndBeginNextSegment_def by (auto intro!: kept_intros f b split: sum.split)
  show "kept f (flushFailed ctx audit entry t x err)"
    unfolding flushFailed_def recordAbortForIfMatchConflict_def LookupActualTxID_def Let_def
    by (auto intro!: kept_intros kept_basics split: sum.split)
  show "kept f (orRollback ctx a b r)" unfolding orRollback_def by (auto intro!: kept_intros kept_basics split: sum.split)
qed

lemma kept_finishSegment: "kept Meta (finishSegment e ctx t p x)"
  unfolding finishSegment_def applyAfterDispatch_def
  by (auto intro!: kept_intros kept_applyProcessorData kept_store_steps kept_segments split: sum.split option.split)

lemma kept_executeCommitBeforeDispatch:
  "kept Meta (executeCommitBeforeDispatch e ctx proc w t txID audit entry)"
  unfolding executeCommitBeforeDispatch_def
  by (auto intro!: kept_intros kept_segments kept_dispatch kept_finishSegment split: sum.split)

lemma kept_processorLoop: "kept Meta (processorLoop e audit w t txID procs ctx cur)"
proof (induction procs arbitrary: ctx cur)
  case (Cons proc procs)
  have "kept Meta (executeAsyncNewTx e ctx proc w t cur)"
    unfolding executeAsyncNewTx_def by (auto intro!: kept_intros kept_basics kept_dispatch split: sum.split)
  moreover have "kept Meta (executeSyncProcessor e ctx proc w t cur)"
    unfolding executeSyncProcessor_def
    by (auto intro!: kept_intros kept_dispatch kept_applyProcessorData split: sum.split option.split)
  ultimately show ?case
    using Cons by (auto intro!: kept_intros kept_basics kept_executeCommitBeforeDispatch split: sum.split)
qed (simp add: kept_ret)

lemma kept_executeProcessors: "kept Meta (executeProcessors e ctx procs audit w t txID)"
  unfolding executeProcessors_def
  by (auto intro!: kept_intros kept_basics kept_modifies kept_processorLoop)

lemma keptD: "kept f m \<Longrightarrow> run_state m s = (r, s') \<Longrightarrow> f (es_Entity s') = f (es_Entity s)"
  unfolding kept_def by (metis snd_conv)

lemma keptD': "kept (\<lambda>x. x) m \<Longrightarrow> run_state m s = (r, s') \<Longrightarrow> es_Entity s' = es_Entity s"
  by (rule keptD)

lemma run_setState [simp]:
  "run_state (setState st) s = ((), s\<lparr>es_Entity := (es_Entity s)\<lparr>Meta := (Meta (es_Entity s))\<lparr>m_State := st\<rparr>\<rparr>\<rparr>)"
  by (simp add: setState_def)

lemma refusedI:
  "hasCriterion (tr_Criterion tr) \<Longrightarrow>
   run_state (evaluateCriterion e (tr_Criterion tr) ctx cur ''TRANSITION'' (wf_Name wfd) (tr_Name tr)) s =
     (Inr (False, reason), s') \<Longrightarrow> refused e wfd (es_Entity s) tr"
  unfolding refused_def by blast

lemma tryTransitions_spec:
  assumes "run_state (tryTransitions e audit wfd txID trs ctx cur) s = ((ctx', cur', r), s')"
  shows "case r of
           Inl _ \<Rightarrow> stateOf s' = stateOf s
         | Inr True \<Rightarrow> \<exists>tr \<in> set trs. automated tr \<and> stateOf s' = tr_Next tr
         | Inr False \<Rightarrow> es_Entity s' = es_Entity s \<and> (\<forall>tr \<in> set trs. automated tr \<longrightarrow> refused e wfd (es_Entity s) tr)"
  using assms
proof (induction trs arbitrary: s)
  case Nil
  then show ?case by auto
next
  case (Cons tr trs)
  show ?case
  proof (cases "automated tr")
    case False
    then show ?thesis using Cons.IH [of s] Cons.prems by (auto split: sum.splits bool.splits)
  next
    case True
    let ?eval = "if hasCriterion (tr_Criterion tr)
      then evaluateCriterion e (tr_Criterion tr) ctx cur ''TRANSITION'' (wf_Name wfd) (tr_Name tr) else ret (Inr (True, []))"
    obtain m s1 where m: "run_state ?eval s = (m, s1)" by (rule prod.exhaust)
    have e1: "es_Entity s1 = es_Entity s"
      by (rule keptD' [OF _ m]) (auto intro: kept_evaluateCriterion kept_ret)
    show ?thesis
    proof (cases m)
      case (Inl err)
      then show ?thesis using Cons.prems True m e1 by (auto simp: stateOf_def)
    next
      case (Inr q)
      obtain matched reason where q: "q = (matched, reason)" by force
      show ?thesis
      proof (cases matched)
        case False
        have no: "refused e wfd (es_Entity s) tr"
          using m Inr q False by (cases "hasCriterion (tr_Criterion tr)") (auto intro: refusedI)
        obtain u s2 where rec: "run_state (recordHere audit txID ''TRANSITION_NOT_MATCH_CRITERION'' (tr_Name tr)) s1 = (u, s2)"
          by (rule prod.exhaust)
        have e2: "es_Entity s2 = es_Entity s" using keptD' [OF kept_basics(3) rec] e1 by simp
        have "run_state (tryTransitions e audit wfd txID trs ctx cur) s2 = ((ctx', cur', r), s')"
          using Cons.prems True m Inr q False rec by simp
        from Cons.IH [OF this] show ?thesis using e2 no by (auto simp: stateOf_def split: sum.splits bool.splits)
      next
        case mt: True
        obtain ctx2 cur2 p s2 where p: "run_state (executeProcessors e ctx (tr_Processors tr) audit (wf_Name wfd) (tr_Name tr) cur) s1 =
            ((ctx2, cur2, p), s2)" by (metis prod.exhaust)
        have e2: "Meta (es_Entity s2) = Meta (es_Entity s)" using keptD [OF kept_executeProcessors p] e1 by simp
        show ?thesis
        proof (cases p)
          case (Inl err)
          obtain u s3 where rec: "run_state (recordHere audit txID ''STATE_PROCESS_RESULT'' (tr_Name tr)) s2 = (u, s3)" by (rule prod.exhaust)
          have "es_Entity s3 = es_Entity s2" by (rule keptD' [OF kept_basics(3) rec])
          then show ?thesis using Cons.prems True m \<open>m = Inr q\<close> q mt p Inl rec e2 by (auto simp: stateOf_def)
        next
          case ok: (Inr v)
          obtain u s3 where rec: "run_state (recordHere audit txID ''TRANSITION_MAKE'' (tr_Name tr)) s2 = (u, s3)" by (rule prod.exhaust)
          show ?thesis using Cons.prems True m \<open>m = Inr q\<close> q mt p ok rec by (auto simp: stateOf_def)
        qed
      qed
    qed
  qed
qed

lemma cascadePath_stay:
  assumes "stateOf s' = stateOf s"
    and "r = Inr () \<Longrightarrow> settled e wfd (es_Entity s') \<and> visits (stateOf s) + 1 \<le> e_MaxStateVisits e"
  shows "cascadePath e wfd left visits [stateOf s] s r s'"
  using assms by (auto simp: cascadePath_def)

lemma cascadePath_step:
  assumes "autoStep wfd (stateOf s) (stateOf s1)" "visits (stateOf s) + 1 \<le> e_MaxStateVisits e"
    and "cascadePath e wfd left (visits(stateOf s := visits (stateOf s) + 1)) path s1 r s'"
  shows "cascadePath e wfd (Suc left) visits (stateOf s # path) s r s'"
proof -
  have "visits x + int (count_list (stateOf s # path) x) \<le> e_MaxStateVisits e"
    if "r = Inr ()" "x \<in> set (stateOf s # path)" for x
  proof (cases "x \<in> set path")
    case True
    then show ?thesis using assms(3) that by (auto simp: cascadePath_def split: if_splits)
  next
    case False
    then have "count_list path x = 0" by (simp add: count_list_0_iff)
    then show ?thesis using that False assms(2) by simp
  qed
  moreover have "successively (autoStep wfd) (stateOf s # path)"
    using assms(1,3) by (cases path) (auto simp: cascadePath_def)
  ultimately show ?thesis using assms(3) by (auto simp: cascadePath_def)
qed

lemma cascadeLoop_path:
  assumes "run_state (cascadeLoop e audit wfd txID left visits ctx cur) s = ((ctx', cur', r), s')"
  shows "\<exists>path. cascadePath e wfd left visits path s r s'"
  using assms
proof (induction left arbitrary: visits ctx cur s)
  case 0
  obtain u s1 where rec: "run_state (recordHere audit txID ''CANCEL'' []) s = (u, s1)" by (rule prod.exhaust)
  have "es_Entity s1 = es_Entity s" by (rule keptD' [OF kept_basics(3) rec])
  then show ?case using 0 rec by (intro exI [of _ "[stateOf s]"] cascadePath_stay) (auto simp: stateOf_def settled_def Let_def)
next
  case (Suc left)
  let ?st = "stateOf s" and ?visits = "visits(stateOf s := visits (stateOf s) + 1)"
  show ?case
  proof (cases "c_Err ctx 10 (maxCascadeDepth - Suc left)")
    case True
    then show ?thesis using Suc.prems by (intro exI [of _ "[stateOf s]"] cascadePath_stay) (auto simp: stateOf_def settled_def Let_def)
  next
    case go: False
    show ?thesis
    proof (cases "e_MaxStateVisits e < visits ?st + 1")
      case True
      obtain u s1 where rec: "run_state (recordHere audit txID ''CANCEL'' ?st) s = (u, s1)" by (rule prod.exhaust)
      have "es_Entity s1 = es_Entity s" by (rule keptD' [OF kept_basics(3) rec])
      then show ?thesis
        using Suc.prems go True rec by (intro exI [of _ "[stateOf s]"] cascadePath_stay) (auto simp: stateOf_def settled_def Let_def)
    next
      case ok: False
      show ?thesis
      proof (cases "stateDef_of wfd ?st")
        case None
        then show ?thesis
          using Suc.prems go ok by (intro exI [of _ "[stateOf s]"] cascadePath_stay) (auto simp: stateOf_def settled_def Let_def)
      next
        case (Some sd)
        obtain ctx1 cur1 q s1 where t: "run_state (tryTransitions e audit wfd txID (sd_Transitions sd) ctx cur) s =
            ((ctx1, cur1, q), s1)" by (metis prod.exhaust)
        note spec = tryTransitions_spec [OF t]
        consider (err) err where "q = Inl err" | (fired) "q = Inr True" | (stable) "q = Inr False" by (cases q) auto
        then show ?thesis
        proof cases
          case err
          then show ?thesis
            using Suc.prems go ok Some t spec by (intro exI [of _ "[stateOf s]"] cascadePath_stay) (auto simp: stateOf_def settled_def Let_def)
        next
          case fired
          then have "autoStep wfd ?st (stateOf s1)" using spec Some by (auto simp: autoStep_def list_ex_iff)
          moreover have "run_state (cascadeLoop e audit wfd txID left ?visits ctx1 cur1) s1 = ((ctx', cur', r), s')"
            using Suc.prems go ok Some t fired by (simp add: stateOf_def Let_def)
          ultimately obtain path where "cascadePath e wfd left ?visits path s1 r s'" "autoStep wfd ?st (stateOf s1)"
            using Suc.IH by blast
          then show ?thesis using cascadePath_step ok by (intro exI [of _ "?st # path"]) simp
        next
          case stable
          then have "s' = s1 \<and> r = Inr ()" using Suc.prems go ok Some t by (simp add: stateOf_def Let_def)
          then show ?thesis
            using spec stable Some ok by (intro exI [of _ "[stateOf s]"] cascadePath_stay) (auto simp: stateOf_def settled_def Let_def)
        qed
      qed
    qed
  qed
qed

text \<open>Every target of an accepted workflow is declared.\<close>

lemma validateTransitions_next:
  "validateTransitions cc wfd names trs = Ok () \<Longrightarrow> tr \<in> set trs \<Longrightarrow> stateDef_of wfd (tr_Next tr) \<noteq> None"
proof (induction trs arbitrary: names)
  case (Cons t trs)
  then show ?case by (auto simp: require_def split: sum.splits if_splits)
qed simp

lemma validated_step:
  assumes "validateWorkflowStructure cc wfd = Ok ()" "autoStep wfd a b" shows "stateDef_of wfd b \<noteq> None"
proof -
  obtain sd tr where sd: "stateDef_of wfd a = Some sd" "tr \<in> set (sd_Transitions sd)" "tr_Next tr = b"
    using assms(2) by (auto simp: autoStep_def list_ex_iff split: option.splits)
  have "(a, sd) \<in> set (wf_States wfd)" using sd(1) by (simp add: stateDef_of_def map_of_SomeD)
  moreover have "\<forall>r \<in> set (map (validateState cc wfd) (wf_States wfd)). r = Ok ()"
    using assms(1) unfolding validateWorkflowStructure_def firstErr_Ok by simp
  ultimately have "validateState cc wfd (a, sd) = Ok ()" by auto
  then have "validateTransitions cc wfd [] (sd_Transitions sd) = Ok ()" by (simp add: validateState_def firstErr_Ok)
  then show ?thesis using validateTransitions_next sd(2,3) by blast
qed

lemma validated_path:
  "validateWorkflowStructure cc wfd = Ok () \<Longrightarrow> successively (autoStep wfd) path \<Longrightarrow> path \<noteq> [] \<Longrightarrow>
   stateDef_of wfd (hd path) \<noteq> None \<Longrightarrow> x \<in> set path \<Longrightarrow> stateDef_of wfd x \<noteq> None"
proof (induction path)
  case (Cons a path)
  then show ?case using validated_step [OF Cons.prems(1), of a "hd path"] by (cases path) auto
qed simp

text \<open>
  C16. A cascade settles. It takes the entity along automated transitions of its workflow only, at most
  \<^verbatim>\<open>maxCascadeDepth\<close> of them. When it returns without an error, no state was visited more often than the
  engine's limit, and every automated transition out of the settled state is guarded by a criterion that
  was evaluated to false on the settled entity. In a workflow that passed the structural validation a
  cascade that starts in a declared state never leaves the declared states.
\<close>

theorem cascade_settles:
  "case run_state (cascadeAutomated e ctx wfd audit txID) s of
     ((_, _, r), s') \<Rightarrow>
       \<exists>path. path \<noteq> [] \<and> hd path = stateOf s \<and> last path = stateOf s' \<and> successively (autoStep wfd) path \<and>
         length path \<le> Suc maxCascadeDepth \<and>
         (r = Inr () \<longrightarrow> settled e wfd (es_Entity s') \<and>
            (\<forall>x \<in> set path. int (count_list path x) \<le> e_MaxStateVisits e)) \<and>
         (validateWorkflowStructure cc wfd = Ok () \<and> stateDef_of wfd (stateOf s) \<noteq> None \<longrightarrow>
            (\<forall>x \<in> set path. stateDef_of wfd x \<noteq> None))"
proof -
  obtain ctx' cur' r s' where run: "run_state (cascadeAutomated e ctx wfd audit txID) s = ((ctx', cur', r), s')"
    by (metis prod.exhaust)
  then obtain path where "cascadePath e wfd maxCascadeDepth (\<lambda>_. 0) path s r s'"
    using cascadeLoop_path unfolding cascadeAutomated_def by blast
  then show ?thesis
    unfolding run using validated_path [of cc wfd path] by (intro case_prodI exI [of _ path]) (auto simp: cascadePath_def)
qed

theorem cascade_settles_witness:
  "let s = startState NewStoreFactory ((mkEntity ''d'' ''x'' ''NONE'' ''1''));
       r = run_state (cascadeAutomated plainEngine (ctxOf ''t'' None) defaultWorkflow (Some ''t'') ''x'') s
   in snd (snd (fst r)) = Inr () \<and> stateOf (snd r) = ''CREATED'' \<and> settled plainEngine defaultWorkflow (es_Entity (snd r)) \<and>
      (\<exists>path. hd path = ''NONE'' \<and> last path = ''CREATED'' \<and> (\<forall>x \<in> set path. stateDef_of defaultWorkflow x \<noteq> None))"
proof -
  let ?s = "startState NewStoreFactory (mkEntity ''d'' ''x'' ''NONE'' ''1'')"
  let ?r = "run_state (cascadeAutomated plainEngine (ctxOf ''t'' None) defaultWorkflow (Some ''t'') ''x'') ?s"
  have run: "snd (snd (fst ?r)) = Inr ()" "stateOf (snd ?r) = ''CREATED''" "stateOf ?s = ''NONE''"
    "validateWorkflowStructure noChecks defaultWorkflow = Ok ()" "stateDef_of defaultWorkflow ''NONE'' \<noteq> None"
    by code_simp+
  obtain a b c s' where r: "?r = ((a, b, c), s')" by (metis prod.exhaust)
  from cascade_settles [where e = plainEngine and ctx = "ctxOf ''t'' None" and wfd = defaultWorkflow and audit = "Some ''t''"
      and txID = "''x''" and s = ?s and cc = noChecks]
  show ?thesis using run unfolding r Let_def by auto
qed

end
