(* ===== verification/WfSegments.thy ===== *)
theory WfSegments
  imports WfCascade MemConcurrent
begin

text \<open>
  The transaction segments an engine call opens. A COMMIT\<open>_\<close>BEFORE\<open>_\<close>DISPATCH processor commits the current
  segment and begins another one; the engine owns every segment it began until it hands the last one to
  its caller. The theorem at the end says that no segment is left open on any path.

  Callouts may do anything to the stores except reuse an id of the engine's UUID supply: \<open>calm I f g\<close> says
  that the step from \<open>f\<close> to \<open>g\<close> activates no transaction with an id in \<open>I\<close> and keeps the tenant of those that
  stay active.
\<close>

definition activeIn :: "StoreFactory \<Rightarrow> txid set" where
  "activeIn f = set (tm_active (sf_txManager f))"

definition tenantOf :: "StoreFactory \<Rightarrow> txid \<Rightarrow> tenant option" where
  "tenantOf f t = map_option tx_TenantID (sf_txHeap f t)"

definition calm :: "txid set \<Rightarrow> StoreFactory \<Rightarrow> StoreFactory \<Rightarrow> bool" where
  "calm I f g \<longleftrightarrow> activeIn g \<inter> I \<subseteq> activeIn f \<and> (\<forall>t \<in> activeIn g \<inter> I. tenantOf g t = tenantOf f t)"

definition tidyCall :: "txid set \<Rightarrow> (Stores \<Rightarrow> 'a \<times> Stores) \<Rightarrow> bool" where
  "tidyCall I g \<longleftrightarrow> (\<forall>db. calm I (db_Factory db) (db_Factory (snd (g db))))"

definition tidy :: "Engine \<Rightarrow> bool" where
  "tidy e \<longleftrightarrow> [] \<notin> range (e_NewUUID e) \<and>
     (case e_ExtProc e of
        None \<Rightarrow> True
      | Some xp \<Rightarrow>
          (\<forall>ctx ent p w t x. tidyCall (range (e_NewUUID e)) (xp_Processor xp ctx ent p w t x)) \<and>
          (\<forall>ctx ent c g w t x. tidyCall (range (e_NewUUID e)) (xp_Criteria xp ctx ent c g w t x)) \<and>
          (\<forall>ctx ent fn w t x. tidyCall (range (e_NewUUID e)) (xp_Function xp ctx ent fn w t x)))"

definition factoryOf :: "EngState \<Rightarrow> StoreFactory" where
  "factoryOf s = db_Factory (es_Stores s)"

definition calms :: "txid set \<Rightarrow> 'a eng \<Rightarrow> bool" where
  "calms I m \<longleftrightarrow> (\<forall>s. calm I (factoryOf s) (factoryOf (snd (run_state m s))))"

text \<open>Programs with a precondition and a postcondition on result and state.\<close>

definition holds :: "(EngState \<Rightarrow> bool) \<Rightarrow> 'a eng \<Rightarrow> ('a \<Rightarrow> EngState \<Rightarrow> bool) \<Rightarrow> bool" where
  "holds P m Q \<longleftrightarrow> (\<forall>s. P s \<longrightarrow> Q (fst (run_state m s)) (snd (run_state m s)))"

text \<open>
  With the ids \<open>I\<close> of the engine, the ids \<open>A\<close> active at the start and the caller's transaction \<open>entry\<close>: the
  current segment \<open>cur\<close> is the only one the engine holds open; after its commit it holds none.
\<close>

definition owns :: "txid set \<Rightarrow> txid set \<Rightarrow> txid \<Rightarrow> tenant \<Rightarrow> txid \<Rightarrow> EngState \<Rightarrow> bool" where
  "owns I A entry tid cur s \<longleftrightarrow>
     activeIn (factoryOf s) \<inter> I \<subseteq> A \<union> {entry, cur} \<and>
     (cur = entry \<or> cur \<in> I \<and> (cur \<in> activeIn (factoryOf s) \<longrightarrow> tenantOf (factoryOf s) cur = Some tid))"

definition ownsNone :: "txid set \<Rightarrow> txid set \<Rightarrow> txid \<Rightarrow> txid \<Rightarrow> EngState \<Rightarrow> bool" where
  "ownsNone I A entry cur s \<longleftrightarrow>
     activeIn (factoryOf s) \<inter> I \<subseteq> A \<union> {entry} \<and> (cur = entry \<or> cur \<in> I \<and> cur \<notin> activeIn (factoryOf s))"

definition ownsNext :: "txid set \<Rightarrow> txid set \<Rightarrow> txid \<Rightarrow> tenant \<Rightarrow> txid \<Rightarrow> txid \<Rightarrow> EngState \<Rightarrow> bool" where
  "ownsNext I A entry tid cur new s \<longleftrightarrow>
     activeIn (factoryOf s) \<inter> I \<subseteq> A \<union> {entry, new} \<and>
     new \<in> I \<and> (new \<in> activeIn (factoryOf s) \<longrightarrow> tenantOf (factoryOf s) new = Some tid) \<and>
     (cur = entry \<or> cur \<in> I \<and> (cur \<in> activeIn (factoryOf s) \<longrightarrow> cur = new))"

definition handed ::
  "txid set \<Rightarrow> txid set \<Rightarrow> txid \<Rightarrow> tenant \<Rightarrow> Ctx \<times> txid \<times> 'a \<Rightarrow> EngState \<Rightarrow> bool" where
  "handed I A entry tid = (\<lambda>(ctx, cur, _) s. c_User ctx = Some tid \<and> owns I A entry tid cur s)"

definition replaced ::
  "txid set \<Rightarrow> txid set \<Rightarrow> txid \<Rightarrow> tenant \<Rightarrow> txid \<Rightarrow> (Ctx \<times> txid) eresult \<Rightarrow> EngState \<Rightarrow> bool" where
  "replaced I A entry tid cur r s \<longleftrightarrow>
     (case r of
        Inl _ \<Rightarrow> owns I A entry tid cur s
      | Inr (ctx, new) \<Rightarrow> c_User ctx = Some tid \<and> owns I A entry tid new s)"

definition released ::
  "txid set \<Rightarrow> txid set \<Rightarrow> txid \<Rightarrow> tenant \<Rightarrow> EngineResult eresult \<Rightarrow> EngState \<Rightarrow> bool" where
  "released I A entry tid r s \<longleftrightarrow>
     (case r of
        Inl _ \<Rightarrow> ownsNone I A entry entry s
      | Inr res \<Rightarrow> owns I A entry tid (er_FinalTxID res) s \<and> c_User (er_FinalCtx res) = Some tid \<and>
                  (er_Segmented res \<longleftrightarrow> er_FinalTxID res \<noteq> entry))"

definition starts :: "txid set \<Rightarrow> txid \<Rightarrow> tenant \<Rightarrow> StoreFactory \<Rightarrow> EngState \<Rightarrow> bool" where
  "starts I entry tid f s \<longleftrightarrow> m_TransactionID (Meta (es_Entity s)) = entry \<and> owns I (activeIn f) entry tid entry s"

text \<open>A workflow whose first transition has a COMMIT\<open>_\<close>BEFORE\<open>_\<close>DISPATCH processor, and a store with an open transaction.\<close>

definition segWorkflow :: WorkflowDefinition where
  "segWorkflow = defaultWorkflow\<lparr>wf_InitialState := ''A'', wf_States :=
     [(''A'', plainState [(plainTransition ''go'' ''B'' False)\<lparr>tr_Processors :=
        [\<lparr>pr_Type = [], pr_Name = ''p'', pr_ExecutionMode = ''COMMIT_BEFORE_DISPATCH'',
          pr_Config = \<lparr>cfg_AttachEntity = True, cfg_RetryPolicy = [], cfg_AsyncResult = None,
             cfg_CrossoverToAsyncMs = None, cfg_StartNewTxOnDispatch = Some True\<rparr>, pr_Annotations = []\<rparr>]\<rparr>]),
      (''B'', plainState [])]\<rparr>"

definition silentExt :: "bool \<Rightarrow> ExtProc" where
  "silentExt ok =
     \<lparr>xp_Processor = (\<lambda>_ _ _ _ _ _ db. (if ok then Inr None else Inl EInternal, db)),
      xp_Criteria = (\<lambda>_ _ _ _ _ _ _ db. (Inr (True, []), db)), xp_Function = (\<lambda>_ _ _ _ _ _ db. (Inl EInternal, db))\<rparr>"

definition segEngine :: "bool \<Rightarrow> Engine" where
  "segEngine ok = plainEngine\<lparr>e_ExtProc := Some (silentExt ok), e_DefaultWorkflows := [segWorkflow]\<rparr>"

definition begunStore :: StoreFactory where
  "begunStore = snd (Begin ''x'' 6 (ctxOf ''t'' None) NewStoreFactory)"

lemma calm_refl: "calm I f f" by (simp add: calm_def)

lemma calm_trans: "calm I f g \<Longrightarrow> calm I g h \<Longrightarrow> calm I f h" unfolding calm_def by fastforce

lemma quiet_calm: "quiet ot f g \<Longrightarrow> calm I f g"
proof -
  assume q: "quiet ot f g"
  have "tenantOf g t = tenantOf f t" for t
  proof -
    have "map_option txFrame (sf_txHeap g t) = map_option txFrame (sf_txHeap f t)" using q by (simp add: quiet_def)
    then show ?thesis by (cases "sf_txHeap g t"; cases "sf_txHeap f t") (auto simp: tenantOf_def txFrame_def)
  qed
  moreover have "activeIn g = activeIn f" using q by (simp add: quiet_def managerFrame_def activeIn_def)
  ultimately show ?thesis by (simp add: calm_def)
qed

lemma calm_frame: "tm_active (sf_txManager g) = tm_active (sf_txManager f) \<Longrightarrow> sf_txHeap g = sf_txHeap f \<Longrightarrow> calm I f g"
  by (simp add: calm_def activeIn_def tenantOf_def)

lemma tenantOf_closeTx [simp]: "tenantOf (closeTx t f) x = tenantOf f x"
  by (auto simp: tenantOf_def closeTx_def option.map_comp comp_def)

lemma tenantOf_set_tm [simp]: "tenantOf (set_tm h f) x = tenantOf f x" by (simp add: tenantOf_def)

lemma Commit_active:
  assumes "Commit cc n1 n2 ctx t f = (r, g)"
  shows "activeIn g \<subseteq> activeIn f" "tenantOf g x = tenantOf f x" "r = Ok () \<Longrightarrow> t \<notin> activeIn g"
proof -
  have "activeIn g \<subseteq> activeIn f \<and> (\<forall>x. tenantOf g x = tenantOf f x) \<and> (r = Ok () \<longrightarrow> t \<notin> activeIn g)"
  proof (cases "commit_enter ctx t f")
    case (Inr f1)
    then obtain tx where f1: "f1 = set_tm (\<lambda>m. m\<lparr>tm_committing := t # tm_committing m\<rparr>) f" and tx: "active_tx f1 t = Some tx"
      using commit_enter_frame [OF Inr] by (auto simp: active_tx_def)
    obtain r' h where b: "commit_body cc n1 n2 ctx t tx f1 = (r', h)" by (rule prod.exhaust)
    have "activeIn h \<subseteq> activeIn f1 \<and> (\<forall>x. tenantOf h x = tenantOf f1 x) \<and> (r' = Ok () \<longrightarrow> t \<notin> activeIn h)"
      using b commit_check_state [of t tx f1]
      by (auto simp: commit_body_def activeIn_def tenantOf_def commit_record_manager nextSubmitTime_def Let_def
          split: sum.splits prod.splits)
    then show ?thesis using assms Inr tx b f1 by (auto simp: Commit_def activeIn_def)
  qed (use assms in \<open>auto simp: Commit_def\<close>)
  then show "activeIn g \<subseteq> activeIn f" "tenantOf g x = tenantOf f x" "r = Ok () \<Longrightarrow> t \<notin> activeIn g" by simp_all
qed

lemma Rollback_active:
  assumes "t \<in> activeIn f \<Longrightarrow> tenantOf f t = Some tid" "c_User ctx = Some tid"
  shows "activeIn (snd (Rollback ctx t f)) = activeIn f - {t}"
  using assms by (auto simp: Rollback_def rollback_enter_def active_tx_def activeIn_def tenantOf_def split: option.split)

lemma Rollback_calm: "calm I f (snd (Rollback ctx t f))"
  by (auto simp: calm_def Rollback_def activeIn_def tenantOf_def rollback_body_def markRolledBack_def closeTx_def
      split: sum.split)

lemma Begin_active:
  assumes "Begin i n ctx f = (Ok (t, ctx'), g)"
  shows "t = i" "activeIn g = insert i (activeIn f)" "tenantOf g i = c_User ctx" "x \<noteq> i \<Longrightarrow> tenantOf g x = tenantOf f x"
    "c_User ctx' = c_User ctx"
  using assms
  by (auto simp: Begin_def activeIn_def tenantOf_def WithTransaction_def reserveSnapshotTime_def Let_def
      split: option.splits if_splits prod.splits)

lemma Begin_fails: "Begin i n ctx f = (Err err, g) \<Longrightarrow> g = f"
  by (auto simp: Begin_def Let_def split: option.splits if_splits prod.splits)

lemma stage_calm: "calm I f (snd (scheduledTaskStore_stage ctx op f))"
  by (auto simp: scheduledTaskStore_stage_def stageScheduledTaskOp_def intro!: calm_frame split: option.split)

lemma task_writes_calm:
  "calm I f (snd (upsertAll ctx ts f))" "calm I f (snd (deleteTasks ctx is f))"
proof -
  show "calm I f (snd (upsertAll ctx ts f))"
  proof (induction ts arbitrary: f)
    case (Cons t ts)
    show ?case using stage_calm [of I f ctx "scheduledTaskUpsert (st_ID t) t"] Cons
      by (auto simp: scheduledTaskStore_Upsert_def split: prod.split sum.split intro: calm_trans)
  qed (simp add: calm_refl)
  show "calm I f (snd (deleteTasks ctx is f))"
  proof (induction "is" arbitrary: f)
    case (Cons i "is")
    show ?case using stage_calm [of I f ctx "scheduledTaskDelete i"] Cons
      by (auto simp: scheduledTaskStore_Delete_def Let_def split: prod.split sum.split intro: calm_trans)
  qed (simp add: calm_refl)
qed

lemma reconcile_calm: "calm I f (snd (scheduledTaskStore_ReconcileForEntity ctx req f))"
proof -
  obtain a f1 where 1: "upsertAll ctx (rr_Arm req) f = (a, f1)" by (rule prod.exhaust)
  obtain b f2 where 2: "deleteTasks ctx (map st_ID (filter (leftBehind req) (map snd (sf_scheduledTasks f)))) f1 = (b, f2)"
    by (rule prod.exhaust)
  obtain c f3 where 3: "deleteTasks ctx (rr_Cancel req) f2 = (c, f3)" by (rule prod.exhaust)
  have "calm I f f1" "calm I f1 f2" "calm I f2 f3"
    using task_writes_calm(1) [of I f ctx] task_writes_calm(2) [of I _ ctx] 1 2 3 by (metis snd_conv)+
  then have "calm I f f1" "calm I f f2" "calm I f f3" by (blast intro: calm_trans)+
  then show ?thesis
    unfolding scheduledTaskStore_ReconcileForEntity_def Let_def 1 2 3 prod.case by (simp add: 2 3 split: sum.split)
qed

subsection \<open>Steps that open no segment\<close>

lemma run_onFactory [simp]:
  "run_state (onFactory h) s =
     (fst (h (factoryOf s)), s\<lparr>es_Stores := (es_Stores s)\<lparr>db_Factory := snd (h (factoryOf s))\<rparr>\<rparr>)"
  by (simp add: onFactory_def factoryOf_def split: prod.split)

lemma calms_ret: "calms I (ret x)" by (simp add: calms_def calm_refl)

lemma calms_bind:
  assumes "calms I m" "\<And>x. calms I (g x)" shows "calms I (State_Monad.bind m g)"
  unfolding calms_def
proof
  fix s
  obtain x s1 where m: "run_state m s = (x, s1)" by (rule prod.exhaust)
  have "calm I (factoryOf s) (factoryOf s1)" using assms(1) m unfolding calms_def by (metis snd_conv)
  moreover have "calm I (factoryOf s1) (factoryOf (snd (run_state (g x) s1)))" using assms(2) unfolding calms_def by blast
  ultimately show "calm I (factoryOf s) (factoryOf (snd (run_state (State_Monad.bind m g) s)))"
    using m by (auto intro: calm_trans)
qed

lemma calms_prims:
  "calms I (reads f)" "calms I drawTick" "calms I consumeIfMatch" "calms I (recordEvent audit txID st ty d)"
  by (simp_all add: calms_def calm_refl factoryOf_def recordEvent_def Let_def split: option.split)

lemma calms_modifies: "(\<And>s. factoryOf (g s) = factoryOf s) \<Longrightarrow> calms I (modifies g)"
  by (simp add: calms_def calm_refl)

lemma calms_onFactory: "(\<And>f. calm I f (snd (h f))) \<Longrightarrow> calms I (onFactory h)"
  by (simp add: calms_def factoryOf_def)

lemma calms_onStores: "tidyCall I h \<Longrightarrow> calms I (onStores h)"
  by (simp add: calms_def tidyCall_def factoryOf_def)

lemmas calms_intros = calms_ret calms_bind calms_prims calms_modifies

lemma calms_basics:
  "calms I (newUUID e)" "calms I (now e)" "calms I (recordHere audit txID ty d)" "calms I (rollbackSegment ctx a b)"
  "calms I (setState st)" "calms I (resolveAuditTxID e)" "calms I (withIfMatch x)"
  by (auto simp: newUUID_def now_def recordHere_def rollbackSegment_def setState_def resolveAuditTxID_def withIfMatch_def
      factoryOf_def intro!: calms_intros calms_onFactory Rollback_calm)

lemma calms_recordAll: "calms I (recordAll audit txID ty xs)"
  by (induction audit txID ty xs rule: recordAll.induct) (auto intro!: calms_intros)

lemma calms_store_steps:
  "calms I (saveEntity e ctx tid)" "calms I (compareAndSaveEntity e ctx tid x)"
  by (auto simp: saveEntity_def compareAndSaveEntity_def
      intro!: calms_intros calms_basics calms_onFactory quiet_calm [OF quiet_Save] quiet_calm [OF quiet_CompareAndSave])

lemma calms_applyProcessorData: "calms I (applyProcessorData e ctx d)"
  unfolding applyProcessorData_def descriptor_def Let_def
  by (auto intro!: calms_intros calms_onStores simp: factoryOf_def tidyCall_def calm_refl split: sum.split option.split prod.split)

lemma calms_flushFailed: "calms I (flushFailed ctx audit entry t x err)"
  unfolding flushFailed_def recordAbortForIfMatchConflict_def LookupActualTxID_def Let_def
  by (auto intro!: calms_intros calms_basics calms_onFactory quiet_calm [OF quiet_reads(1)] split: sum.split)

lemma tidy_calls:
  assumes "tidy e" "e_ExtProc e = Some xp"
  shows "tidyCall (range (e_NewUUID e)) (xp_Processor xp ctx ent p w t x)"
    "tidyCall (range (e_NewUUID e)) (xp_Criteria xp ctx ent c g w t x)"
    "tidyCall (range (e_NewUUID e)) (xp_Function xp ctx ent fn w t x)"
  using assms by (simp_all add: tidy_def)

lemma calms_callouts:
  assumes "tidy e"
  shows "calms (range (e_NewUUID e)) (evaluateCriterion e c ctx txID target w t)"
    "calms (range (e_NewUUID e)) (dispatchProcessor e ctx proc w t x)"
    "calms (range (e_NewUUID e)) (armViaFunction e ctx wfd tr fn i armMs txID)"
  unfolding evaluateCriterion_def dispatchProcessor_def armViaFunction_def
  by (auto intro!: calms_intros calms_onStores tidy_calls [OF assms] split: option.split Condition.split)

lemma calms_selectLoop: "tidy e \<Longrightarrow> calms (range (e_NewUUID e)) (selectLoop e ctx wfds audit txID)"
proof (induction wfds)
  case (Cons wfd wfds)
  then show ?case by (auto intro!: calms_intros calms_basics calms_callouts split: sum.split)
qed (simp add: calms_ret)

lemma calms_resolveWorkflow: "tidy e \<Longrightarrow> calms (range (e_NewUUID e)) (resolveWorkflow e ctx audit txID)"
  unfolding resolveWorkflow_def resolveWorkflowWith_def selectWorkflow_def
  by (auto intro!: calms_intros calms_basics calms_selectLoop calms_callouts split: sum.split list.split option.split)

lemma calms_armLoop: "tidy e \<Longrightarrow> calms (range (e_NewUUID e)) (armLoop e ctx wfd armMs txID trs)"
proof (induction trs)
  case (Cons tr trs)
  then show ?case by (auto simp: Let_def intro!: calms_intros calms_callouts split: sum.split option.split)
qed (simp add: calms_ret)

lemma calms_reconcile: "tidy e \<Longrightarrow> calms (range (e_NewUUID e)) (reconcileScheduledTasks e ctx wfd txID audit supp)"
  unfolding reconcileScheduledTasks_def Let_def
  by (auto intro!: calms_intros calms_basics calms_armLoop calms_recordAll calms_onFactory reconcile_calm
      split: sum.split option.split)

lemma calms_processors:
  assumes "tidy e"
  shows "calms (range (e_NewUUID e)) (executeSyncProcessor e ctx proc w t x)"
    "calms (range (e_NewUUID e)) (executeAsyncNewTx e ctx proc w t x)"
    "calms (range (e_NewUUID e)) (applyAfterDispatch e ctx pending x)"
  unfolding executeSyncProcessor_def executeAsyncNewTx_def applyAfterDispatch_def
  by (auto intro!: calms_intros calms_basics calms_callouts [OF assms] calms_applyProcessorData calms_store_steps calms_onFactory
      quiet_calm [OF quiet_savepoints(1)] quiet_calm [OF quiet_savepoints(2)] quiet_calm [OF quiet_savepoints(3)]
      split: sum.split option.split)


subsection \<open>Who owns the open segment\<close>

lemma holds_ret: "(\<And>s. P s \<Longrightarrow> Q x s) \<Longrightarrow> holds P (ret x) Q" by (simp add: holds_def)

lemma holds_bind:
  assumes "holds P m R" "\<And>x. holds (R x) (g x) Q" shows "holds P (State_Monad.bind m g) Q"
  unfolding holds_def
proof (intro allI impI)
  fix s assume "P s"
  obtain x s1 where m: "run_state m s = (x, s1)" by (rule prod.exhaust)
  have "R x s1" using assms(1) \<open>P s\<close> m unfolding holds_def by (metis fst_conv snd_conv)
  then show "Q (fst (run_state (State_Monad.bind m g) s)) (snd (run_state (State_Monad.bind m g) s))"
    using assms(2) [of x] m unfolding holds_def by simp
qed

lemma holds_bind_sum:
  assumes "holds P m (\<lambda>r s. case r of Inl err \<Rightarrow> R err s | Inr x \<Rightarrow> S x s)"
    and "\<And>err. holds (R err) (g (Inl err)) Q" "\<And>x. holds (S x) (g (Inr x)) Q"
  shows "holds P (State_Monad.bind m g) Q"
proof (rule holds_bind [OF assms(1)])
  show "holds (\<lambda>s. case r of Inl err \<Rightarrow> R err s | Inr x \<Rightarrow> S x s) (g r) Q" for r using assms(2,3) by (cases r) simp_all
qed

lemma holds_conseq: "holds P m Q \<Longrightarrow> (\<And>s. P' s \<Longrightarrow> P s) \<Longrightarrow> (\<And>x s. Q x s \<Longrightarrow> Q' x s) \<Longrightarrow> holds P' m Q'"
  by (auto simp: holds_def)

lemma holds_pure: "(p \<Longrightarrow> holds P m Q) \<Longrightarrow> holds (\<lambda>s. p \<and> P s) m Q"
  by (auto simp: holds_def)

lemma holds_calm:
  assumes "calms I m"
  shows "holds (owns I A entry tid cur) m (\<lambda>_. owns I A entry tid cur)"
    "holds (ownsNone I A entry cur) m (\<lambda>_. ownsNone I A entry cur)"
    "holds (ownsNext I A entry tid cur new) m (\<lambda>_. ownsNext I A entry tid cur new)"
  using assms unfolding holds_def calms_def calm_def owns_def ownsNone_def ownsNext_def by fastforce+

lemma holds_calm_bind:
  assumes "calms I m"
  shows "(\<And>x. holds (owns I A entry tid cur) (g x) Q) \<Longrightarrow> holds (owns I A entry tid cur) (State_Monad.bind m g) Q"
    "(\<And>x. holds (ownsNone I A entry cur) (g x) Q) \<Longrightarrow> holds (ownsNone I A entry cur) (State_Monad.bind m g) Q"
    "(\<And>x. holds (ownsNext I A entry tid cur new) (g x) Q) \<Longrightarrow> holds (ownsNext I A entry tid cur new) (State_Monad.bind m g) Q"
  by (rule holds_bind, rule holds_calm [OF assms], assumption)+

lemma ownsNone_owns: "ownsNone I A entry cur s \<Longrightarrow> owns I A entry tid cur s"
  by (auto simp: owns_def ownsNone_def)

lemma ownsNext_owns: "ownsNext I A entry tid cur new s \<Longrightarrow> owns I A entry tid new s"
  by (auto simp: owns_def ownsNext_def)

lemma factoryOf_update [simp]: "factoryOf (s\<lparr>es_Stores := (es_Stores s)\<lparr>db_Factory := f\<rparr>\<rparr>) = f"
  by (simp add: factoryOf_def)

lemma factoryOf_tick [simp]: "factoryOf (s\<lparr>es_Tick := n\<rparr>) = factoryOf s" by (simp add: factoryOf_def)

lemma commitTx_owns:
  "holds (owns I A entry tid cur) (commitTx e ctx cur)
     (\<lambda>r s. case r of Inl _ \<Rightarrow> owns I A entry tid cur s | Inr _ \<Rightarrow> ownsNone I A entry cur s)"
  unfolding commitTx_def
proof (intro holds_calm_bind(1) [OF calms_basics(2)])
  fix n1 n2
  let ?m = "onFactory (Commit (e_Claims e) n1 n2 ctx cur)"
  have "case fst (run_state ?m s) of Inl _ \<Rightarrow> owns I A entry tid cur (snd (run_state ?m s))
     | Inr _ \<Rightarrow> ownsNone I A entry cur (snd (run_state ?m s))" if "owns I A entry tid cur s" for s
  proof -
    obtain r g where c: "Commit (e_Claims e) n1 n2 ctx cur (factoryOf s) = (r, g)" by (rule prod.exhaust)
    show ?thesis using that Commit_active [OF c] by (auto simp: c owns_def ownsNone_def split: sum.split)
  qed
  then show "holds (owns I A entry tid cur) ?m
     (\<lambda>r s. case r of Inl _ \<Rightarrow> owns I A entry tid cur s | Inr _ \<Rightarrow> ownsNone I A entry cur s)"
    unfolding holds_def by blast
qed

lemma flushAndCommitSegment_owns:
  "holds (owns I A entry tid cur) (flushAndCommitSegment e ctx cur x)
     (\<lambda>r s. case r of Inl _ \<Rightarrow> owns I A entry tid cur s | Inr _ \<Rightarrow> ownsNone I A entry cur s)"
  unfolding flushAndCommitSegment_def
  by (auto intro!: holds_ret holds_calm_bind(1) [OF calms_store_steps(1)] holds_calm_bind(1) [OF calms_store_steps(2)]
      holds_bind [OF commitTx_owns] split: sum.split) (auto split: sum.splits)

lemma beginNext_owns:
  assumes "c_User ctx = Some tid"
  shows "holds (ownsNone (range (e_NewUUID e)) A entry cur) (beginNext e ctx)
     (\<lambda>r s. case r of
        Inl _ \<Rightarrow> ownsNone (range (e_NewUUID e)) A entry cur s
      | Inr (new, newCtx) \<Rightarrow> c_User newCtx = Some tid \<and> ownsNext (range (e_NewUUID e)) A entry tid cur new s)"
  unfolding holds_def
proof (intro allI impI)
  let ?I = "range (e_NewUUID e)"
  fix s assume o: "ownsNone ?I A entry cur s"
  let ?i = "e_NewUUID e (es_Tick s)" and ?n = "e_Clock e (Suc (es_Tick s))"
  obtain r g where b: "Begin ?i ?n (withoutCancel ctx) (factoryOf s) = (r, g)" by (rule prod.exhaust)
  have run: "run_state (beginNext e ctx) s =
      (case r of Inl err \<Rightarrow> Inl (ECommitBeforeDispatchInfra err) | Inr p \<Rightarrow> Inr p,
       s\<lparr>es_Tick := Suc (Suc (es_Tick s)), es_Stores := (es_Stores s)\<lparr>db_Factory := g\<rparr>\<rparr>)"
    using b by (simp add: beginNext_def beginTx_def newUUID_def now_def)
  show "case fst (run_state (beginNext e ctx) s) of
      Inl _ \<Rightarrow> ownsNone ?I A entry cur (snd (run_state (beginNext e ctx) s))
    | Inr (new, newCtx) \<Rightarrow> c_User newCtx = Some tid \<and> ownsNext ?I A entry tid cur new (snd (run_state (beginNext e ctx) s))"
  proof (cases r)
    case (Inl err)
    have "g = factoryOf s" using Begin_fails b Inl by blast
    then show ?thesis using o Inl unfolding run by (simp add: ownsNone_def factoryOf_def)
  next
    case (Inr p)
    obtain t c where p: "p = (t, c)" by (rule prod.exhaust)
    note bg = Begin_active [OF b [unfolded Inr p]]
    have "c_User (withoutCancel ctx) = Some tid" using assms by (simp add: withoutCancel_def)
    then show ?thesis using o bg unfolding run Inr p by (auto simp: ownsNone_def ownsNext_def factoryOf_def)
  qed
qed

text \<open>Releasing the current segment, where the caller of \<^verbatim>\<open>rollbackSegment\<close> keeps \<open>keep\<close>.\<close>

lemma rollbackSegment_owns:
  assumes "c_User ctx = Some tid" "[] \<notin> I"
  shows "holds (ownsNext I A entry tid cur new) (rollbackSegment ctx new cur) (\<lambda>_. owns I A entry tid cur)"
    "entry \<noteq> [] \<Longrightarrow> holds (owns I A entry tid cur) (rollbackSegment ctx cur entry) (\<lambda>_. ownsNone I A entry entry)"
proof -
  have act: "activeIn (snd (Rollback (withoutCancel ctx) t (factoryOf s))) = activeIn (factoryOf s) - {t}"
    if "t \<in> activeIn (factoryOf s) \<longrightarrow> tenantOf (factoryOf s) t = Some tid" for t s
    using that assms(1) by (intro Rollback_active [of _ _ tid]) (auto simp: withoutCancel_def)
  show "holds (ownsNext I A entry tid cur new) (rollbackSegment ctx new cur) (\<lambda>_. owns I A entry tid cur)"
    using assms(2) act unfolding holds_def ownsNext_def rollbackSegment_def by (auto simp: owns_def)
  show "entry \<noteq> [] \<Longrightarrow> holds (owns I A entry tid cur) (rollbackSegment ctx cur entry) (\<lambda>_. ownsNone I A entry entry)"
    using assms(2) act unfolding holds_def owns_def rollbackSegment_def by (auto simp: ownsNone_def)
qed

text \<open>The results of the engine's loops: the context and the id of the segment that is open now.\<close>

lemma commitAndBeginNextSegment_owns:
  assumes "c_User ctx = Some tid"
  shows "holds (owns (range (e_NewUUID e)) A entry tid cur) (commitAndBeginNextSegment e ctx cur x)
     (\<lambda>r s. case r of
        Inl _ \<Rightarrow> owns (range (e_NewUUID e)) A entry tid cur s
      | Inr (new, newCtx) \<Rightarrow> c_User newCtx = Some tid \<and> ownsNext (range (e_NewUUID e)) A entry tid cur new s)"
  unfolding commitAndBeginNextSegment_def
  by (rule holds_bind [OF flushAndCommitSegment_owns])
     (auto intro!: holds_ret holds_conseq [OF beginNext_owns [OF assms]] ownsNone_owns split: sum.split sum.splits)

lemma finishSegment_owns:
  assumes "tidy e" "c_User newCtx = Some tid"
  shows "holds (ownsNext (range (e_NewUUID e)) A entry tid cur new) (finishSegment e newCtx new pending cur)
     (replaced (range (e_NewUUID e)) A entry tid cur)"
  unfolding finishSegment_def orRollback_def
  using assms
  by (auto intro!: holds_calm_bind(3) [OF calms_processors(3) [OF assms(1)]] holds_ret holds_bind [OF rollbackSegment_owns(1)]
      ownsNext_owns simp: tidy_def replaced_def split: sum.split)

lemma executeCommitBeforeDispatch_owns:
  assumes "tidy e" "c_User ctx = Some tid"
  shows "holds (owns (range (e_NewUUID e)) A entry tid cur) (executeCommitBeforeDispatch e ctx proc w t cur audit entryTx)
     (replaced (range (e_NewUUID e)) A entry tid cur)" (is "holds ?P _ ?Q")
proof -
  let ?I = "range (e_NewUUID e)"
  have fin: "holds (\<lambda>s. c_User newCtx = Some tid \<and> ownsNext ?I A entry tid cur new s) (finishSegment e newCtx new p cur) ?Q"
    for newCtx new p
    by (rule holds_pure) (rule finishSegment_owns [OF assms(1)])
  have failed: "holds ?P (flushFailed ctx audit entryTx t x err) ?Q" for x err
    unfolding flushFailed_def recordAbortForIfMatchConflict_def LookupActualTxID_def Let_def
    by (intro holds_calm_bind(1) holds_ret)
       (auto intro!: calms_intros calms_basics calms_onFactory quiet_calm [OF quiet_reads(1)] simp: replaced_def split: sum.split)
  have rb: "holds (ownsNext ?I A entry tid cur new) (orRollback newCtx new cur (Inl err)) ?Q"
    if "c_User newCtx = Some tid" for newCtx new err
    unfolding orRollback_def using that assms(1)
    by (auto intro!: holds_bind [OF rollbackSegment_owns(1)] holds_ret simp: tidy_def replaced_def)
  have joined: "holds (\<lambda>s. c_User newCtx = Some tid \<and> ownsNext ?I A entry tid cur new s)
      (do { d \<leftarrow> dispatchProcessor e newCtx proc w t new;
            case d of Inl err \<Rightarrow> orRollback newCtx new cur (Inl err) | Inr p \<Rightarrow> finishSegment e newCtx new p cur }) ?Q"
    for newCtx new
    by (rule holds_pure, rule holds_calm_bind(3) [OF calms_callouts(2) [OF assms(1)]])
       (auto intro: rb finishSegment_owns [OF assms(1)] split: sum.split)
  have detached: "holds (ownsNone ?I A entry cur)
      (do { d \<leftarrow> dispatchProcessor e ctx' proc w t x;
            case d of
              Inl err \<Rightarrow> ret (Inl err)
            | Inr p \<Rightarrow> do { b \<leftarrow> beginNext e ctx;
                           case b of Inl err \<Rightarrow> ret (Inl err) | Inr (new, newCtx) \<Rightarrow> finishSegment e newCtx new p cur } }) ?Q"
    for ctx' x
    by (rule holds_calm_bind(2) [OF calms_callouts(2) [OF assms(1)]])
       (auto intro!: holds_ret ownsNone_owns holds_bind_sum [OF beginNext_owns [OF assms(2)]] fin
          simp: replaced_def split: sum.split prod.split)
  show ?thesis
    unfolding executeCommitBeforeDispatch_def
    by (intro holds_calm_bind(1) [OF calms_prims(3)])
       (auto intro!: holds_bind_sum [OF commitAndBeginNextSegment_owns [OF assms(2)]] holds_bind_sum [OF flushAndCommitSegment_owns]
          failed joined detached)
qed

lemma handed_ret: "c_User c = Some tid \<Longrightarrow> holds (owns I A entry tid t) (ret (c, t, r)) (handed I A entry tid)"
  by (auto intro!: holds_ret simp: handed_def)

lemma handed_bind:
  assumes "holds P m (handed I A entry tid)"
    and "\<And>c t r. c_User c = Some tid \<Longrightarrow> holds (owns I A entry tid t) (g (c, t, r)) Q"
  shows "holds P (State_Monad.bind m g) Q"
  by (rule holds_bind [OF assms(1)]) (auto simp: handed_def split: prod.split intro!: holds_pure assms(2))

lemma processorLoop_owns:
  assumes "tidy e" "c_User ctx = Some tid"
  shows "holds (owns (range (e_NewUUID e)) A entry tid cur) (processorLoop e audit w t txID procs ctx cur)
     (handed (range (e_NewUUID e)) A entry tid)"
  using assms(2)
proof (induction procs arbitrary: ctx cur)
  case Nil
  then show ?case by (simp add: handed_ret)
next
  case (Cons proc procs)
  let ?I = "range (e_NewUUID e)"
  have cbd: "holds (replaced ?I A entry tid cur r)
      (do { recordHere audit txID ''STATE_PROCESS_RESULT'' (pr_Name proc);
            case r of
              Inl err \<Rightarrow> ret (ctx, cur, Inl (EProcessor (pr_Name proc) err))
            | Inr (newCtx, newTxID) \<Rightarrow> processorLoop e audit w t txID procs newCtx newTxID })
      (handed ?I A entry tid)" for r
    using Cons.prems unfolding replaced_def
    by (cases r) (auto intro!: holds_pure holds_calm_bind(1) [OF calms_basics(3)] handed_ret Cons.IH split: prod.split)
  show ?case
    using Cons.prems assms(1)
    by (auto intro!: holds_calm_bind(1) [OF calms_basics(3)] holds_calm_bind(1) [OF calms_processors(1)]
        holds_calm_bind(1) [OF calms_processors(2)] handed_ret Cons.IH
        holds_bind [OF executeCommitBeforeDispatch_owns cbd] split: sum.split)
qed

lemma executeProcessors_owns:
  assumes "tidy e" "c_User ctx = Some tid"
  shows "holds (owns (range (e_NewUUID e)) A entry tid cur) (executeProcessors e ctx procs audit w t cur)
     (handed (range (e_NewUUID e)) A entry tid)"
  unfolding executeProcessors_def using assms
  by (auto intro!: handed_ret processorLoop_owns holds_calm_bind(1) [OF calms_basics(3)] holds_calm_bind(1) [OF calms_modifies]
      simp: factoryOf_def)

lemma calms_criterion:
  "tidy e \<Longrightarrow> calms (range (e_NewUUID e))
     (if hasCriterion c then evaluateCriterion e c ctx txID ''TRANSITION'' w t else ret (Inr (True, [])))"
  by (auto intro: calms_callouts calms_ret)

lemma fireTransition_owns:
  assumes "tidy e" "c_User ctx = Some tid"
  shows "holds (owns (range (e_NewUUID e)) A entry tid cur) (fireTransition e ctx wfd tr audit cur)
     (handed (range (e_NewUUID e)) A entry tid)"
  unfolding fireTransition_def using assms
  by (intro holds_calm_bind(1) [OF calms_criterion])
     (auto intro!: handed_ret holds_calm_bind(1) [OF calms_basics(3)] holds_calm_bind(1) [OF calms_basics(5)]
        handed_bind [OF executeProcessors_owns] split: sum.split prod.split)

lemma attemptTransition_owns:
  assumes "tidy e" "c_User ctx = Some tid"
  shows "holds (owns (range (e_NewUUID e)) A entry tid cur) (attemptTransition e ctx wfd name audit cur)
     (handed (range (e_NewUUID e)) A entry tid)"
  unfolding attemptTransition_def using assms
  by (auto intro!: holds_calm_bind(1) [OF calms_prims(1)] handed_ret holds_calm_bind(1) [OF calms_basics(3)] fireTransition_owns
      split: option.split)

lemma tryTransitions_owns:
  assumes "tidy e" "c_User ctx = Some tid"
  shows "holds (owns (range (e_NewUUID e)) A entry tid cur) (tryTransitions e audit wfd txID trs ctx cur)
     (handed (range (e_NewUUID e)) A entry tid)"
proof (induction trs)
  case Nil
  then show ?case using assms by (simp add: handed_ret)
next
  case (Cons tr trs)
  show ?case
  proof (cases "automated tr")
    case True
    then have step: "tryTransitions e audit wfd txID (tr # trs) ctx cur = do {
        m \<leftarrow> (if hasCriterion (tr_Criterion tr)
             then evaluateCriterion e (tr_Criterion tr) ctx cur ''TRANSITION'' (wf_Name wfd) (tr_Name tr)
             else ret (Inr (True, [])));
        case m of
          Inl err \<Rightarrow> ret (ctx, cur, Inl err)
        | Inr (matched, _) \<Rightarrow>
            if \<not> matched
            then do { recordHere audit txID ''TRANSITION_NOT_MATCH_CRITERION'' (tr_Name tr);
                      tryTransitions e audit wfd txID trs ctx cur }
            else do {
              p \<leftarrow> executeProcessors e ctx (tr_Processors tr) audit (wf_Name wfd) (tr_Name tr) cur;
              case p of
                (newCtx, newTxID, Inl err) \<Rightarrow>
                  do { recordHere audit txID ''STATE_PROCESS_RESULT'' (tr_Name tr); ret (newCtx, newTxID, Inl err) }
              | (newCtx, newTxID, Inr _) \<Rightarrow>
                  do { recordHere audit txID ''TRANSITION_MAKE'' (tr_Name tr);
                       setState (tr_Next tr);
                       ret (newCtx, newTxID, Inr True) } } }"
      by simp
    show ?thesis
      unfolding step using assms Cons.IH
      by (intro holds_calm_bind(1) [OF calms_criterion])
         (auto intro!: handed_ret holds_calm_bind(1) [OF calms_basics(3)] holds_calm_bind(1) [OF calms_basics(5)]
            handed_bind [OF executeProcessors_owns] split: sum.split prod.split)
  qed (use Cons.IH in simp)
qed

lemma cascadeLoop_owns:
  assumes "tidy e" "c_User ctx = Some tid"
  shows "holds (owns (range (e_NewUUID e)) A entry tid cur) (cascadeLoop e audit wfd txID left visits ctx cur)
     (handed (range (e_NewUUID e)) A entry tid)"
  using assms(2)
proof (induction left arbitrary: visits ctx cur)
  case 0
  then show ?case by (auto intro!: holds_calm_bind(1) [OF calms_basics(3)] handed_ret)
next
  case (Suc left)
  then show ?case
    using assms(1)
    by (auto simp: Let_def intro!: holds_calm_bind(1) [OF calms_prims(1)] holds_calm_bind(1) [OF calms_basics(3)] handed_ret
        handed_bind [OF tryTransitions_owns] split: option.split sum.split)
qed

lemma orRollback_released:
  assumes "c_User ctx = Some tid" "[] \<notin> I" "entry \<noteq> []"
  shows "holds (owns I A entry tid cur) (orRollback ctx cur entry (Inl err)) (released I A entry tid)"
  unfolding orRollback_def using assms
  by (auto intro!: holds_bind [OF rollbackSegment_owns(2)] holds_ret simp: released_def)

lemma settle_owns:
  assumes "tidy e" "c_User ctx = Some tid" "entry \<noteq> []"
  shows "holds (owns (range (e_NewUUID e)) A entry tid cur) (settle e wfd audit entry finished ctx cur)
     (released (range (e_NewUUID e)) A entry tid)"
proof -
  have "[] \<notin> range (e_NewUUID e)" using assms(1) by (simp add: tidy_def)
  then show ?thesis
    unfolding settle_def cascadeAutomated_def using assms
    by (auto intro!: handed_bind [OF cascadeLoop_owns] orRollback_released holds_calm_bind(1) [OF calms_reconcile]
        holds_calm_bind(1) [OF calms_basics(3)] holds_calm_bind(1) [OF calms_prims(1)] holds_ret
        simp: released_def split: sum.split)
qed

lemma resolveAuditTxID_starts:
  assumes "entry \<noteq> []" "holds (owns I (activeIn f) entry tid entry) (g entry) Q"
  shows "holds (starts I entry tid f) (State_Monad.bind (resolveAuditTxID e) g) Q"
  using assms by (auto simp: holds_def starts_def resolveAuditTxID_def)

lemma resolveTenant_user: "resolveTenant ctx = Inr tid \<Longrightarrow> c_User ctx = Some tid"
  by (auto simp: resolveTenant_def split: option.splits if_splits)

lemma starts_released: "starts I entry tid f s \<Longrightarrow> released I (activeIn f) entry tid (Inl err) s"
  by (auto simp: starts_def owns_def ownsNone_def released_def)

lemma owns_released: "owns I A entry tid entry s \<Longrightarrow> released I A entry tid (Inl err) s"
  by (auto simp: owns_def ownsNone_def released_def)

lemma withIfMatch_starts: "holds (starts I entry tid f) (withIfMatch x) (\<lambda>_. starts I entry tid f)"
  by (simp add: holds_def starts_def withIfMatch_def owns_def factoryOf_def)

lemma Execute_owns:
  assumes "tidy e" "c_User ctx = Some tid" "entry \<noteq> []"
  shows "holds (starts (range (e_NewUUID e)) entry tid f) (Execute e ctx name)
     (released (range (e_NewUUID e)) (activeIn f) entry tid)"
proof (cases "resolveTenant ctx")
  case (Inr t)
  have "[] \<notin> range (e_NewUUID e)" using assms(1) by (simp add: tidy_def)
  then show ?thesis
    unfolding Execute_def Inr sum.case using assms
    by (auto intro!: resolveAuditTxID_starts holds_calm_bind(1) [OF calms_basics(3)] holds_calm_bind(1) [OF calms_resolveWorkflow]
        holds_calm_bind(1) [OF calms_basics(5)] holds_ret owns_released handed_bind [OF attemptTransition_owns]
        handed_bind [OF handed_ret] orRollback_released settle_owns split: sum.split)
qed (auto simp: Execute_def intro!: holds_ret starts_released)

lemma ManualTransition_owns:
  assumes "tidy e" "c_User ctx = Some tid" "entry \<noteq> []"
  shows "holds (starts (range (e_NewUUID e)) entry tid f) (ManualTransition e ctx name)
     (released (range (e_NewUUID e)) (activeIn f) entry tid)"
proof (cases "resolveTenant ctx")
  case (Inr t)
  have "[] \<notin> range (e_NewUUID e)" using assms(1) by (simp add: tidy_def)
  then show ?thesis
    unfolding ManualTransition_def Inr sum.case using assms
    by (auto intro!: resolveAuditTxID_starts holds_calm_bind(1) [OF calms_basics(3)] holds_calm_bind(1) [OF calms_resolveWorkflow]
        holds_ret owns_released handed_bind [OF attemptTransition_owns] orRollback_released settle_owns split: sum.split)
qed (auto simp: ManualTransition_def intro!: holds_ret starts_released)

lemma Loopback_owns:
  assumes "tidy e" "c_User ctx = Some tid" "entry \<noteq> []"
  shows "holds (starts (range (e_NewUUID e)) entry tid f) (Loopback e ctx)
     (released (range (e_NewUUID e)) (activeIn f) entry tid)"
proof (cases "resolveTenant ctx")
  case (Inr t)
  then show ?thesis
    unfolding Loopback_def Inr sum.case using assms
    by (auto intro!: resolveAuditTxID_starts holds_calm_bind(1) [OF calms_basics(3)] holds_calm_bind(1) [OF calms_resolveWorkflow]
        holds_calm_bind(1) [OF calms_prims(1)] holds_ret owns_released settle_owns simp: released_def split: sum.split)
qed (auto simp: Loopback_def intro!: holds_ret starts_released)

text \<open>
  C4. No transaction segment is left open. Let the entity's transaction be open when an entry point of the
  engine is called, and let the external callouts begin no transaction with an id of the engine's own
  supply. Then on every path, through processors, criteria, cascades and timers that fail at any point, the
  transactions the call began are closed again when it returns an error; when it succeeds, only the segment
  it hands to the caller can still be open, under the caller's tenant, and \<^verbatim>\<open>Segmented\<close> says whether that is
  another transaction than the one the caller began.
\<close>

theorem no_leaked_segments:
  assumes "tidy e" "c_User ctx = Some tid"
    and "m \<in> {Execute e ctx name, ManualTransition e ctx name, ManualTransitionWithIfMatch e ctx name ifMatch,
              Loopback e ctx, LoopbackWithIfMatch e ctx ifMatch}"
    and "m_TransactionID (Meta (es_Entity s)) = entry" "entry \<noteq> []" "entry \<in> activeIn (factoryOf s)"
    and "run_state m s = (r, s')"
  shows "case r of
           Inl _ \<Rightarrow> activeIn (factoryOf s') \<inter> range (e_NewUUID e) \<subseteq> activeIn (factoryOf s)
         | Inr res \<Rightarrow>
             activeIn (factoryOf s') \<inter> range (e_NewUUID e) \<subseteq> activeIn (factoryOf s) \<union> {er_FinalTxID res} \<and>
             (er_Segmented res \<longleftrightarrow> er_FinalTxID res \<noteq> entry) \<and> c_User (er_FinalCtx res) = Some tid \<and>
             (er_Segmented res \<longrightarrow>
                er_FinalTxID res \<in> range (e_NewUUID e) \<and>
                (er_FinalTxID res \<in> activeIn (factoryOf s') \<longrightarrow> tenantOf (factoryOf s') (er_FinalTxID res) = Some tid))"
proof -
  let ?I = "range (e_NewUUID e)"
  have "holds (starts ?I entry tid (factoryOf s)) m (released ?I (activeIn (factoryOf s)) entry tid)"
    using assms(1-3,5)
    by (auto simp: ManualTransitionWithIfMatch_def LoopbackWithIfMatch_def
        intro!: Execute_owns ManualTransition_owns Loopback_owns holds_bind [OF withIfMatch_starts])
  moreover have "starts ?I entry tid (factoryOf s) s" using assms(4) by (auto simp: starts_def owns_def)
  ultimately have "released ?I (activeIn (factoryOf s)) entry tid r s'"
    using assms(7) unfolding holds_def by (metis fst_conv snd_conv)
  then show ?thesis using assms(6) by (auto simp: released_def owns_def ownsNone_def split: sum.splits)
qed

lemma tidy_segEngine: "tidy (segEngine ok)"
  by (auto simp: tidy_def segEngine_def silentExt_def plainEngine_def NewEngine_def plainBase_def tidyCall_def calm_refl)

theorem no_leaked_segments_witness:
  "let s = startState begunStore (mkEntity ''d'' ''x'' ''NONE'' ''1'');
       run = run_state (Execute (segEngine False) (ctxOf ''t'' (Some ''x'')) []) s;
       plain = run_state (Loopback (segEngine True) (ctxOf ''t'' (Some ''x''))) s
   in (case fst run of
         Inl _ \<Rightarrow> activeIn (factoryOf (snd run)) \<inter> range (e_NewUUID (segEngine False)) \<subseteq> {''x''}
       | Inr res \<Rightarrow> activeIn (factoryOf (snd run)) \<inter> range (e_NewUUID (segEngine False)) \<subseteq> {''x'', er_FinalTxID res}) \<and>
      (\<exists>res. fst plain = Inr res \<and> er_FinalTxID res = ''x'' \<and> \<not> er_Segmented res \<and>
         activeIn (factoryOf (snd plain)) \<inter> range (e_NewUUID (segEngine True)) \<subseteq> {''x''})"
proof -
  let ?s = "startState begunStore (mkEntity ''d'' ''x'' ''NONE'' ''1'')" and ?c = "ctxOf ''t'' (Some ''x'')"
  let ?run = "run_state (Execute (segEngine False) ?c []) ?s" and ?plain = "run_state (Loopback (segEngine True) ?c) ?s"
  have "tm_active (sf_txManager (factoryOf ?s)) = [''x'']" by code_simp
  then have a: "activeIn (factoryOf ?s) = {''x''}" by (simp add: activeIn_def)
  have "map_sum (\<lambda>_. ()) er_FinalTxID (fst ?plain) = Inr ''x''" by code_simp
  then obtain res where res: "fst ?plain = Inr res" "er_FinalTxID res = ''x''" by (cases "fst ?plain") auto
  have c: "c_User ?c = Some ''t''" "m_TransactionID (Meta (es_Entity ?s)) = ''x''"
    by (simp_all add: ctxOf_def startState_def mkEntity_def)
  note nl = no_leaked_segments [OF tidy_segEngine c(1) _ c(2) _ _ prod.collapse [symmetric]]
  obtain r f where f: "fst ?run = r" "activeIn (factoryOf (snd ?run)) = f" by blast
  have "case r of
      Inl _ \<Rightarrow> f \<inter> range (e_NewUUID (segEngine False)) \<subseteq> {''x''}
    | Inr res \<Rightarrow> f \<inter> range (e_NewUUID (segEngine False)) \<subseteq> {''x'', er_FinalTxID res}"
    using nl [of "Execute (segEngine False) ?c []" False "[]" "[]"] unfolding a f by (cases r) auto
  moreover have "\<not> er_Segmented res \<and> activeIn (factoryOf (snd ?plain)) \<inter> range (e_NewUUID (segEngine True)) \<subseteq> {''x''}"
    using nl [of "Loopback (segEngine True) ?c" True "[]" "[]"] unfolding a res by (simp add: res(2))
  ultimately show ?thesis unfolding Let_def f using res by blast
qed



end
