(* ===== verification/WfFire.thy ===== *)
theory WfFire
  imports WfSegments
begin

text \<open>
  \<^verbatim>\<open>fire_scheduled.go\<close>: the scheduler's door into the engine. One call resolves one scheduled task in a
  transaction of its own: it re-reads the task's row, drops, expires, declines or fires it, and commits or
  rolls back. Only the id of the task argument is trusted; its tenant is compared with the row's.
\<close>

datatype ScheduledOutcome = OutcomeFired | OutcomeDeclined | OutcomeExpired | OutcomeDropped

type_synonym fired = "ScheduledOutcome \<times> eerror option"

definition noPrincipal :: Principal where
  "noPrincipal = \<lparr>p_ID = [], p_Kind = []\<rparr>"

definition systemPrincipal :: Principal where
  "systemPrincipal = \<lparr>p_ID = ''system'', p_Kind = ''system''\<rparr>"

definition WithExpiryGrace :: "int \<Rightarrow> Engine \<Rightarrow> Engine" where
  "WithExpiryGrace d e = (if 0 < d then e\<lparr>e_ExpiryGraceMs := d div 1000000\<rparr> else e)"

text \<open>\<^verbatim>\<open>spi.WithAmbientOrigin\<close>: a zero principal seeds nothing, so the origin stays the caller's.\<close>

definition WithAmbientOrigin :: "Ctx \<Rightarrow> Principal \<Rightarrow> Ctx" where
  "WithAmbientOrigin ctx p = (if p = noPrincipal then ctx else ctx\<lparr>c_Origin := p\<rparr>)"

definition findFireableTransitionInState :: "WorkflowDefinition \<Rightarrow> string \<Rightarrow> string \<Rightarrow> TransitionDefinition option" where
  "findFireableTransitionInState wfd st name =
     (case stateDef_of wfd st of
        None \<Rightarrow> None
      | Some sd \<Rightarrow>
          (case find (\<lambda>tr. tr_Name tr = name) (sd_Transitions sd) of
             None \<Rightarrow> None
           | Some tr \<Rightarrow> if tr_Schedule tr = None \<or> tr_Manual tr \<or> tr_Disabled tr then None else Some tr))"

text \<open>The exits: the deferred rollback of the open segment, and a commit whose error is the call's error.\<close>

definition fireAbort :: "Ctx \<Rightarrow> txid \<Rightarrow> eerror option \<Rightarrow> fired eng" where
  "fireAbort curCtx curTxID err =
     do { _ \<leftarrow> onFactory (Rollback (withoutCancel curCtx) curTxID); ret (OutcomeDropped, err) }"

definition fireCommit :: "Engine \<Rightarrow> Ctx \<Rightarrow> txid \<Rightarrow> ScheduledOutcome \<Rightarrow> fired eng" where
  "fireCommit e ctx txID out =
     do { c \<leftarrow> commitTx e ctx txID; ret (out, case c of Inl err \<Rightarrow> Some (EStore err) | Inr _ \<Rightarrow> None) }"

text \<open>Delete the row and commit with an outcome, recording an event when the row was there.\<close>

definition fireResolve ::
  "Engine \<Rightarrow> Ctx \<Rightarrow> Ctx \<Rightarrow> txid \<Rightarrow> string \<Rightarrow> (tenant option \<times> txid \<times> string \<times> string) option \<Rightarrow> ScheduledOutcome \<Rightarrow> fired eng" where
  "fireResolve e ctx curCtx curTxID taskid event out =
     do { d \<leftarrow> onFactory (scheduledTaskStore_Delete curCtx taskid);
          case d of
            Inl err \<Rightarrow> fireAbort curCtx curTxID (Some (EStore err))
          | Inr removed \<Rightarrow>
              do { (case event of
                      None \<Rightarrow> ret ()
                    | Some (audit, txID, ty, details) \<Rightarrow> if removed then recordHere audit txID ty details else ret ());
                   fireCommit e ctx curTxID out } }"

text \<open>The persist after the cascade: a plain save when the cascade segmented, a compare-and-save otherwise.\<close>

definition firePersist ::
  "Engine \<Rightarrow> Ctx \<Rightarrow> Ctx \<Rightarrow> txid \<Rightarrow> txid \<Rightarrow> txid \<Rightarrow> tenant option \<Rightarrow> string \<Rightarrow> fired eng" where
  "firePersist e ctx finalCtx finalTxID txID expectedTxID audit transition =
     (case resolveTenant finalCtx of
        Inl err \<Rightarrow> fireAbort finalCtx finalTxID (Some (EStore err))
      | Inr tid \<Rightarrow>
          do { r \<leftarrow> (if finalTxID \<noteq> txID then saveEntity e finalCtx tid
                    else compareAndSaveEntity e finalCtx tid expectedTxID);
               case r of
                 Inl err \<Rightarrow> fireAbort finalCtx finalTxID (Some (EStore err))
               | Inr _ \<Rightarrow>
                   do { recordHere audit txID ''SCHEDULED_TRANSITION_FIRE'' transition;
                        fireCommit e ctx finalTxID OutcomeFired } })"

text \<open>Fire the transition, cascade from its target, reconcile the timers and persist.\<close>

definition fireRun ::
  "Engine \<Rightarrow> Ctx \<Rightarrow> Ctx \<Rightarrow> txid \<Rightarrow> tenant option \<Rightarrow> string \<Rightarrow> WorkflowDefinition \<Rightarrow> TransitionDefinition \<Rightarrow> txid \<Rightarrow> fired eng" where
  "fireRun e ctx txCtx txID audit taskid wfd tr expectedTxID =
     do { withIfMatch expectedTxID;
          p \<leftarrow> fireTransition e txCtx wfd tr audit txID;
          case p of
            (newCtx, newTxID, Inl err) \<Rightarrow>
              (case err of
                 ECriterionNotMatched _ \<Rightarrow> fireResolve e ctx newCtx newTxID taskid None OutcomeDeclined
               | _ \<Rightarrow> fireAbort newCtx newTxID (Some err))
          | (newCtx, newTxID, Inr _) \<Rightarrow>
              do { c \<leftarrow> cascadeAutomated e newCtx wfd audit newTxID;
                   case c of
                     (finalCtx, finalTxID, Inl err) \<Rightarrow> fireAbort finalCtx finalTxID (Some err)
                   | (finalCtx, finalTxID, Inr _) \<Rightarrow>
                       do { r \<leftarrow> reconcileScheduledTasks e finalCtx wfd finalTxID audit taskid;
                            case r of
                              Inl err \<Rightarrow> fireAbort finalCtx finalTxID (Some err)
                            | Inr _ \<Rightarrow> firePersist e ctx finalCtx finalTxID txID expectedTxID audit (tr_Name tr) } } }"

text \<open>The attribution of the fire: the principal that armed the task, or the system for rows without one.\<close>

definition stampFire :: "Principal \<Rightarrow> Entity \<Rightarrow> Entity" where
  "stampFire armedBy ent =
     (let armed = (if armedBy = noPrincipal then systemPrincipal else armedBy)
      in ent\<lparr>Meta := (Meta ent)\<lparr>m_ChangeUser := p_ID armed, m_ChangeUserKind := p_Kind armed,
                               m_ChangeExecutor := systemPrincipal\<rparr>\<rparr>)"

text \<open>Past the guards: resolve the workflow and the transition, refuse what cannot be guarded, and fire.\<close>

definition fireDue ::
  "Engine \<Rightarrow> Ctx \<Rightarrow> Ctx \<Rightarrow> txid \<Rightarrow> tenant option \<Rightarrow> ScheduledTask \<Rightarrow> string \<Rightarrow> fired eng" where
  "fireDue e ctx txCtx txID audit cur taskid =
     do { w \<leftarrow> resolveWorkflow e txCtx audit txID;
          ent \<leftarrow> reads es_Entity;
          case w of
            Inl err \<Rightarrow> fireAbort txCtx txID (Some err)
          | Inr wfd \<Rightarrow>
              (case findFireableTransitionInState wfd (m_State (Meta ent)) (st_Transition cur) of
                 None \<Rightarrow>
                   fireResolve e ctx txCtx txID taskid
                     (Some (audit, txID, ''SCHEDULED_TRANSITION_CANCEL'', st_Transition cur)) OutcomeDropped
               | Some tr \<Rightarrow>
                   do { modifies (\<lambda>s. s\<lparr>es_Entity := stampFire (st_ArmedBy cur) (es_Entity s)\<rparr>);
                        if m_TransactionID (Meta ent) = []
                        then fireResolve e ctx txCtx txID taskid
                               (Some (audit, txID, ''SCHEDULED_TRANSITION_CANCEL'', st_Transition cur)) OutcomeDropped
                        else fireRun e ctx txCtx txID audit taskid wfd tr (m_TransactionID (Meta ent)) }) }"

definition latenessAt :: "int \<Rightarrow> ScheduledTask \<Rightarrow> int" where
  "latenessAt nowMs cur = wrap64 (nowMs - st_ScheduledTime cur)"

text \<open>The guards after the row has been re-read: the entity, the due time and the grace band.\<close>

definition fireGuarded ::
  "Engine \<Rightarrow> Ctx \<Rightarrow> Ctx \<Rightarrow> txid \<Rightarrow> tenant \<Rightarrow> ScheduledTask \<Rightarrow> string \<Rightarrow> fired eng" where
  "fireGuarded e ctx txCtx txID tid cur taskid =
     do { g \<leftarrow> onFactory (EntityStore_Get txCtx tid (st_EntityID cur));
          case g of
            Inl err \<Rightarrow>
              if err = ErrNotFound then fireResolve e ctx txCtx txID taskid None OutcomeDropped
              else fireAbort txCtx txID (Some (EStore err))
          | Inr ent \<Rightarrow>
              do { modifies (\<lambda>s. s\<lparr>es_Entity := ent\<rparr>);
                   if m_State (Meta ent) \<noteq> st_SourceState cur then fireResolve e ctx txCtx txID taskid None OutcomeDropped
                   else do {
                     t \<leftarrow> now e;
                     let nowMs = unixMilli t;
                     (if nowMs < st_ScheduledTime cur then fireAbort txCtx txID None
                      else case st_TimeoutMs cur of
                        None \<Rightarrow> fireDue e ctx txCtx txID (Some tid) cur taskid
                      | Some timeout \<Rightarrow>
                          if wrap64 (timeout + e_ExpiryGraceMs e) < latenessAt nowMs cur
                          then fireResolve e ctx txCtx txID taskid
                                 (Some (Some tid, txID, ''SCHEDULED_TRANSITION_EXPIRE'', st_Transition cur)) OutcomeExpired
                          else if timeout < latenessAt nowMs cur then fireAbort txCtx txID None
                          else fireDue e ctx txCtx txID (Some tid) cur taskid) } } }"

definition FireScheduledTransition :: "Engine \<Rightarrow> Ctx \<Rightarrow> ScheduledTask \<Rightarrow> fired eng" where
  "FireScheduledTransition e ctx0 task =
     do { pre \<leftarrow> reads (\<lambda>s. scheduledTaskStore_Get (st_ID task) (factoryOf s));
          let seeded = (case pre of None \<Rightarrow> noPrincipal | Some row \<Rightarrow> st_ArmedBy row);
          let ctx = WithAmbientOrigin ctx0 seeded;
          b \<leftarrow> beginTx e ctx;
          case b of
            Inl err \<Rightarrow> ret (OutcomeDropped, Some (EStore err))
          | Inr (txID, txCtx) \<Rightarrow>
              (case resolveTenant txCtx of
                 Inl err \<Rightarrow> fireAbort txCtx txID (Some (EStore err))
               | Inr tid \<Rightarrow>
                   do { row \<leftarrow> reads (\<lambda>s. scheduledTaskStore_Get (st_ID task) (factoryOf s));
                        case row of
                          None \<Rightarrow> fireCommit e ctx txID OutcomeDropped
                        | Some cur \<Rightarrow>
                            if st_TenantID cur \<noteq> st_TenantID task then fireAbort txCtx txID None
                            else if st_ArmedBy cur \<noteq> seeded then fireAbort txCtx txID (Some (EBadRequest ''re-armed concurrently''))
                            else fireGuarded e ctx txCtx txID tid cur (st_ID task) }) }"

text \<open>The outcomes a program can report.\<close>

definition outs :: "ScheduledOutcome set \<Rightarrow> fired eng \<Rightarrow> bool" where
  "outs O' m \<longleftrightarrow> (\<forall>s. fst (fst (run_state m s)) \<in> O')"

text \<open>What the call reads: the entity in the snapshot of the transaction it begins, and the clock.\<close>

definition fireSnapshot :: "Engine \<Rightarrow> EngState \<Rightarrow> time" where
  "fireSnapshot e s = fst (reserveSnapshotTime (e_Clock e (Suc (es_Tick s))) (sf_txManager (factoryOf s)))"

definition fireMs :: "Engine \<Rightarrow> EngState \<Rightarrow> int" where
  "fireMs e s = unixMilli (e_Clock e (Suc (Suc (es_Tick s))))"

definition untouched :: "EngState \<Rightarrow> EngState \<Rightarrow> bool" where
  "untouched s s' \<longleftrightarrow>
     sf_entityData (factoryOf s') = sf_entityData (factoryOf s) \<and>
     sf_scheduledTasks (factoryOf s') = sf_scheduledTasks (factoryOf s) \<and> db_Audit (es_Stores s') = db_Audit (es_Stores s)"

text \<open>When a task may fire: its entity is where it was armed, it is due and not late, and a workflow still declares it.\<close>

definition mayFire :: "Engine \<Rightarrow> tenant \<Rightarrow> ScheduledTask \<Rightarrow> EngState \<Rightarrow> bool" where
  "mayFire e tid cur s \<longleftrightarrow>
     (\<exists>ent wfd sd tr.
        getSnapshotVersion (factoryOf s) tid (st_EntityID cur) (fireSnapshot e s) = Ok ent \<and>
        m_State (Meta ent) = st_SourceState cur \<and> m_TransactionID (Meta ent) \<noteq> [] \<and>
        st_ScheduledTime cur \<le> fireMs e s \<and>
        (\<forall>timeout. st_TimeoutMs cur = Some timeout \<longrightarrow> latenessAt (fireMs e s) cur \<le> timeout) \<and>
        (wfd \<in> set (e_DefaultWorkflows e) \<or>
          (\<exists>ws. WorkflowStore_Get (e_JsonCopy e) tid (model_of ent) (db_Workflows (es_Stores s)) = Inr ws \<and>
                wfd \<in> set ws \<and> wf_Active wfd)) \<and>
        stateDef_of wfd (st_SourceState cur) = Some sd \<and> tr \<in> set (sd_Transitions sd) \<and>
        tr_Name tr = st_Transition cur \<and> armable tr)"

definition expiredAt :: "Engine \<Rightarrow> ScheduledTask \<Rightarrow> EngState \<Rightarrow> bool" where
  "expiredAt e cur s \<longleftrightarrow>
     (\<exists>timeout. st_TimeoutMs cur = Some timeout \<and> wrap64 (timeout + e_ExpiryGraceMs e) < latenessAt (fireMs e s) cur)"

text \<open>Where the engine finds an entity's workflow: the active ones stored for its model, or its defaults.\<close>

definition bound :: "Engine \<Rightarrow> tenant \<Rightarrow> WorkflowDefinition wfData \<Rightarrow> Entity \<Rightarrow> WorkflowDefinition \<Rightarrow> bool" where
  "bound e tid workflows ent wfd \<longleftrightarrow>
     wfd \<in> set (e_DefaultWorkflows e) \<or>
     (\<exists>ws. WorkflowStore_Get (e_JsonCopy e) tid (model_of ent) workflows = Inr ws \<and> wfd \<in> set ws \<and> wf_Active wfd)"

text \<open>A store with an entity and a task of its tenant that is five seconds late.\<close>

definition lateTask :: ScheduledTask where
  "lateTask = \<lparr>st_ID = ''k'', st_TenantID = ''t'', st_Type = ''fire-transition'', st_ScheduledTime = -62135596805000,
     st_TimeoutMs = Some 1000, st_EntityID = ''d'', st_ModelName = ''m'', st_ModelVersion = 1, st_Transition = ''late'',
     st_SourceState = ''A'', st_ArmedAt = 0, st_ArmedBy = noPrincipal, st_RedispatchAfter = None, st_AttemptCount = 0\<rparr>"

definition lateStore :: StoreFactory where
  "lateStore = (exec noClaims (OpSave 0 (ctxOf ''t'' None) ''t'' (mkEntity ''d'' ''x0'' ''A'' ''1'')) NewStoreFactory)
     \<lparr>sf_scheduledTasks := [(''k'', lateTask)]\<rparr>"

lemma kept_selectLoop: "kept f (selectLoop e ctx wfds audit txID)"
proof (induction wfds)
  case (Cons wfd wfds)
  then show ?case by (auto intro!: kept_intros kept_basics kept_evaluateCriterion split: sum.split)
qed (simp add: kept_ret)

lemma kept_resolveWorkflow: "kept f (resolveWorkflow e ctx audit txID)"
  unfolding resolveWorkflow_def resolveWorkflowWith_def selectWorkflow_def
  by (auto intro!: kept_intros kept_basics kept_selectLoop kept_evaluateCriterion split: sum.split list.split option.split)

lemma selectLoop_from:
  "run_state (selectLoop e ctx wfds audit txID) s = (Inr (Some wfd), s') \<Longrightarrow> wfd \<in> set wfds \<and> wf_Active wfd"
proof (induction wfds arbitrary: s)
  case (Cons a wfds)
  show ?case
    using Cons.prems by (auto dest: Cons.IH split: if_splits prod.splits sum.splits)
qed simp

lemma selectWorkflow_from:
  "run_state (selectWorkflow e ctx wfds audit txID) s = (Inr wfd, s') \<Longrightarrow>
   wfd \<in> set (e_DefaultWorkflows e) \<or> wfd \<in> set wfds \<and> wf_Active wfd"
  unfolding selectWorkflow_def by (auto dest: selectLoop_from split: prod.splits sum.splits option.splits list.splits)

lemma resolveWorkflow_bound:
  assumes "run_state (resolveWorkflow e ctx audit txID) s = (Inr wfd, s')" "resolveTenant ctx = Ok tid"
  shows "bound e tid (db_Workflows (es_Stores s)) (es_Entity s) wfd"
  using assms unfolding resolveWorkflow_def resolveWorkflowWith_def bound_def
  by (auto dest!: selectWorkflow_from split: sum.splits if_splits)

lemma outs_bind: "(\<And>x. outs O' (g x)) \<Longrightarrow> outs O' (State_Monad.bind m g)"
  by (simp add: outs_def split: prod.split)

lemma outs_exits:
  "OutcomeDropped \<in> O' \<Longrightarrow> outs O' (fireAbort c t err)" "out \<in> O' \<Longrightarrow> outs O' (fireCommit e ctx t out)"
  by (simp_all add: outs_def fireAbort_def fireCommit_def split: prod.split)

lemma outs_resolve: "OutcomeDropped \<in> O' \<Longrightarrow> out \<in> O' \<Longrightarrow> outs O' (fireResolve e ctx c t i ev out)"
  unfolding fireResolve_def by (auto intro!: outs_bind outs_exits split: sum.split)

lemma outs_run: "outs {OutcomeDropped, OutcomeDeclined, OutcomeFired} (fireRun e ctx txCtx txID audit i wfd tr x)"
  unfolding fireRun_def firePersist_def
  by (auto intro!: outs_bind outs_exits outs_resolve split: sum.split eerror.split prod.split)

lemma outsD: "outs O' m \<Longrightarrow> run_state m s = ((out, err), s') \<Longrightarrow> out \<in> O'"
  unfolding outs_def by (metis fst_conv)

lemma fireDue_out:
  assumes "run_state (fireDue e ctx txCtx txID audit cur i) s = ((out, err), s')"
  shows "out \<noteq> OutcomeExpired"
    and "out = OutcomeFired \<Longrightarrow> resolveTenant txCtx = Ok tid \<Longrightarrow>
      (\<exists>wfd tr. bound e tid (db_Workflows (es_Stores s)) (es_Entity s) wfd \<and>
         findFireableTransitionInState wfd (stateOf s) (st_Transition cur) = Some tr) \<and>
      m_TransactionID (Meta (es_Entity s)) \<noteq> []"
proof -
  have "outs {OutcomeDropped, OutcomeDeclined, OutcomeFired} (fireDue e ctx txCtx txID audit cur i)"
    unfolding fireDue_def by (auto intro!: outs_bind outs_exits outs_resolve outs_run split: sum.split option.split)
  from outsD [OF this assms] show "out \<noteq> OutcomeExpired" by auto
  assume fired: "out = OutcomeFired" and tid: "resolveTenant txCtx = Ok tid"
  obtain w s1 where w: "run_state (resolveWorkflow e txCtx audit txID) s = (w, s1)" by (rule prod.exhaust)
  have ent: "es_Entity s1 = es_Entity s" by (rule keptD' [OF kept_resolveWorkflow w])
  have ab: "\<not> fst (fst (run_state (fireAbort c t err) s)) = OutcomeFired"
    "\<not> fst (fst (run_state (fireResolve e ctx c t i ev OutcomeDropped) s)) = OutcomeFired" for c t err s ev
    using outs_exits(1) [of "{OutcomeDropped}" c t err] outs_resolve [of "{OutcomeDropped}" OutcomeDropped e ctx c t i ev]
    by (auto simp: outs_def)
  show "(\<exists>wfd tr. bound e tid (db_Workflows (es_Stores s)) (es_Entity s) wfd \<and>
         findFireableTransitionInState wfd (stateOf s) (st_Transition cur) = Some tr) \<and>
      m_TransactionID (Meta (es_Entity s)) \<noteq> []"
  proof (cases w)
    case (Inl err')
    then show ?thesis using assms w fired ab by (simp add: fireDue_def) (metis fst_conv)
  next
    case (Inr wfd)
    have b: "bound e tid (db_Workflows (es_Stores s)) (es_Entity s) wfd" using resolveWorkflow_bound w Inr tid by blast
    show ?thesis
    proof (cases "findFireableTransitionInState wfd (stateOf s) (st_Transition cur)")
      case None
      then show ?thesis using assms w fired ab Inr ent by (simp add: fireDue_def stateOf_def) (metis fst_conv)
    next
      case (Some tr)
      have "m_TransactionID (Meta (es_Entity s)) \<noteq> []"
      proof
        assume "m_TransactionID (Meta (es_Entity s)) = []"
        then show False using assms w fired ab Inr ent Some by (simp add: fireDue_def stateOf_def) (metis fst_conv)
      qed
      then show ?thesis using b Some by blast
    qed
  qed
qed

subsection \<open>The state after the begin\<close>

lemma factoryOf_stores: "factoryOf (s\<lparr>es_Stores := db\<rparr>) = db_Factory db" by (simp add: factoryOf_def)

lemma fireable_armable:
  "findFireableTransitionInState wfd st name = Some tr \<Longrightarrow>
   \<exists>sd. stateDef_of wfd st = Some sd \<and> tr \<in> set (sd_Transitions sd) \<and> tr_Name tr = name \<and> armable tr"
  by (auto simp: findFireableTransitionInState_def armable_def find_Some_iff in_set_conv_nth split: option.splits if_splits)

lemma Begin_fresh:
  assumes "c_User ctx = Some tid" "tid \<noteq> []"
  obtains tx g where "Begin i n ctx f = (Ok (i, WithTransaction ctx i), g)" "sf_txHeap g i = Some tx"
    "tx_ID tx = i" "tx_TenantID tx = tid" "tx_Buffer tx = []" "tx_Deletes tx = []" "checkOpen tx = Ok ()" "\<not> tx_RolledBack tx"
    "tx_SnapshotTime tx = fst (reserveSnapshotTime n (sf_txManager f))"
    "sf_entityData g = sf_entityData f" "sf_scheduledTasks g = sf_scheduledTasks f"
proof -
  obtain snap m where "reserveSnapshotTime n (sf_txManager f) = (snap, m)" by (rule prod.exhaust)
  with assms show thesis
    by (intro that [of "snd (Begin i n ctx f)" "the (sf_txHeap (snd (Begin i n ctx f)) i)"])
       (simp_all add: Begin_def checkOpen_def Let_def)
qed

lemma Commit_readonly:
  assumes "Commit cc n1 n2 ctx t f = (r, g)" "sf_txHeap f t = Some tx" "tx_Buffer tx = []" "tx_Deletes tx = []"
  shows "sf_entityData g = sf_entityData f"
  using assms
  by (auto simp: Commit_def commit_enter_def active_tx_def commit_body_def commit_check_def commit_flush_def closeTx_def Let_def
      split: sum.splits prod.splits option.splits if_splits)

lemma Get_fresh:
  assumes "sf_txHeap g i = Some tx" "tx_Buffer tx = []" "tx_Deletes tx = []" "checkOpen tx = Ok ()"
  shows "EntityStore_Get (WithTransaction ctx i) tid eid g =
           (getSnapshotVersion g tid eid (tx_SnapshotTime tx), set_tx i (addRead eid tx) g)"
  using assms by (simp add: EntityStore_Get_def GetTransaction_def WithTransaction_def Let_def)

lemma Rollback_data:
  "sf_entityData (snd (Rollback ctx t f)) = sf_entityData f" "sf_scheduledTasks (snd (Rollback ctx t f)) = sf_scheduledTasks f"
  by (simp_all add: Rollback_def rollback_body_def markRolledBack_def closeTx_def split: sum.split)

lemma fireAbort_untouched: "run_state (fireAbort c t err) s = (r, s') \<Longrightarrow> untouched s s'"
  by (auto simp: fireAbort_def untouched_def Rollback_data)

text \<open>Resolving a task in a transaction that wrote nothing.\<close>

lemma fireResolve_effect:
  assumes "run_state (fireResolve e ctx c t i ev out) s = ((o', err), s')"
    and "c_Tx c = Some t" "sf_txHeap (factoryOf s) t = Some tx" "tx_ID tx = t" "tx_Buffer tx = []" "tx_Deletes tx = []"
    and "\<not> tx_RolledBack tx"
  shows "sf_entityData (factoryOf s') = sf_entityData (factoryOf s)"
    and "err = None \<Longrightarrow> map_of (sf_scheduledTasks (factoryOf s')) i = None"
proof -
  let ?f1 = "stageOps t [scheduledTaskDelete i] (factoryOf s)"
  define removed where "removed = (map_of (sf_scheduledTasks (factoryOf s)) i \<noteq> None)"
  have d: "scheduledTaskStore_Delete c i (factoryOf s) = (Ok removed, ?f1)"
    using stage_in_tx [of "factoryOf s" c tx] assms(2-4,7)
    by (simp add: scheduledTaskStore_Delete_def GetTransaction_def removed_def Let_def)
  let ?rec = "case ev of None \<Rightarrow> ret () | Some (audit, txID, ty, details) \<Rightarrow> if removed then recordHere audit txID ty details else ret ()"
  obtain u s1 where r: "run_state ?rec (s\<lparr>es_Stores := (es_Stores s)\<lparr>db_Factory := ?f1\<rparr>\<rparr>) = (u, s1)" by (rule prod.exhaust)
  have f1: "factoryOf s1 = ?f1"
    using r by (auto simp: recordHere_def recordEvent_def factoryOf_def Let_def split: option.splits prod.splits if_splits)
  have h: "sf_txHeap ?f1 t = Some tx" "sf_entityData ?f1 = sf_entityData (factoryOf s)"
      "sf_scheduledTasks ?f1 = sf_scheduledTasks (factoryOf s)"
      "\<exists>ops. tm_scheduledTaskOps (sf_txManager ?f1) t = Some (ops @ [scheduledTaskDelete i])"
    using assms(3) by (simp_all add: stageOps_def stageScheduledTaskOp_def)
  obtain n1 n2 r' g where cm: "Commit (e_Claims e) n1 n2 ctx t ?f1 = (r', g)"
    and fin: "s' = s1\<lparr>es_Tick := Suc (Suc (es_Tick s1)), es_Stores := (es_Stores s1)\<lparr>db_Factory := g\<rparr>\<rparr>"
    and err: "err = (case r' of Inl err \<Rightarrow> Some (EStore err) | Inr _ \<Rightarrow> None)"
    using assms(1) d r f1
    by (simp add: fireResolve_def fireCommit_def commitTx_def now_def) (metis surjective_pairing)
  have g: "factoryOf s' = g" by (simp add: fin factoryOf_def)
  show "sf_entityData (factoryOf s') = sf_entityData (factoryOf s)" using Commit_readonly [OF cm h(1) assms(5,6)] h(2) g by simp
  assume "err = None"
  then have "r' = Ok ()" using err by (cases r') auto
  from Commit_tasks [OF cm [unfolded this]] h(4) show "map_of (sf_scheduledTasks (factoryOf s')) i = None"
    by (auto simp: g map_of_applyOp)
qed

text \<open>The guarded part of a fire: an entity that is gone or moved on drops the task, a live one is judged by the clock.\<close>

lemma fireGuarded_dead:
  assumes "run_state (fireGuarded e ctx (WithTransaction ctx i) i tid cur taskid) s = ((out, err), s')"
    and "sf_txHeap (factoryOf s) i = Some tx" "tx_Buffer tx = []" "tx_Deletes tx = []" "checkOpen tx = Ok ()"
    and "\<And>ent. getSnapshotVersion (factoryOf s) tid (st_EntityID cur) (tx_SnapshotTime tx) = Inr ent \<Longrightarrow>
      m_State (Meta ent) \<noteq> st_SourceState cur"
  shows "out = OutcomeDropped"
proof -
  have dropped: "outs {OutcomeDropped} (fireAbort c t err)" "outs {OutcomeDropped} (fireResolve e ctx c t j ev OutcomeDropped)"
    for c t err j ev by (simp_all add: outs_exits outs_resolve)
  have "\<exists>m s0. outs {OutcomeDropped} m \<and> run_state m s0 = ((out, err), s')"
    using assms(1,6) unfolding fireGuarded_def
    by (cases "getSnapshotVersion (factoryOf s) tid (st_EntityID cur) (tx_SnapshotTime tx)")
       (auto simp: Get_fresh [OF assms(2-5)] split: if_splits intro: dropped)
  then show ?thesis using outsD by blast
qed

lemma fireGuarded_live:
  assumes "sf_txHeap (factoryOf s) i = Some tx" "tx_Buffer tx = []" "tx_Deletes tx = []" "checkOpen tx = Ok ()"
    and "getSnapshotVersion (factoryOf s) tid (st_EntityID cur) (tx_SnapshotTime tx) = Inr ent"
    and "m_State (Meta ent) = st_SourceState cur"
  shows "run_state (fireGuarded e ctx (WithTransaction ctx i) i tid cur taskid) s =
    run_state (if unixMilli (e_Clock e (es_Tick s)) < st_ScheduledTime cur then fireAbort (WithTransaction ctx i) i None
      else case st_TimeoutMs cur of
        None \<Rightarrow> fireDue e ctx (WithTransaction ctx i) i (Some tid) cur taskid
      | Some timeout \<Rightarrow>
          if wrap64 (timeout + e_ExpiryGraceMs e) < latenessAt (unixMilli (e_Clock e (es_Tick s))) cur
          then fireResolve e ctx (WithTransaction ctx i) i taskid
                 (Some (Some tid, i, ''SCHEDULED_TRANSITION_EXPIRE'', st_Transition cur)) OutcomeExpired
          else if timeout < latenessAt (unixMilli (e_Clock e (es_Tick s))) cur then fireAbort (WithTransaction ctx i) i None
          else fireDue e ctx (WithTransaction ctx i) i (Some tid) cur taskid)
      (s\<lparr>es_Stores := (es_Stores s)\<lparr>db_Factory := set_tx i (addRead (st_EntityID cur) tx) (factoryOf s)\<rparr>,
         es_Entity := ent, es_Tick := Suc (es_Tick s)\<rparr>)"
  using assms(5,6)
  by (simp add: fireGuarded_def Get_fresh [OF assms(1-4)] now_def Let_def split del: if_split cong: option.case_cong if_cong)

text \<open>What the three ways out of the clock guard leave behind.\<close>

lemma expire_effect:
  assumes "run_state (fireResolve e ctx (WithTransaction ctx i) i taskid ev OutcomeExpired)
      (s\<lparr>es_Stores := (es_Stores s)\<lparr>db_Factory := set_tx i (addRead eid tx) (factoryOf s)\<rparr>, es_Entity := ent, es_Tick := n\<rparr>) =
      ((out, err), s')"
    and "tx_ID tx = i" "tx_Buffer tx = []" "tx_Deletes tx = []" "checkOpen tx = Ok ()"
  shows "out \<noteq> OutcomeFired" "sf_entityData (factoryOf s') = sf_entityData (factoryOf s)"
    "err = None \<longrightarrow> map_of (sf_scheduledTasks (factoryOf s')) taskid = None"
proof -
  show "out \<noteq> OutcomeFired" using outsD [OF outs_resolve [of "{OutcomeDropped, OutcomeExpired}"] assms(1)] by auto
  have "sf_txHeap (set_tx i (addRead eid tx) (factoryOf s)) i = Some (addRead eid tx)" "\<not> tx_RolledBack (addRead eid tx)"
      "tx_ID (addRead eid tx) = i" "tx_Buffer (addRead eid tx) = []" "tx_Deletes (addRead eid tx) = []"
      "sf_entityData (set_tx i (addRead eid tx) (factoryOf s)) = sf_entityData (factoryOf s)"
    using assms(2-5) by (auto simp: addRead_def checkOpen_def set_tx_def split: if_splits)
  then show "sf_entityData (factoryOf s') = sf_entityData (factoryOf s)"
      "err = None \<longrightarrow> map_of (sf_scheduledTasks (factoryOf s')) taskid = None"
    using fireResolve_effect [OF assms(1), of "addRead eid tx"] by (auto simp: WithTransaction_def factoryOf_def)
qed

lemma due_effect:
  assumes "run_state (fireDue e ctx (WithTransaction ctx i) i (Some tid) cur taskid)
      (s\<lparr>es_Stores := (es_Stores s)\<lparr>db_Factory := g\<rparr>, es_Entity := ent, es_Tick := n\<rparr>) = ((out, err), s')"
    and "resolveTenant ctx = Ok tid" "m_State (Meta ent) = st_SourceState cur"
  shows "out \<noteq> OutcomeExpired"
    and "out = OutcomeFired \<Longrightarrow> m_TransactionID (Meta ent) \<noteq> [] \<and> (\<exists>wfd tr. bound e tid (db_Workflows (es_Stores s)) ent wfd \<and>
      findFireableTransitionInState wfd (st_SourceState cur) (st_Transition cur) = Some tr)"
  using fireDue_out(1) [OF assms(1)] fireDue_out(2) [OF assms(1), of tid] assms(2,3)
  by (auto simp: stateOf_def resolveTenant_def WithTransaction_def)

lemma abort_dropped: "run_state (fireAbort c t err0) s = ((out, err), s') \<Longrightarrow> out = OutcomeDropped"
  using outsD [OF outs_exits(1) [of "{OutcomeDropped}"]] by blast

lemma fireGuarded_effect:
  fixes e s
  defines "ms \<equiv> unixMilli (e_Clock e (es_Tick s))"
  assumes "run_state (fireGuarded e ctx (WithTransaction ctx i) i tid cur taskid) s = ((out, err), s')"
    and "sf_txHeap (factoryOf s) i = Some tx" "tx_ID tx = i" "tx_Buffer tx = []" "tx_Deletes tx = []"
    and "checkOpen tx = Ok ()" "resolveTenant ctx = Ok tid"
  shows "(out = OutcomeFired \<longrightarrow>
      (\<exists>ent wfd tr. getSnapshotVersion (factoryOf s) tid (st_EntityID cur) (tx_SnapshotTime tx) = Ok ent \<and>
        m_State (Meta ent) = st_SourceState cur \<and> m_TransactionID (Meta ent) \<noteq> [] \<and> st_ScheduledTime cur \<le> ms \<and>
        (\<forall>timeout. st_TimeoutMs cur = Some timeout \<longrightarrow> latenessAt ms cur \<le> timeout) \<and>
        bound e tid (db_Workflows (es_Stores s)) ent wfd \<and>
        findFireableTransitionInState wfd (st_SourceState cur) (st_Transition cur) = Some tr)) \<and>
    (out = OutcomeExpired \<longrightarrow>
      (\<exists>timeout. st_TimeoutMs cur = Some timeout \<and> wrap64 (timeout + e_ExpiryGraceMs e) < latenessAt ms cur) \<and>
      sf_entityData (factoryOf s') = sf_entityData (factoryOf s) \<and>
      (err = None \<longrightarrow> map_of (sf_scheduledTasks (factoryOf s')) taskid = None))"
proof (cases "\<exists>ent. getSnapshotVersion (factoryOf s) tid (st_EntityID cur) (tx_SnapshotTime tx) = Inr ent \<and>
    m_State (Meta ent) = st_SourceState cur")
  case False
  then show ?thesis using fireGuarded_dead [OF assms(2,3,5,6,7)] by auto
next
  case True
  then obtain ent where live: "getSnapshotVersion (factoryOf s) tid (st_EntityID cur) (tx_SnapshotTime tx) = Inr ent"
    "m_State (Meta ent) = st_SourceState cur" by blast
  note run = assms(2) [unfolded fireGuarded_live [OF assms(3,5,6,7) live], folded ms_def]
  note exits = abort_dropped expire_effect [OF _ assms(4-7)] due_effect [OF _ assms(8) live(2)]
  have due: ?thesis
    if "run_state (fireDue e ctx (WithTransaction ctx i) i (Some tid) cur taskid)
        (s\<lparr>es_Stores := (es_Stores s)\<lparr>db_Factory := set_tx i (addRead (st_EntityID cur) tx) (factoryOf s)\<rparr>,
           es_Entity := ent, es_Tick := Suc (es_Tick s)\<rparr>) = ((out, err), s')"
      "st_ScheduledTime cur \<le> ms" "\<forall>timeout. st_TimeoutMs cur = Some timeout \<longrightarrow> latenessAt ms cur \<le> timeout"
    using exits(5,6) [OF that(1)] that(2,3) live by blast
  consider "ms < st_ScheduledTime cur" | "st_ScheduledTime cur \<le> ms" "st_TimeoutMs cur = None"
    | timeout where "st_ScheduledTime cur \<le> ms" "st_TimeoutMs cur = Some timeout"
        "wrap64 (timeout + e_ExpiryGraceMs e) < latenessAt ms cur"
    | timeout where "st_ScheduledTime cur \<le> ms" "st_TimeoutMs cur = Some timeout"
        "\<not> wrap64 (timeout + e_ExpiryGraceMs e) < latenessAt ms cur" "timeout < latenessAt ms cur"
    | timeout where "st_ScheduledTime cur \<le> ms" "st_TimeoutMs cur = Some timeout"
        "\<not> wrap64 (timeout + e_ExpiryGraceMs e) < latenessAt ms cur" "latenessAt ms cur \<le> timeout"
    by (cases "st_TimeoutMs cur"; force)
  then show ?thesis
  proof cases
    case 1
    then show ?thesis using run by (auto dest: exits(1))
  next
    case 2
    then show ?thesis using run by (intro due) auto
  next
    case 3
    then show ?thesis using run by (auto dest: exits(2-4))
  next
    case 4
    then show ?thesis using run by (auto dest: exits(1))
  next
    case 5
    then show ?thesis using run by (intro due) auto
  qed
qed

text \<open>The way into the guards: no tenant means no transaction, and otherwise the fire runs in a fresh one.\<close>

lemma fire_without_tenant:
  assumes "run_state (FireScheduledTransition e ctx task) s = ((out, err), s')" "\<not> (\<exists>tid. c_User ctx = Some tid \<and> tid \<noteq> [])"
  shows "out = OutcomeDropped \<and> untouched s s'"
proof -
  define c where "c = WithAmbientOrigin ctx (case scheduledTaskStore_Get (st_ID task) (factoryOf s) of
    None \<Rightarrow> noPrincipal | Some row \<Rightarrow> st_ArmedBy row)"
  have "fst (Begin i n c f) \<in> range Inl" for i n f
    using assms(2) by (auto simp: c_def Begin_def WithAmbientOrigin_def split: option.split)
  then obtain b g where b: "Begin (e_NewUUID e (es_Tick s)) (e_Clock e (Suc (es_Tick s))) c (factoryOf s) = (Inl b, g)"
    by (metis imageE prod.collapse)
  then have "g = factoryOf s" by (rule Begin_fails)
  then show ?thesis
    using assms(1) b unfolding FireScheduledTransition_def c_def
    by (auto simp: beginTx_def newUUID_def now_def Let_def untouched_def factoryOf_def)
qed

lemma fire_begins:
  assumes "run_state (FireScheduledTransition e ctx task) s = ((out, err), s')" "c_User ctx = Some tid" "tid \<noteq> []"
  obtains i c tx g where "sf_txHeap g i = Some tx" "tx_ID tx = i" "tx_Buffer tx = []" "tx_Deletes tx = []" "checkOpen tx = Ok ()"
    "tx_SnapshotTime tx = fireSnapshot e s" "resolveTenant c = Ok tid"
    "sf_entityData g = sf_entityData (factoryOf s)" "sf_scheduledTasks g = sf_scheduledTasks (factoryOf s)"
    "run_state (case scheduledTaskStore_Get (st_ID task) (factoryOf s) of
        None \<Rightarrow> fireCommit e c i OutcomeDropped
      | Some cur \<Rightarrow>
          if st_TenantID cur \<noteq> st_TenantID task then fireAbort (WithTransaction c i) i None
          else fireGuarded e c (WithTransaction c i) i tid cur (st_ID task))
      (s\<lparr>es_Tick := Suc (Suc (es_Tick s)), es_Stores := (es_Stores s)\<lparr>db_Factory := g\<rparr>\<rparr>) = ((out, err), s')"
proof -
  let ?row = "scheduledTaskStore_Get (st_ID task) (factoryOf s)"
  let ?i = "e_NewUUID e (es_Tick s)" and ?n = "e_Clock e (Suc (es_Tick s))"
  define seeded where "seeded = (case ?row of None \<Rightarrow> noPrincipal | Some row \<Rightarrow> st_ArmedBy row)"
  define c where "c = WithAmbientOrigin ctx seeded"
  have user: "c_User c = Some tid" using assms(2) by (simp add: c_def WithAmbientOrigin_def)
  obtain tx g where b: "Begin ?i ?n c (factoryOf s) = (Ok (?i, WithTransaction c ?i), g)"
    and tx: "sf_txHeap g ?i = Some tx" "tx_ID tx = ?i" "tx_Buffer tx = []" "tx_Deletes tx = []" "checkOpen tx = Ok ()"
      "tx_SnapshotTime tx = fireSnapshot e s"
    and g: "sf_entityData g = sf_entityData (factoryOf s)" "sf_scheduledTasks g = sf_scheduledTasks (factoryOf s)"
    using Begin_fresh [of c tid ?i ?n "factoryOf s"] user assms(3) unfolding fireSnapshot_def by metis
  have rt: "resolveTenant (WithTransaction c ?i) = Inr tid" "resolveTenant c = Ok tid"
    using user assms(3) by (simp_all add: resolveTenant_def WithTransaction_def)
  have row: "scheduledTaskStore_Get (st_ID task) g = ?row" using g(2) by (simp add: scheduledTaskStore_Get_def)
  let ?s1 = "s\<lparr>es_Tick := Suc (Suc (es_Tick s)), es_Stores := (es_Stores s)\<lparr>db_Factory := g\<rparr>\<rparr>"
  have s1: "factoryOf ?s1 = g" by (simp add: factoryOf_def)
  have "run_state (case ?row of
      None \<Rightarrow> fireCommit e c ?i OutcomeDropped
    | Some cur \<Rightarrow>
        if st_TenantID cur \<noteq> st_TenantID task then fireAbort (WithTransaction c ?i) ?i None
        else if st_ArmedBy cur \<noteq> seeded then fireAbort (WithTransaction c ?i) ?i (Some (EBadRequest ''re-armed concurrently''))
        else fireGuarded e c (WithTransaction c ?i) ?i tid cur (st_ID task)) ?s1 = ((out, err), s')"
    using assms(1) b rt(1) row s1
    by (simp add: FireScheduledTransition_def beginTx_def newUUID_def now_def Let_def seeded_def [symmetric] c_def [symmetric]
        factoryOf_stores split del: if_split cong: option.case_cong if_cong)
  then show thesis by (intro that [OF tx rt(2) g]) (cases ?row; simp add: seeded_def split: if_splits)
qed



end
