(* ===== verification/Scheduler.thy ===== *)
theory Scheduler
  imports WfFire "HOL-Library.Word"
begin

text \<open>
  \<^verbatim>\<open>internal/scheduler\<close>: the scan loop that hands due tasks to the cluster. One member, the coordinator, scans
  on each tick; it marks every due task of a batch so that the next ticks leave it alone for a while, and picks
  a member to run it. \<^verbatim>\<open>tick\<close> returns the dispatches in their order; the goroutine that runs one of them calls the
  executor, whose local form fires the task under the system identity. The list of members and the clock
  reading are arguments; \<open>None\<close> is a failed \<^verbatim>\<open>Registry.List\<close>. The task store's calls do not fail on the memory
  plugin, so their error branches are left out.
\<close>

subsection \<open>Strategies\<close>

definition LowestLiveNodeID_IsCoordinator :: "string list \<Rightarrow> string \<Rightarrow> bool" where
  "LowestLiveNodeID_IsCoordinator members selfID =
     (case members of
        [] \<Rightarrow> True
      | m # ms \<Rightarrow> selfID = fold (\<lambda>x lowest. if x < lowest then x else lowest) ms m)"

type_synonym cursor = "64 word"

definition RoundRobin_Pick :: "string list \<Rightarrow> string \<Rightarrow> cursor \<Rightarrow> string \<times> cursor" where
  "RoundRobin_Pick members selfID c =
     (if members = [] then (selfID, c)
      else let ids = sort members in (ids ! (unat c mod length ids), c + 1))"

definition Self_Pick :: "string list \<Rightarrow> string \<Rightarrow> string" where
  "Self_Pick members selfID = selfID"

subsection \<open>The scan\<close>

record Config =
  cfg_Enabled :: bool
  cfg_RedispatchBackoff :: int
  cfg_BatchSize :: int

type_synonym dispatch = "ScheduledTask \<times> string"

fun dispatchLoop ::
  "string list \<Rightarrow> string \<Rightarrow> int \<Rightarrow> ScheduledTask list \<Rightarrow> cursor \<times> StoreFactory \<Rightarrow> dispatch list \<times> cursor \<times> StoreFactory" where
  "dispatchLoop members selfID redispatchAfter [] (c, f) = ([], c, f)"
| "dispatchLoop members selfID redispatchAfter (task # tasks) (c, f) =
     (let f1 = scheduledTaskStore_MarkRedispatch (st_ID task) redispatchAfter f;
          (target, c1) = RoundRobin_Pick members selfID c;
          (ds, c2, f2) = dispatchLoop members selfID redispatchAfter tasks (c1, f1)
      in ((task, target) # ds, c2, f2))"

definition Service_tick ::
  "Config \<Rightarrow> string \<Rightarrow> string list option \<Rightarrow> time \<Rightarrow> cursor \<times> StoreFactory \<Rightarrow> dispatch list \<times> cursor \<times> StoreFactory" where
  "Service_tick cfg selfID listed clock st =
     (if \<not> cfg_Enabled cfg then ([], st)
      else case listed of
        None \<Rightarrow> ([], st)
      | Some members \<Rightarrow>
          if \<not> LowestLiveNodeID_IsCoordinator members selfID then ([], st)
          else dispatchLoop members selfID (unixMilli (clock + cfg_RedispatchBackoff cfg))
                 (scheduledTaskStore_ScanDue (unixMilli clock) (cfg_BatchSize cfg) (snd st)) st)"

definition SystemUserContext :: "tenant \<Rightarrow> Ctx" where
  "SystemUserContext tid =
     \<lparr>c_User = Some tid, c_Tx = None, c_UniqueKeys = [],
      c_Attribution = \<lparr>Attributed = systemPrincipal, Executor = systemPrincipal\<rparr>,
      c_Origin = systemPrincipal, c_Err = (\<lambda>_ _. False)\<rparr>"

definition LocalExecutor_Execute :: "Engine \<Rightarrow> dispatch \<Rightarrow> fired eng" where
  "LocalExecutor_Execute e d = FireScheduledTransition e (SystemUserContext (st_TenantID (fst d))) (fst d)"

text \<open>
  A sequence of ticks. Before each of them the rest of the system runs, changing the store as \<open>env\<close> says. The
  result lists, per tick, the store it scanned and what it dispatched.
\<close>

record tickInput =
  tk_env :: "StoreFactory \<Rightarrow> StoreFactory"
  tk_members :: "string list option"
  tk_now :: time

fun scanRun :: "Config \<Rightarrow> string \<Rightarrow> tickInput list \<Rightarrow> cursor \<times> StoreFactory \<Rightarrow> (StoreFactory \<times> dispatch list) list" where
  "scanRun cfg selfID [] st = []"
| "scanRun cfg selfID (tk # tks) (c, f) =
     (let g = tk_env tk f; (ds, st) = Service_tick cfg selfID (tk_members tk) (tk_now tk) (c, g)
      in (g, ds) # scanRun cfg selfID tks st)"

text \<open>The tasks a scan may prefer to one scheduled at \<open>at\<close> at some time up to \<open>horizon\<close>.\<close>

definition preferred :: "int \<Rightarrow> int \<Rightarrow> ScheduledTask \<Rightarrow> bool" where
  "preferred at horizon t \<longleftrightarrow>
     st_ScheduledTime t \<le> at \<and> (case st_RedispatchAfter t of None \<Rightarrow> True | Some after \<Rightarrow> after \<le> horizon)"

definition ahead :: "int \<Rightarrow> int \<Rightarrow> StoreFactory \<Rightarrow> nat" where
  "ahead at horizon f = length (filter (preferred at horizon) (map snd (sf_scheduledTasks f)))"

text \<open>
  A tick on which the task \<open>k\<close> is due and this node scans, inside a window up to \<open>horizon\<close> that ends before the marks
  of the tick do; what runs before it files rows under their ids and arms no earlier task.
\<close>

definition scans :: "Config \<Rightarrow> string \<Rightarrow> ScheduledTask \<Rightarrow> int \<Rightarrow> tickInput \<Rightarrow> bool" where
  "scans cfg selfID k horizon tk \<longleftrightarrow>
     (\<exists>members. tk_members tk = Some members \<and> LowestLiveNodeID_IsCoordinator members selfID) \<and>
     taskDue (unixMilli (tk_now tk)) k \<and> unixMilli (tk_now tk) \<le> horizon \<and>
     horizon < unixMilli (tk_now tk + cfg_RedispatchBackoff cfg) \<and>
     (\<forall>f. tasks_ok (sf_scheduledTasks f) \<longrightarrow>
        tasks_ok (sf_scheduledTasks (tk_env tk f)) \<and>
        ahead (st_ScheduledTime k) horizon (tk_env tk f) \<le> ahead (st_ScheduledTime k) horizon f)"

text \<open>Marking rows.\<close>

definition markRow :: "int \<Rightarrow> ScheduledTask \<Rightarrow> ScheduledTask" where
  "markRow after t = t\<lparr>st_RedispatchAfter := Some after, st_AttemptCount := wrap64 (st_AttemptCount t + 1)\<rparr>"

definition markRows :: "int \<Rightarrow> string set \<Rightarrow> (string \<times> ScheduledTask) list \<Rightarrow> (string \<times> ScheduledTask) list" where
  "markRows after ids = map (\<lambda>(i, t). (i, if i \<in> ids then markRow after t else t))"

text \<open>Two tasks due at once, scanned one per tick.\<close>

definition twoDue :: StoreFactory where
  "twoDue = NewStoreFactory\<lparr>sf_scheduledTasks := [(''a'', lateTask\<lparr>st_ID := ''a''\<rparr>), (''k'', lateTask)]\<rparr>"

definition oneByOne :: Config where
  "oneByOne = \<lparr>cfg_Enabled = True, cfg_RedispatchBackoff = 30000000000, cfg_BatchSize = 1\<rparr>"

definition idleTick :: "time \<Rightarrow> tickInput" where
  "idleTick t = \<lparr>tk_env = (\<lambda>f. f), tk_members = Some [''n2'', ''n1''], tk_now = t\<rparr>"

lemma update_in_place:
  "distinct (map fst ts) \<Longrightarrow> map_of ts k \<noteq> None \<Longrightarrow> AList.update k v ts = map (\<lambda>(i, t). (i, if i = k then v else t)) ts"
proof (induction ts)
  case (Cons p ts)
  obtain i t where p: "p = (i, t)" by (rule prod.exhaust)
  have "map (\<lambda>(i, t). (i, if i = k then v else t)) ts = ts" if "k \<notin> fst ` set ts"
    using that by (force intro!: map_idI)
  then show ?case using Cons p by (auto simp: map_of_eq_None_iff rev_image_eqI)
qed simp

lemma markRows_empty [simp]: "markRows after {} ts = ts"
  by (auto simp: markRows_def intro!: map_idI)

lemma markRows_union:
  "A \<inter> B = {} \<Longrightarrow> markRows after A (markRows after B ts) = markRows after (A \<union> B) ts"
  by (auto simp: markRows_def)

lemma fst_markRows [simp]: "map fst (markRows after A ts) = map fst ts"
  by (auto simp: markRows_def)

lemma MarkRedispatch_rows:
  assumes "tasks_ok (sf_scheduledTasks f)"
  shows "sf_scheduledTasks (scheduledTaskStore_MarkRedispatch i after f) = markRows after {i} (sf_scheduledTasks f)"
proof (cases "map_of (sf_scheduledTasks f) i")
  case None
  then have "i \<notin> fst ` set (sf_scheduledTasks f)" by (simp add: map_of_eq_None_iff)
  then show ?thesis using None by (force simp: scheduledTaskStore_MarkRedispatch_def markRows_def intro!: map_idI [symmetric])
next
  case (Some t)
  have "u = t" if "(i, u) \<in> set (sf_scheduledTasks f)" for u
    using that map_of_SomeD [OF Some] assms by (auto simp: tasks_ok_def dest: eq_key_imp_eq_value)
  then have "map (\<lambda>(j, u). (j, if j = i then markRow after t else u)) (sf_scheduledTasks f) = markRows after {i} (sf_scheduledTasks f)"
    unfolding markRows_def by (intro map_cong refl) (auto split: prod.split)
  moreover have "AList.update i (markRow after t) (sf_scheduledTasks f) =
      map (\<lambda>(j, u). (j, if j = i then markRow after t else u)) (sf_scheduledTasks f)"
    using Some assms by (intro update_in_place) (simp_all add: tasks_ok_def)
  ultimately show ?thesis using Some by (simp add: scheduledTaskStore_MarkRedispatch_def markRow_def)
qed

lemma tasks_ok_markRows: "tasks_ok ts \<Longrightarrow> tasks_ok (markRows after A ts)"
  by (auto simp: tasks_ok_def markRows_def list_all_iff markRow_def comp_def case_prod_beta)

lemma dispatchLoop_rows:
  assumes "dispatchLoop members selfID after tasks (c, f) = (ds, c', g)" "tasks_ok (sf_scheduledTasks f)"
    and "distinct (map st_ID tasks)"
  shows "map fst ds = tasks" "sf_scheduledTasks g = markRows after (st_ID ` set tasks) (sf_scheduledTasks f)"
proof -
  have "map fst ds = tasks \<and> sf_scheduledTasks g = markRows after (st_ID ` set tasks) (sf_scheduledTasks f)"
    using assms
  proof (induction tasks arbitrary: c f ds)
    case (Cons task tasks)
    let ?f1 = "scheduledTaskStore_MarkRedispatch (st_ID task) after f"
    obtain target c1 where p: "RoundRobin_Pick members selfID c = (target, c1)" by (rule prod.exhaust)
    obtain ds' where l: "dispatchLoop members selfID after tasks (c1, ?f1) = (ds', c', g)" "ds = (task, target) # ds'"
      using Cons.prems(1) p by (auto split: prod.splits)
    have f1: "sf_scheduledTasks ?f1 = markRows after {st_ID task} (sf_scheduledTasks f)"
      by (rule MarkRedispatch_rows [OF Cons.prems(2)])
    then have "tasks_ok (sf_scheduledTasks ?f1)" using Cons.prems(2) by (simp add: tasks_ok_markRows)
    from Cons.IH [OF l(1) this] Cons.prems(3) l(2) f1 show ?case
      by (auto simp: markRows_union)
  qed simp
  then show "map fst ds = tasks" "sf_scheduledTasks g = markRows after (st_ID ` set tasks) (sf_scheduledTasks f)" by simp_all
qed

subsection \<open>A scan that leaves a due task behind was full of earlier ones\<close>

lemma tasks_ok_distinct:
  assumes "tasks_ok ts" shows "distinct (map snd ts)" "inj_on st_ID (set (map snd ts))"
proof -
  have "map st_ID (map snd ts) = map fst ts" using assms by (auto simp: tasks_ok_def list_all_iff)
  then have "distinct (map st_ID (map snd ts))" using assms by (metis tasks_ok_def)
  then show "distinct (map snd ts)" "inj_on st_ID (set (map snd ts))" unfolding distinct_map by simp_all
qed

lemma ScanDue_subset:
  assumes "tasks_ok (sf_scheduledTasks f)"
  shows "set (scheduledTaskStore_ScanDue ms limit f) \<subseteq> {t \<in> snd ` set (sf_scheduledTasks f). taskDue ms t}"
    and "distinct (map st_ID (scheduledTaskStore_ScanDue ms limit f))"
proof -
  let ?due = "filter (taskDue ms) (map snd (sf_scheduledTasks f))"
  show sub: "set (scheduledTaskStore_ScanDue ms limit f) \<subseteq> {t \<in> snd ` set (sf_scheduledTasks f). taskDue ms t}"
    by (auto simp: scheduledTaskStore_ScanDue_def Let_def dest!: in_set_takeD split: if_splits)
  have "distinct (scheduledTaskStore_ScanDue ms limit f)"
    using tasks_ok_distinct(1) [OF assms] by (simp add: scheduledTaskStore_ScanDue_def Let_def)
  then show "distinct (map st_ID (scheduledTaskStore_ScanDue ms limit f))"
    using tasks_ok_distinct(2) [OF assms] sub by (auto simp: distinct_map intro: inj_on_subset)
qed

lemma ScanDue_full:
  assumes "k \<in> snd ` set (sf_scheduledTasks f)" "taskDue ms k" "k \<notin> set (scheduledTaskStore_ScanDue ms limit f)" "0 < limit"
  shows "length (scheduledTaskStore_ScanDue ms limit f) = nat limit"
    and "t \<in> set (scheduledTaskStore_ScanDue ms limit f) \<Longrightarrow> st_ScheduledTime t \<le> st_ScheduledTime k"
proof -
  define out where "out = sort_key st_ScheduledTime (filter (taskDue ms) (map snd (sf_scheduledTasks f)))"
  have k: "k \<in> set out" using assms(1,2) by (simp add: out_def)
  have "limit < int (length out)"
    using k assms(3,4) by (auto simp: scheduledTaskStore_ScanDue_def Let_def out_def [symmetric] split: if_splits)
  then have scan: "scheduledTaskStore_ScanDue ms limit f = take (nat limit) out"
    using assms(4) by (simp add: scheduledTaskStore_ScanDue_def Let_def out_def [symmetric])
  show "length (scheduledTaskStore_ScanDue ms limit f) = nat limit" using \<open>limit < int (length out)\<close> by (simp add: scan)
  assume t: "t \<in> set (scheduledTaskStore_ScanDue ms limit f)"
  have split: "set out = set (take (nat limit) out) \<union> set (drop (nat limit) out)"
    by (metis append_take_drop_id set_append)
  have "sorted (map st_ScheduledTime (take (nat limit) out @ drop (nat limit) out))" by (simp add: out_def)
  then have "\<forall>x \<in> set (take (nat limit) out). \<forall>y \<in> set (drop (nat limit) out). st_ScheduledTime x \<le> st_ScheduledTime y"
    unfolding map_append sorted_append set_map ball_simps by blast
  then show "st_ScheduledTime t \<le> st_ScheduledTime k" using t k assms(3) split unfolding scan by blast
qed

lemma length_filter_split:
  "length (filter P xs) = length (filter (\<lambda>x. P x \<and> Q x) xs) + length (filter (\<lambda>x. P x \<and> \<not> Q x) xs)"
  by (induction xs) auto

lemma ahead_marked:
  assumes ok: "tasks_ok (sf_scheduledTasks f)" and g: "sf_scheduledTasks g = markRows after (st_ID ` set batch) (sf_scheduledTasks f)"
    and "horizon < after" "distinct batch" "set batch \<subseteq> {t \<in> snd ` set (sf_scheduledTasks f). preferred at horizon t}"
  shows "length batch + ahead at horizon g \<le> ahead at horizon f"
proof -
  let ?ts = "map snd (sf_scheduledTasks f)" and ?in = "\<lambda>t. st_ID t \<in> st_ID ` set batch"
  have id: "\<forall>(i, t) \<in> set (sf_scheduledTasks f). st_ID t = i" using ok by (auto simp: tasks_ok_def list_all_iff)
  have gone: "\<not> preferred at horizon (markRow after t)" for t using assms(3) by (simp add: preferred_def markRow_def)
  have "filter (preferred at horizon) (map snd (markRows after (st_ID ` set batch) ts)) =
      filter (\<lambda>t. preferred at horizon t \<and> \<not> ?in t) (map snd ts)" if "\<forall>(i, t) \<in> set ts. st_ID t = i" for ts
    using that gone by (induction ts) (auto simp: markRows_def split: if_splits)
  then have "ahead at horizon g = length (filter (\<lambda>t. preferred at horizon t \<and> \<not> ?in t) ?ts)"
    using id g by (simp add: ahead_def)
  moreover have "ahead at horizon f = length (filter (\<lambda>t. preferred at horizon t \<and> ?in t) ?ts) +
      length (filter (\<lambda>t. preferred at horizon t \<and> \<not> ?in t) ?ts)"
    unfolding ahead_def by (rule length_filter_split)
  moreover have "length batch \<le> length (filter (\<lambda>t. preferred at horizon t \<and> ?in t) ?ts)"
  proof -
    have "set batch \<subseteq> set (filter (\<lambda>t. preferred at horizon t \<and> ?in t) ?ts)" using assms(5) by auto
    from card_mono [OF List.finite_set this]
    have "card (set batch) \<le> length (filter (\<lambda>t. preferred at horizon t \<and> ?in t) ?ts)"
      by (rule order_trans) (rule card_length)
    then show ?thesis using assms(4) by (simp add: distinct_card)
  qed
  ultimately show ?thesis by simp
qed

lemma tick_progress:
  assumes ok: "tasks_ok (sf_scheduledTasks f)" and k: "map_of (sf_scheduledTasks f) (st_ID k) = Some k"
    and cfg: "cfg_Enabled cfg" "0 < cfg_BatchSize cfg" and tk: "scans cfg selfID k horizon tk"
    and run: "Service_tick cfg selfID (tk_members tk) (tk_now tk) (c, f) = (ds, c', g)"
    and left: "st_ID k \<notin> st_ID ` fst ` set ds"
  shows "nat (cfg_BatchSize cfg) + ahead (st_ScheduledTime k) horizon g \<le> ahead (st_ScheduledTime k) horizon f"
    and "tasks_ok (sf_scheduledTasks g)"
proof -
  let ?ms = "unixMilli (tk_now tk)" and ?after = "unixMilli (tk_now tk + cfg_RedispatchBackoff cfg)"
  define batch where "batch = scheduledTaskStore_ScanDue ?ms (cfg_BatchSize cfg) f"
  obtain members where loop: "dispatchLoop members selfID ?after batch (c, f) = (ds, c', g)"
    using run cfg(1) tk by (auto simp: Service_tick_def scans_def batch_def)
  note sub = ScanDue_subset [OF ok, of ?ms "cfg_BatchSize cfg", folded batch_def]
  have rows: "map fst ds = batch" "sf_scheduledTasks g = markRows ?after (st_ID ` set batch) (sf_scheduledTasks f)"
    by (rule dispatchLoop_rows [OF loop ok sub(2)])+
  have "k \<notin> set batch" using left rows(1) by (metis image_eqI list.set_map)
  moreover have kin: "k \<in> snd ` set (sf_scheduledTasks f)" using map_of_SomeD [OF k] by force
  moreover have due: "taskDue ?ms k" "?ms \<le> horizon" "horizon < ?after" using tk by (simp_all add: scans_def)
  ultimately have full: "length batch = nat (cfg_BatchSize cfg)" "\<And>t. t \<in> set batch \<Longrightarrow> st_ScheduledTime t \<le> st_ScheduledTime k"
    using ScanDue_full [of k f ?ms "cfg_BatchSize cfg", folded batch_def] cfg(2) by simp_all
  have "set batch \<subseteq> {t \<in> snd ` set (sf_scheduledTasks f). preferred (st_ScheduledTime k) horizon t}"
    using sub(1) full(2) due(2) by (fastforce simp: preferred_def taskDue_def split: option.splits)
  from ahead_marked [OF ok rows(2) due(3) _ this] sub(2)
  show "nat (cfg_BatchSize cfg) + ahead (st_ScheduledTime k) horizon g \<le> ahead (st_ScheduledTime k) horizon f"
    by (simp add: full(1) distinct_map)
  show "tasks_ok (sf_scheduledTasks g)" using ok by (simp add: rows(2) tasks_ok_markRows)
qed



end
