(* ===== verification/TxGate.thy ===== *)
theory TxGate
  imports GoPrelude
begin

text \<open>
  \<^verbatim>\<open>internal/txgate\<close>: exclusive gates per transaction id, handed out by a registry that forgets a gate when nobody
  uses it. The calls of \<^verbatim>\<open>Acquire\<close> and of the release functions it returns run on any goroutines, so the model is
  a system of calls: one step is one critical section of the registry's mutex, or one lock or unlock of a gate.
  Gates live on a heap, because the property depends on two calls meeting at the same gate object.
\<close>

record gate =
  g_mu :: "nat option"
  g_refs :: int

text \<open>Where a call is: between the registry section and the gate's lock, holding it, or before the last section.\<close>

datatype gatePc = Free | Waiting txid nat | Holding txid nat | Releasing txid nat

record Registry =
  r_gates :: "txid \<rightharpoonup> nat"
  r_heap :: "nat \<Rightarrow> gate"
  r_next :: nat
  r_pc :: "nat \<Rightarrow> gatePc"

definition New :: Registry where
  "New = \<lparr>r_gates = Map.empty, r_heap = (\<lambda>_. \<lparr>g_mu = None, g_refs = 0\<rparr>), r_next = 0, r_pc = (\<lambda>_. Free)\<rparr>"

datatype gateOp = Enter nat txid | Lock nat | Unlock nat | Leave nat

text \<open>
  One step; \<open>None\<close> when the call is not there or the gate's mutex is taken. An empty transaction id is never
  gated, so no call enters with it.
\<close>

definition enter :: "nat \<Rightarrow> txid \<Rightarrow> Registry \<Rightarrow> Registry" where
  "enter p t r =
     (let (a, r1) = (case r_gates r t of
                       Some a \<Rightarrow> (a, r)
                     | None \<Rightarrow> (r_next r, r\<lparr>r_gates := (r_gates r)(t \<mapsto> r_next r),
                                            r_heap := (r_heap r)(r_next r := \<lparr>g_mu = None, g_refs = 0\<rparr>),
                                            r_next := Suc (r_next r)\<rparr>));
          g = r_heap r1 a
      in r1\<lparr>r_heap := (r_heap r1)(a := g\<lparr>g_refs := g_refs g + 1\<rparr>), r_pc := (r_pc r1)(p := Waiting t a)\<rparr>)"

definition leave :: "nat \<Rightarrow> txid \<Rightarrow> nat \<Rightarrow> Registry \<Rightarrow> Registry" where
  "leave p t a r =
     (let g = (r_heap r a)\<lparr>g_refs := g_refs (r_heap r a) - 1\<rparr>
      in r\<lparr>r_heap := (r_heap r)(a := g), r_pc := (r_pc r)(p := Free),
           r_gates := (if g_refs g = 0 then (r_gates r)(t := None) else r_gates r)\<rparr>)"

fun gateStep :: "gateOp \<Rightarrow> Registry \<Rightarrow> Registry option" where
  "gateStep (Enter p t) r = (if t = [] \<or> r_pc r p \<noteq> Free then None else Some (enter p t r))"
| "gateStep (Lock p) r =
     (case r_pc r p of
        Waiting t a \<Rightarrow>
          if g_mu (r_heap r a) = None
          then Some (r\<lparr>r_heap := (r_heap r)(a := (r_heap r a)\<lparr>g_mu := Some p\<rparr>), r_pc := (r_pc r)(p := Holding t a)\<rparr>)
          else None
      | _ \<Rightarrow> None)"
| "gateStep (Unlock p) r =
     (case r_pc r p of
        Holding t a \<Rightarrow>
          Some (r\<lparr>r_heap := (r_heap r)(a := (r_heap r a)\<lparr>g_mu := None\<rparr>), r_pc := (r_pc r)(p := Releasing t a)\<rparr>)
      | _ \<Rightarrow> None)"
| "gateStep (Leave p) r = (case r_pc r p of Releasing t a \<Rightarrow> Some (leave p t a r) | _ \<Rightarrow> None)"

text \<open>The states some interleaving of calls leads to.\<close>

inductive gateReach :: "Registry \<Rightarrow> bool" where
  init: "gateReach New"
| step: "gateReach r \<Longrightarrow> gateStep op r = Some r' \<Longrightarrow> gateReach r'"

subsection \<open>A held gate across a callout\<close>

text \<open>
  \<^verbatim>\<open>WithHeld\<close> and \<^verbatim>\<open>Suspend\<close>: the handle of a call chain that holds a gate. A suspend releases the gate once and
  returns a resume function that acquires it again at most once; \<open>h_once\<close> holds, per resume function handed out,
  whether it may still act. \<open>h_acquired\<close> and \<open>h_released\<close> count the calls of \<^verbatim>\<open>Acquire\<close> and of release functions.
\<close>

record held =
  h_active :: bool
  h_once :: "bool list"
  h_acquired :: nat
  h_released :: nat

definition WithHeld :: held where
  "WithHeld = \<lparr>h_active = True, h_once = [], h_acquired = 1, h_released = 0\<rparr>"

definition suspend :: "held \<Rightarrow> nat option \<times> held" where
  "suspend h =
     (if \<not> h_active h then (None, h)
      else (Some (length (h_once h)),
            h\<lparr>h_active := False, h_once := h_once h @ [True], h_released := Suc (h_released h)\<rparr>))"

definition resume :: "nat option \<Rightarrow> held \<Rightarrow> held" where
  "resume fn h =
     (case fn of
        None \<Rightarrow> h
      | Some i \<Rightarrow>
          if i < length (h_once h) \<and> h_once h ! i
          then h\<lparr>h_active := True, h_once := (h_once h)[i := False], h_acquired := Suc (h_acquired h)\<rparr>
          else h)"

datatype heldOp = Suspend | Resume "nat option"

definition heldStep :: "heldOp \<Rightarrow> held \<Rightarrow> held" where
  "heldStep op h = (case op of Suspend \<Rightarrow> snd (suspend h) | Resume fn \<Rightarrow> resume fn h)"

subsection \<open>The invariant\<close>

fun uses :: "gatePc \<Rightarrow> (txid \<times> nat) option" where
  "uses Free = None"
| "uses (Waiting t a) = Some (t, a)"
| "uses (Holding t a) = Some (t, a)"
| "uses (Releasing t a) = Some (t, a)"

definition users :: "Registry \<Rightarrow> nat \<Rightarrow> nat set" where
  "users r a = {p. \<exists>t. uses (r_pc r p) = Some (t, a)}"

definition gate_inv :: "Registry \<Rightarrow> bool" where
  "gate_inv r \<longleftrightarrow>
     finite {p. r_pc r p \<noteq> Free} \<and>
     (\<forall>p t a. uses (r_pc r p) = Some (t, a) \<longrightarrow> r_gates r t = Some a) \<and>
     (\<forall>t a. r_gates r t = Some a \<longrightarrow> a < r_next r \<and> users r a \<noteq> {} \<and> g_refs (r_heap r a) = int (card (users r a))) \<and>
     inj_on (r_gates r) (dom (r_gates r)) \<and>
     (\<forall>p t a. r_pc r p = Holding t a \<longrightarrow> g_mu (r_heap r a) = Some p) \<and>
     (\<forall>t a p. r_gates r t = Some a \<longrightarrow> g_mu (r_heap r a) = Some p \<longrightarrow> r_pc r p = Holding t a)"

lemma gate_inv_New: "gate_inv New"
  by (simp add: gate_inv_def New_def users_def)

lemma gate_inv_D:
  assumes "gate_inv r"
  shows "finite {p. r_pc r p \<noteq> Free}" "uses (r_pc r p) = Some (t, a) \<Longrightarrow> r_gates r t = Some a"
    "r_gates r t = Some a \<Longrightarrow> a < r_next r \<and> users r a \<noteq> {} \<and> g_refs (r_heap r a) = int (card (users r a))"
    "r_gates r t = Some a \<Longrightarrow> r_gates r t' = Some a \<Longrightarrow> t = t'"
    "r_pc r p = Holding t a \<Longrightarrow> g_mu (r_heap r a) = Some p"
    "r_gates r t = Some a \<Longrightarrow> g_mu (r_heap r a) = Some p \<Longrightarrow> r_pc r p = Holding t a"
proof -
  have inj: "inj_on (r_gates r) (dom (r_gates r))" using assms unfolding gate_inv_def by blast
  show "finite {p. r_pc r p \<noteq> Free}" "uses (r_pc r p) = Some (t, a) \<Longrightarrow> r_gates r t = Some a"
    "r_gates r t = Some a \<Longrightarrow> a < r_next r \<and> users r a \<noteq> {} \<and> g_refs (r_heap r a) = int (card (users r a))"
    "r_pc r p = Holding t a \<Longrightarrow> g_mu (r_heap r a) = Some p"
    "r_gates r t = Some a \<Longrightarrow> g_mu (r_heap r a) = Some p \<Longrightarrow> r_pc r p = Holding t a"
    using assms unfolding gate_inv_def by blast+
  show "r_gates r t = Some a \<Longrightarrow> r_gates r t' = Some a \<Longrightarrow> t = t'"
    using inj_onD [OF inj, of t t'] by (simp add: domI)
qed

lemma gate_inv_I:
  assumes "finite {p. r_pc r p \<noteq> Free}" "\<And>p t a. uses (r_pc r p) = Some (t, a) \<Longrightarrow> r_gates r t = Some a"
    "\<And>t a. r_gates r t = Some a \<Longrightarrow> a < r_next r \<and> users r a \<noteq> {} \<and> g_refs (r_heap r a) = int (card (users r a))"
    "\<And>t t' a. r_gates r t = Some a \<Longrightarrow> r_gates r t' = Some a \<Longrightarrow> t = t'"
    "\<And>p t a. r_pc r p = Holding t a \<Longrightarrow> g_mu (r_heap r a) = Some p"
    "\<And>p t a. r_gates r t = Some a \<Longrightarrow> g_mu (r_heap r a) = Some p \<Longrightarrow> r_pc r p = Holding t a"
  shows "gate_inv r"
proof -
  have "inj_on (r_gates r) (dom (r_gates r))"
  proof (rule inj_onI)
    fix t t' assume "t \<in> dom (r_gates r)" "r_gates r t = r_gates r t'"
    then show "t = t'" using assms(4) [of t _ t'] by (metis domD)
  qed
  then show ?thesis using assms(1-3,5,6) unfolding gate_inv_def by blast
qed

lemma finite_users: "gate_inv r \<Longrightarrow> finite (users r a)"
  by (rule finite_subset [OF _ gate_inv_D(1)]) (auto simp: users_def)

lemma finite_pc: "finite {p. r_pc r p \<noteq> Free} \<Longrightarrow> finite {q. ((r_pc r)(p := c)) q \<noteq> Free}"
  by (rule finite_subset [of _ "insert p {p. r_pc r p \<noteq> Free}"]) auto

lemma users_update:
  "users (r\<lparr>r_heap := h, r_pc := (r_pc r)(p := c)\<rparr>) a =
     (if \<exists>t. uses c = Some (t, a) then insert p (users r a) else users r a - {p})"
  by (auto simp: users_def)

lemma users_same: "uses c = uses (r_pc r p) \<Longrightarrow> users (r\<lparr>r_heap := h, r_pc := (r_pc r)(p := c)\<rparr>) a = users r a"
  by (auto simp: users_def)

lemma gate_inv_lock:
  assumes inv: "gate_inv r" and pc: "r_pc r p = Waiting t a" "g_mu (r_heap r a) = None"
  shows "gate_inv (r\<lparr>r_heap := (r_heap r)(a := (r_heap r a)\<lparr>g_mu := Some p\<rparr>), r_pc := (r_pc r)(p := Holding t a)\<rparr>)"
    (is "gate_inv ?r")
proof (rule gate_inv_I)
  note D = gate_inv_D [OF inv]
  have ga: "r_gates r t = Some a" using D(2) [of p] pc(1) by simp
  have u: "users ?r b = users r b" for b using pc(1) by (intro users_same) simp
  show "finite {p. r_pc ?r p \<noteq> Free}" using finite_pc [OF D(1)] by simp
  show "r_gates ?r t' = Some b" if "uses (r_pc ?r q) = Some (t', b)" for q t' b
    using that D(2) [of q] ga by (auto split: if_splits)
  show "b < r_next ?r \<and> users ?r b \<noteq> {} \<and> g_refs (r_heap ?r b) = int (card (users ?r b))" if "r_gates ?r t' = Some b" for t' b
    using D(3) [of t' b] that unfolding u by auto
  show "t' = t''" if "r_gates ?r t' = Some b" "r_gates ?r t'' = Some b" for t' t'' b using D(4) that by simp
  show "g_mu (r_heap ?r b) = Some q" if "r_pc ?r q = Holding t' b" for q t' b
    using that D(5) [of q t' b] pc(2) by (auto split: if_splits)
  show "r_pc ?r q = Holding t' b" if "r_gates ?r t' = Some b" "g_mu (r_heap ?r b) = Some q" for q t' b
    using that D(6) [of t' b q] D(4) [of t' a t] ga pc(1) by (auto split: if_splits)
qed

lemma gate_inv_unlock:
  assumes inv: "gate_inv r" and pc: "r_pc r p = Holding t a"
  shows "gate_inv (r\<lparr>r_heap := (r_heap r)(a := (r_heap r a)\<lparr>g_mu := None\<rparr>), r_pc := (r_pc r)(p := Releasing t a)\<rparr>)"
    (is "gate_inv ?r")
proof (rule gate_inv_I)
  note D = gate_inv_D [OF inv]
  have ga: "r_gates r t = Some a" using D(2) [of p] pc by simp
  have u: "users ?r b = users r b" for b using pc by (intro users_same) simp
  show "finite {p. r_pc ?r p \<noteq> Free}" using finite_pc [OF D(1)] by simp
  show "r_gates ?r t' = Some b" if "uses (r_pc ?r q) = Some (t', b)" for q t' b
    using that D(2) [of q] ga by (auto split: if_splits)
  show "b < r_next ?r \<and> users ?r b \<noteq> {} \<and> g_refs (r_heap ?r b) = int (card (users ?r b))" if "r_gates ?r t' = Some b" for t' b
    using D(3) [of t' b] that unfolding u by auto
  show "t' = t''" if "r_gates ?r t' = Some b" "r_gates ?r t'' = Some b" for t' t'' b using D(4) that by simp
  show "g_mu (r_heap ?r b) = Some q" if "r_pc ?r q = Holding t' b" for q t' b
    using that D(5) [of q t' b] D(5) [OF pc] by (auto split: if_splits)
  show "r_pc ?r q = Holding t' b" if "r_gates ?r t' = Some b" "g_mu (r_heap ?r b) = Some q" for q t' b
    using that D(6) [of t' b q] D(5) [OF pc] pc by (auto split: if_splits)
qed

lemma gate_inv_leave:
  assumes inv: "gate_inv r" and pc: "r_pc r p = Releasing t a"
  shows "gate_inv (leave p t a r)" (is "gate_inv ?r")
proof (rule gate_inv_I)
  note D = gate_inv_D [OF inv]
  have ga: "r_gates r t = Some a" using D(2) [of p] pc by simp
  have pa: "p \<in> users r a" using pc by (simp add: users_def)
  have u: "users ?r b = (if b = a then users r a - {p} else users r b)" for b
    using pc by (auto simp: users_def leave_def Let_def)
  have refs: "g_refs (r_heap ?r a) = int (card (users r a - {p}))"
    using D(3) [OF ga] pa finite_users [OF inv, of a] card_gt_0_iff [of "users r a"]
    by (auto simp: leave_def Let_def)
  have empty: "g_refs (r_heap r a) - 1 = 0 \<longleftrightarrow> users r a - {p} = {}"
    using refs finite_users [OF inv, of a] by (simp add: leave_def Let_def)
  have gates: "r_gates ?r t' = Some b \<longleftrightarrow> r_gates r t' = Some b \<and> (t' = t \<longrightarrow> users r a - {p} \<noteq> {})" for t' b
    using empty by (auto simp: leave_def Let_def)
  have heap: "b \<noteq> a \<Longrightarrow> r_heap ?r b = r_heap r b" "g_mu (r_heap ?r b) = g_mu (r_heap r b)" "r_next ?r = r_next r" for b
    by (simp_all add: leave_def Let_def)
  have pcs: "r_pc ?r = (r_pc r)(p := Free)" by (simp add: leave_def Let_def)
  show "finite {p. r_pc ?r p \<noteq> Free}" unfolding pcs by (rule finite_pc [OF D(1)])
  show "r_gates ?r t' = Some b" if "uses (r_pc ?r q) = Some (t', b)" for q t' b
  proof -
    have q: "q \<noteq> p" "uses (r_pc r q) = Some (t', b)" using that by (auto simp: pcs split: if_splits)
    moreover have "q \<in> users r a" if "t' = t" using D(2) [OF q(2)] ga that q(2) by (auto simp: users_def)
    ultimately show ?thesis using D(2) [OF q(2)] by (auto simp: gates)
  qed
  show "b < r_next ?r \<and> users ?r b \<noteq> {} \<and> g_refs (r_heap ?r b) = int (card (users ?r b))" if "r_gates ?r t' = Some b" for t' b
    using that D(3) [of t' b] D(4) [of t' a t] ga refs by (auto simp: gates u heap)
  show "t' = t''" if "r_gates ?r t' = Some b" "r_gates ?r t'' = Some b" for t' t'' b using D(4) that by (simp add: gates)
  show "g_mu (r_heap ?r b) = Some q" if "r_pc ?r q = Holding t' b" for q t' b
    using that D(5) [of q t' b] by (auto simp: pcs heap split: if_splits)
  show "r_pc ?r q = Holding t' b" if "r_gates ?r t' = Some b" "g_mu (r_heap ?r b) = Some q" for q t' b
    using that D(6) [of t' b q] pc by (auto simp: pcs heap gates)
qed

lemma gate_inv_enter:
  assumes inv: "gate_inv r" and pc: "r_pc r p = Free"
  shows "gate_inv (enter p t r)" (is "gate_inv ?r")
proof -
  note D = gate_inv_D [OF inv]
  define a where "a = (case r_gates r t of Some a \<Rightarrow> a | None \<Rightarrow> r_next r)"
  have pcs: "r_pc ?r = (r_pc r)(p := Waiting t a)" and gates: "r_gates ?r = (r_gates r)(t \<mapsto> a)"
    by (auto simp: enter_def a_def Let_def fun_upd_idem split: option.split)
  have nx: "r_next r \<le> r_next ?r" "a < r_next ?r"
    using D(3) [of t] by (auto simp: enter_def a_def Let_def split: option.split)
  have unused: "users r a = {}" "g_mu (r_heap ?r a) = None" if "r_gates r t = None"
  proof -
    have a: "a = r_next r" using that by (simp add: a_def)
    have "q \<notin> users r a" for q
    proof
      assume "q \<in> users r a"
      then obtain t' where "uses (r_pc r q) = Some (t', a)" by (auto simp: users_def)
      from D(3) [OF D(2) [OF this]] show False using a by simp
    qed
    then show "users r a = {}" by blast
    show "g_mu (r_heap ?r a) = None" using that by (simp add: enter_def a_def Let_def)
  qed
  have pn: "p \<notin> users r b" for b using pc by (simp add: users_def)
  have u: "users ?r b = (if b = a then insert p (users r a) else users r b)" for b
    using pc unfolding users_def pcs by auto
  have heap: "b \<noteq> a \<Longrightarrow> r_heap ?r b = r_heap r b" for b by (auto simp: enter_def a_def Let_def split: option.split)
  have ha: "g_refs (r_heap ?r a) = int (card (insert p (users r a)))"
    using D(3) [of t a] pn finite_users [OF inv, of a] unused(1)
    by (auto simp: enter_def a_def Let_def split: option.splits)
  have mu: "r_gates r t = Some a \<Longrightarrow> g_mu (r_heap ?r a) = g_mu (r_heap r a)" by (simp add: enter_def Let_def)
  have old: "b \<noteq> a" if "r_gates r t' = Some b" "t' \<noteq> t" for t' b
    using that D(3) [OF that(1)] D(4) [of t' b t] by (auto simp: a_def split: option.splits)
  show ?thesis
  proof (rule gate_inv_I)
    show "finite {p. r_pc ?r p \<noteq> Free}" unfolding pcs by (rule finite_pc [OF D(1)])
    show "r_gates ?r t' = Some b" if "uses (r_pc ?r q) = Some (t', b)" for q t' b
      using that D(2) [of q t' b] by (auto simp: pcs gates a_def split: if_splits)
    show "b < r_next ?r \<and> users ?r b \<noteq> {} \<and> g_refs (r_heap ?r b) = int (card (users ?r b))" if "r_gates ?r t' = Some b" for t' b
      using that D(3) [of t' b] old [of t' b] nx ha by (auto simp: gates u heap split: if_splits)
    show "t' = t''" if "r_gates ?r t' = Some b" "r_gates ?r t'' = Some b" for t' t'' b
      using D(4) [of t' b t''] old [of t' b] old [of t'' b] that by (auto simp: gates split: if_splits)
    show "g_mu (r_heap ?r b) = Some q" if "r_pc ?r q = Holding t' b" for q t' b
    proof -
      have q: "r_pc r q = Holding t' b" "r_gates r t' = Some b" using that D(2) [of q t' b] by (auto simp: pcs split: if_splits)
      then show ?thesis using D(5) [OF q(1)] old [OF q(2)] mu heap by (cases "t' = t") (auto simp: a_def)
    qed
    show "r_pc ?r q = Holding t' b" if "r_gates ?r t' = Some b" "g_mu (r_heap ?r b) = Some q" for q t' b
      using that D(6) [of t' b q] old [of t' b] mu heap [of b] unused(2) pc
      by (cases "r_gates r t") (auto simp: gates pcs a_def split: if_splits)
  qed
qed

lemma gate_inv_reach: "gateReach r \<Longrightarrow> gate_inv r"
proof (induction rule: gateReach.induct)
  case (step r op r')
  then show ?case
    by (cases op) (auto split: gatePc.splits if_splits
        intro: gate_inv_lock gate_inv_unlock gate_inv_leave gate_inv_enter)
qed (rule gate_inv_New)

text \<open>The held handle counts one more acquire than release exactly while it is active.\<close>

lemma heldStep_inv:
  assumes "h_acquired h = h_released h + of_bool (h_active h)" "length (filter (\<lambda>b. b) (h_once h)) = of_bool (\<not> h_active h)"
  shows "h_acquired (heldStep op h) = h_released (heldStep op h) + of_bool (h_active (heldStep op h)) \<and>
         length (filter (\<lambda>b. b) (h_once (heldStep op h))) = of_bool (\<not> h_active (heldStep op h))"
proof (cases op)
  case Suspend
  then show ?thesis using assms by (simp add: heldStep_def suspend_def)
next
  case (Resume fn)
  have one: "\<not> h_active h \<and> length (filter (\<lambda>b. b) ((h_once h)[i := False])) = 0"
    if "i < length (h_once h)" "h_once h ! i" for i
  proof -
    have c: "length (filter (\<lambda>b. b) (h_once h)) = Suc (length (filter (\<lambda>b. b) ((h_once h)[i := False])))"
      using that by (subst id_take_nth_drop [OF that(1)]) (simp add: upd_conv_take_nth_drop)
    then have "\<not> h_active h" using assms(2) by auto
    then show ?thesis using c assms(2) by simp
  qed
  show ?thesis using assms one Resume by (auto simp: heldStep_def resume_def split: option.split)
qed

lemma held_run:
  "h_acquired (fold heldStep ops WithHeld) = h_released (fold heldStep ops WithHeld) + of_bool (h_active (fold heldStep ops WithHeld)) \<and>
   length (filter (\<lambda>b. b) (h_once (fold heldStep ops WithHeld))) = of_bool (\<not> h_active (fold heldStep ops WithHeld))"
proof (induction ops rule: rev_induct)
  case (snoc op ops)
  then show ?case using heldStep_inv [of "fold heldStep ops WithHeld" op] by simp
qed (simp add: WithHeld_def)

text \<open>
  C13. The gates exclude each other and leave nothing behind. In every interleaving of calls, at most one call
  holds the gate of a transaction, although gates are created and forgotten meanwhile; a waiting call can
  take the gate as soon as no call holds it; and when no call is in progress the registry is empty. A call
  chain that suspends its gate for callouts, in any sequence of suspends and of resume calls old and new, has
  released it exactly when the handle says so, so a gate is never released twice.
\<close>

theorem gates_exclusive:
  assumes "gateReach r"
  shows "(r_pc r p = Holding t a \<longrightarrow> r_pc r q = Holding t b \<longrightarrow> p = q) \<and>
         (r_pc r p = Waiting t a \<longrightarrow> (\<forall>q b. r_pc r q \<noteq> Holding t b) \<longrightarrow> gateStep (Lock p) r \<noteq> None) \<and>
         ((\<forall>q. r_pc r q = Free) \<longrightarrow> r_gates r = Map.empty) \<and>
         (let h = fold heldStep ops WithHeld in h_acquired h = h_released h + of_bool (h_active h))"
proof -
  note D = gate_inv_D [OF gate_inv_reach [OF assms]]
  have "p = q" if "r_pc r p = Holding t a" "r_pc r q = Holding t b"
  proof -
    have "a = b" using D(2) [of p t a] D(2) [of q t b] that by simp
    then show ?thesis using D(5) [OF that(1)] D(5) [OF that(2)] by simp
  qed
  moreover have "gateStep (Lock p) r \<noteq> None" if w: "r_pc r p = Waiting t a" and free: "\<forall>q b. r_pc r q \<noteq> Holding t b"
  proof -
    have "r_gates r t = Some a" using D(2) [of p] w by simp
    then have "g_mu (r_heap r a) = None" using D(6) [of t a] free by (cases "g_mu (r_heap r a)") auto
    then show ?thesis using w by simp
  qed
  moreover have "r_gates r = Map.empty" if "\<forall>q. r_pc r q = Free"
  proof
    fix t' show "r_gates r t' = None" using D(3) [of t'] that by (cases "r_gates r t'") (auto simp: users_def)
  qed
  ultimately show ?thesis using held_run [of ops] by (simp add: Let_def)
qed

theorem gates_exclusive_witness:
  "\<exists>r. gateReach r \<and> r_pc r 1 = Holding ''t'' 0 \<and> r_pc r 2 = Waiting ''t'' 0 \<and> (\<forall>q b. r_pc r q = Holding ''t'' b \<longrightarrow> q = 1)"
proof -
  have "\<exists>r. gateReach r \<and> r_pc r 1 = Holding ''t'' 0 \<and> r_pc r 2 = Waiting ''t'' 0"
  proof -
    obtain r1 r2 r3 where "gateStep (Enter 1 ''t'') New = Some r1" "gateStep (Enter 2 ''t'') r1 = Some r2"
      "gateStep (Lock 1) r2 = Some r3" "r_pc r3 1 = Holding ''t'' 0" "r_pc r3 2 = Waiting ''t'' 0"
      by (simp add: New_def enter_def Let_def)
    then show ?thesis using gateReach.intros by blast
  qed
  then obtain r where r: "gateReach r" "r_pc r 1 = Holding ''t'' 0" "r_pc r 2 = Waiting ''t'' 0" by blast
  moreover have "q = 1" if "r_pc r q = Holding ''t'' b" for q b
    using gates_exclusive [OF r(1), of 1 "''t''" 0 q b "[]"] r(2) that by simp
  ultimately show ?thesis by blast
qed

end
