(* ===== verification/FinMapPrelude.thy ===== *)
theory FinMapPrelude
  imports GoPrelude "HOL-Library.Finite_Map"
begin

text \<open>
  Generic facts on finite maps that the schema theories share: recursion through the values of a map,
  extensionality of a map read by lookup, and the pointwise union of two maps.
\<close>

definition optJoin :: "('a \<Rightarrow> 'a \<Rightarrow> 'a) \<Rightarrow> 'a option \<Rightarrow> 'a option \<Rightarrow> 'a option" where
  "optJoin f x y = (case x of None \<Rightarrow> y | Some a \<Rightarrow> (case y of None \<Rightarrow> x | Some b \<Rightarrow> Some (f a b)))"

definition fmJoin :: "('v \<Rightarrow> 'v \<Rightarrow> 'v) \<Rightarrow> ('k, 'v) fmap \<Rightarrow> ('k, 'v) fmap \<Rightarrow> ('k, 'v) fmap" where
  "fmJoin f m n = fmadd m (fmmap_keys (\<lambda>k b. case fmlookup m k of None \<Rightarrow> b | Some a \<Rightarrow> f a b) n)"

text \<open>The values of a map are smaller than the map.\<close>

lemma fmran_size:
  assumes "v \<in> fmran' m"
  shows "f v < Suc (\<Sum>x\<in>fset (fset_of_fmap m). Suc (case x of (a, x) \<Rightarrow> f x))"
proof -
  obtain k where "fmlookup m k = Some v" using assms by (auto simp: fmlookup_ran'_iff)
  then have kv: "(k, v) \<in> fset (fset_of_fmap m)" by transfer (auto simp: map_of_def set_of_map_def)
  have "Suc (case (k, v) of (a, x) \<Rightarrow> f x) \<le> (\<Sum>x\<in>fset (fset_of_fmap m). Suc (case x of (a, x) \<Rightarrow> f x))"
    using kv by (intro member_le_sum) auto
  then show ?thesis by simp
qed

lemma fmran_size_plus [termination_simp]:
  "v \<in> fmran' m \<Longrightarrow> f v < Suc (Suc ((\<Sum>x\<in>fset (fset_of_fmap m). Suc (case x of (a, x) \<Rightarrow> f x)) + z))"
  by (metis fmran_size add_Suc less_SucI trans_less_add1)

lemma fmmap_keys_cong [fundef_cong]:
  "m = n \<Longrightarrow> (\<And>k v. fmlookup n k = Some v \<Longrightarrow> f k v = g k v) \<Longrightarrow> fmmap_keys f m = fmmap_keys g n"
  by (rule fmap_ext) (auto split: option.split simp: map_option_case)

lemma fmlookup_ranI: "fmlookup m k = Some v \<Longrightarrow> v \<in> fmran' m"
  by (auto simp: fmlookup_ran'_iff)


lemma optJoin_simps [simp]:
  "optJoin f None y = y" "optJoin f x None = x" "optJoin f (Some a) (Some b) = Some (f a b)"
  by (simp_all add: optJoin_def split: option.split)

lemma optJoin_None_iff [simp]: "optJoin f x y = None \<longleftrightarrow> x = None \<and> y = None"
  by (cases x; cases y) simp_all

lemma fmlookup_fmJoin [simp]: "fmlookup (fmJoin f m n) k = optJoin f (fmlookup m k) (fmlookup n k)"
  by (cases "fmlookup n k"; cases "fmlookup m k") (auto simp: fmJoin_def fmlookup_dom_iff)

lemma fmap_eqI: "(\<And>k. fmlookup m k = fmlookup n k) \<Longrightarrow> m = n"
  by (rule fmap_ext)

lemma fmmap_keys_id [simp]: "fmmap_keys (\<lambda>_ v. v) m = m"
  by (rule fmap_eqI) (simp add: option.map_ident)

lemma optJoin_comm: "(\<And>x y. a = Some x \<Longrightarrow> b = Some y \<Longrightarrow> f x y = f y x) \<Longrightarrow> optJoin f a b = optJoin f b a"
  by (cases a; cases b) auto

lemma optJoin_assoc:
  "(\<And>x y z. a = Some x \<Longrightarrow> b = Some y \<Longrightarrow> c = Some z \<Longrightarrow> f (f x y) z = f x (f y z))
     \<Longrightarrow> optJoin f (optJoin f a b) c = optJoin f a (optJoin f b c)"
  by (cases a; cases b; cases c) auto

lemma optJoin_idem: "(\<And>x. a = Some x \<Longrightarrow> f x x = x) \<Longrightarrow> optJoin f a a = a"
  by (cases a) auto

lemma fmJoin_comm:
  "(\<And>k x y. fmlookup a k = Some x \<Longrightarrow> fmlookup b k = Some y \<Longrightarrow> f x y = f y x) \<Longrightarrow> fmJoin f a b = fmJoin f b a"
  by (rule fmap_eqI) (auto intro: optJoin_comm)

lemma fmJoin_assoc:
  "(\<And>k x y z. fmlookup a k = Some x \<Longrightarrow> fmlookup b k = Some y \<Longrightarrow> fmlookup c k = Some z \<Longrightarrow> f (f x y) z = f x (f y z))
     \<Longrightarrow> fmJoin f (fmJoin f a b) c = fmJoin f a (fmJoin f b c)"
  by (rule fmap_eqI) (auto intro: optJoin_assoc)

lemma fmJoin_idem: "(\<And>k x. fmlookup a k = Some x \<Longrightarrow> f x x = x) \<Longrightarrow> fmJoin f a a = a"
  by (rule fmap_eqI) (auto intro: optJoin_idem)

lemma optJoin_cases:
  assumes "optJoin f a b = Some z"
  obtains (left) "a = Some z" "b = None" | (right) "a = None" "b = Some z"
    | (both) x y where "a = Some x" "b = Some y" "z = f x y"
  using assms by (cases a; cases b) auto

end
