(* ===== verification/SchemaNode.thy ===== *)
theory SchemaNode
  imports FinMapPrelude
begin

text \<open>
  The data of a model's schema (\<^verbatim>\<open>internal/domain/model/schema\<close>).

  A model node, its mutators, its codec and the numeric type core belong to the storage interface
  module, which the sources alias in \<^verbatim>\<open>coretypes.go\<close>. The node is the datatype \<open>ModelNode\<close>: the set
  of branches a path has been observed as (scalar, object, array) and the nullable marker. The
  mutators are the ones the interface documents: a marker is recorded only while the node has no
  scalar branch, and adding a scalar branch clears it. What the interface computes, the widening of a
  type set, the classification and admission of numbers and dates and the codec, is the parameter
  \<open>SchemaSpi\<close>; \<open>schema_laws\<close> collects what the schema code relies on.

  A loop that ranges over a node's children and touches one name per iteration is the pointwise
  operation on the finite map. Where the order shows in the result, the order in which the runtime
  enumerates a map is the parameter \<open>sp_Range\<close>.
\<close>

datatype DataType =
    Integer | Long | BigInteger | UnboundInteger
  | Double | BigDecimal | UnboundDecimal
  | String | Character
  | LocalDate | LocalDateTime | LocalTime | ZonedDateTime | Year | YearMonth
  | UUIDType | TimeUUIDType | ByteArray | Boolean | Null

definition numeric :: "DataType \<Rightarrow> bool" where
  "numeric dt \<longleftrightarrow> dt \<in> {Integer, Long, BigInteger, UnboundInteger, Double, BigDecimal, UnboundDecimal}"

datatype NodeKind = KindLeaf | KindObject | KindArray

datatype ModelNode =
  Node (n_Scalar: "DataType list option") (n_Object: "(string, ModelNode) fmap option")
       (n_Array: "ModelNode option option") (n_Nullable: bool)

record Decimal =
  d_Unscaled :: int
  d_Scale :: int

text \<open>
  The operations of a schema delta (\<^verbatim>\<open>ops.go\<close>). A payload is the encoding of a node, a JSON object, or a JSON
  array of type names.
\<close>

datatype SchemaOpKind = KindAddProperty | KindBroadenType | KindAddArrayItemType | KindAddKindBranch | KindUnknown string

datatype Payload = PNode bytes | PNames "string list"

record SchemaOp =
  op_Kind :: SchemaOpKind
  op_Path :: string
  op_Name :: string
  op_Payload :: Payload

record SchemaSpi =
  sp_Types :: "DataType set \<Rightarrow> DataType list"
  sp_ParseDecimal :: "string \<Rightarrow> Decimal option"
  sp_StripTrailingZeros :: "Decimal \<Rightarrow> Decimal"
  sp_Precision :: "Decimal \<Rightarrow> int"
  sp_AdmitsNumeric :: "DataType \<Rightarrow> Decimal \<Rightarrow> bool"
  sp_ClassifyInteger :: "int \<Rightarrow> DataType"
  sp_ClassifyDecimal :: "Decimal \<Rightarrow> DataType"
  sp_ClassifyTemporalString :: "string \<Rightarrow> DataType option"
  sp_TypeName :: "DataType \<Rightarrow> string"
  sp_ParseDataType :: "string \<Rightarrow> DataType option"
  sp_Marshal :: "ModelNode \<Rightarrow> bytes option"
  sp_Unmarshal :: "bytes \<Rightarrow> ModelNode option"
  sp_MarshalOps :: "SchemaOp list \<Rightarrow> bytes option"
  sp_UnmarshalOps :: "bytes \<Rightarrow> SchemaOp list option"
  sp_Fields :: "ModelNode \<Rightarrow> (string \<times> bool) list"
  sp_Range :: "string fset \<Rightarrow> string list"

subsection \<open>The node and its mutators\<close>

definition emptyNode :: ModelNode where
  "emptyNode = Node None None None False"

definition scalarTypes :: "ModelNode \<Rightarrow> DataType list" where
  "scalarTypes n = (case n_Scalar n of None \<Rightarrow> [] | Some ts \<Rightarrow> ts)"

definition childrenOf :: "ModelNode \<Rightarrow> (string, ModelNode) fmap" where
  "childrenOf n = (case n_Object n of None \<Rightarrow> fmempty | Some cs \<Rightarrow> cs)"

definition elementOf :: "ModelNode \<Rightarrow> ModelNode option" where
  "elementOf n = (case n_Array n of None \<Rightarrow> None | Some e \<Rightarrow> e)"

definition Kinds :: "ModelNode \<Rightarrow> NodeKind list" where
  "Kinds n = (if n_Scalar n = None then [] else [KindLeaf]) @ (if n_Object n = None then [] else [KindObject])
     @ (if n_Array n = None then [] else [KindArray])"

definition DeclaredTypes :: "ModelNode \<Rightarrow> DataType list" where
  "DeclaredTypes n = (case n_Scalar n of Some ts \<Rightarrow> ts | None \<Rightarrow> if n_Nullable n then [Null] else [])"

definition SetNullable :: "ModelNode \<Rightarrow> ModelNode" where
  "SetNullable n = (if n_Scalar n = None then Node None (n_Object n) (n_Array n) True else n)"

definition AddScalarTypes :: "SchemaSpi \<Rightarrow> DataType list \<Rightarrow> ModelNode \<Rightarrow> ModelNode" where
  "AddScalarTypes sp dts n =
     (let concrete = set dts - {Null} in
      if concrete \<noteq> {} then Node (Some (sp_Types sp (set (scalarTypes n) \<union> concrete))) (n_Object n) (n_Array n) False
      else if Null \<in> set dts then SetNullable n
      else n)"

definition DeclareKind :: "NodeKind \<Rightarrow> ModelNode \<Rightarrow> ModelNode" where
  "DeclareKind k n =
     (case k of
        KindLeaf \<Rightarrow> Node (Some (scalarTypes n)) (n_Object n) (n_Array n) False
      | KindObject \<Rightarrow> Node (n_Scalar n) (Some (childrenOf n)) (n_Array n) (n_Nullable n)
      | KindArray \<Rightarrow> Node (n_Scalar n) (n_Object n) (Some (elementOf n)) (n_Nullable n))"

definition SetChild :: "string \<Rightarrow> ModelNode \<Rightarrow> ModelNode \<Rightarrow> ModelNode" where
  "SetChild name child n = Node (n_Scalar n) (Some (fmupd name child (childrenOf n))) (n_Array n) (n_Nullable n)"

definition SetChildren :: "(string, ModelNode) fmap \<Rightarrow> ModelNode \<Rightarrow> ModelNode" where
  "SetChildren cs n =
     (if cs = fmempty then n
      else Node (n_Scalar n) (Some (fmadd (childrenOf n) cs)) (n_Array n) (n_Nullable n))"

definition SetElement :: "ModelNode \<Rightarrow> ModelNode \<Rightarrow> ModelNode" where
  "SetElement e n = Node (n_Scalar n) (n_Object n) (Some (Some e)) (n_Nullable n)"

definition NewLeafNode :: "SchemaSpi \<Rightarrow> DataType \<Rightarrow> ModelNode" where
  "NewLeafNode sp dt = AddScalarTypes sp [dt] emptyNode"

definition NewObjectNode :: ModelNode where
  "NewObjectNode = DeclareKind KindObject emptyNode"

definition NewArrayNode :: "ModelNode option \<Rightarrow> ModelNode" where
  "NewArrayNode e = Node None None (Some e) False"

text \<open>A node as the interface builds one: normal type sets without the null type, and no marker beside a scalar.\<close>

fun canon :: "SchemaSpi \<Rightarrow> ModelNode \<Rightarrow> bool" where
  "canon sp (Node s ob ar nl) \<longleftrightarrow>
     (\<forall>ts. s = Some ts \<longrightarrow> sp_Types sp (set ts) = ts \<and> Null \<notin> set ts \<and> \<not> nl) \<and>
     (\<forall>cs c. ob = Some cs \<longrightarrow> c \<in> fmran' cs \<longrightarrow> canon sp c) \<and>
     (\<forall>e. ar = Some (Some e) \<longrightarrow> canon sp e)"

subsection \<open>What the schema code relies on\<close>

text \<open>
  A type set holds the normal form of what was added to it, whatever the order, and adding what a set holds
  is adding what was put into it.
\<close>

definition types_laws :: "SchemaSpi \<Rightarrow> bool" where
  "types_laws sp \<longleftrightarrow>
     sp_Types sp {} = [] \<and> (\<forall>A. A \<noteq> {} \<longrightarrow> sp_Types sp A \<noteq> []) \<and>
     (\<forall>A. Null \<notin> A \<longrightarrow> Null \<notin> set (sp_Types sp A)) \<and>
     (\<forall>A B. sp_Types sp (set (sp_Types sp A) \<union> B) = sp_Types sp (A \<union> B))"

text \<open>Types other than numbers stay in a set, and the number type a set collapses to admits what its members admitted.\<close>

definition admission_laws :: "SchemaSpi \<Rightarrow> bool" where
  "admission_laws sp \<longleftrightarrow>
     (\<forall>A dt. dt \<in> A \<longrightarrow> \<not> numeric dt \<longrightarrow> dt \<noteq> Null \<longrightarrow> dt \<in> set (sp_Types sp A)) \<and>
     (\<forall>A dt v. dt \<in> A \<longrightarrow> sp_AdmitsNumeric sp dt v \<longrightarrow> (\<exists>dt' \<in> set (sp_Types sp A). sp_AdmitsNumeric sp dt' v))"

text \<open>The type a number or a string is classified as is one that admits it.\<close>

definition classify_laws :: "SchemaSpi \<Rightarrow> bool" where
  "classify_laws sp \<longleftrightarrow>
     (\<forall>dt d. sp_AdmitsNumeric sp dt (sp_StripTrailingZeros sp d) = sp_AdmitsNumeric sp dt d) \<and>
     (\<forall>d. d_Scale d \<le> 0 \<longrightarrow>
        sp_AdmitsNumeric sp UnboundInteger d \<and>
        sp_AdmitsNumeric sp (sp_ClassifyInteger sp (d_Unscaled d * 10 ^ nat (- d_Scale d))) d) \<and>
     (\<forall>d. 0 < d_Scale d \<longrightarrow> sp_AdmitsNumeric sp (sp_ClassifyDecimal sp d) d) \<and>
     (\<forall>i. numeric (sp_ClassifyInteger sp i)) \<and> (\<forall>d. numeric (sp_ClassifyDecimal sp d)) \<and>
     (\<forall>s dt. sp_ClassifyTemporalString sp s = Some dt \<longrightarrow> \<not> numeric dt \<and> dt \<noteq> Null)"

text \<open>The codec reads back what it wrote, every type has a name, and a map is enumerated once over.\<close>

definition codec_laws :: "SchemaSpi \<Rightarrow> bool" where
  "codec_laws sp \<longleftrightarrow>
     (\<forall>n. canon sp n \<longrightarrow> (\<exists>b. sp_Marshal sp n = Some b \<and> sp_Unmarshal sp b = Some n)) \<and>
     (\<forall>b n. sp_Unmarshal sp b = Some n \<longrightarrow> canon sp n) \<and>
     (\<forall>dt. sp_TypeName sp dt \<noteq> ''UNKNOWN'' \<and> sp_ParseDataType sp (sp_TypeName sp dt) = Some dt) \<and>
     (\<forall>ops. ops \<noteq> [] \<longrightarrow> (\<exists>b. b \<noteq> [] \<and> sp_MarshalOps sp ops = Some b \<and> sp_UnmarshalOps sp b = Some ops)) \<and>
     (\<forall>S. set (sp_Range sp S) = fset S \<and> distinct (sp_Range sp S))"

definition schema_laws :: "SchemaSpi \<Rightarrow> bool" where
  "schema_laws sp \<longleftrightarrow> types_laws sp \<and> admission_laws sp \<and> classify_laws sp \<and> codec_laws sp"

subsection \<open>Facts on nodes\<close>

lemma size_child [termination_simp]: "n_Object n = Some cs \<Longrightarrow> fmlookup cs name = Some c \<Longrightarrow> size c < size n"
  by (cases n) (auto dest!: fmlookup_ranI intro!: fmran_size_plus)

lemma size_element [termination_simp]: "n_Array n = Some (Some e) \<Longrightarrow> size e < size n"
  by (cases n) auto

lemmas node_ops =
  emptyNode_def scalarTypes_def childrenOf_def elementOf_def SetNullable_def AddScalarTypes_def DeclareKind_def
  SetChild_def SetChildren_def SetElement_def NewLeafNode_def NewObjectNode_def NewArrayNode_def

lemma node_eqI:
  "n_Scalar a = n_Scalar b \<Longrightarrow> n_Object a = n_Object b \<Longrightarrow> n_Array a = n_Array b \<Longrightarrow> n_Nullable a = n_Nullable b
     \<Longrightarrow> a = b"
  by (cases a; cases b) simp

lemma canonD:
  assumes "canon sp n"
  shows canon_types: "n_Scalar n = Some ts \<Longrightarrow> sp_Types sp (set ts) = ts"
    and canon_Null: "n_Scalar n = Some ts \<Longrightarrow> Null \<notin> set ts"
    and canon_marker: "n_Scalar n = Some ts \<Longrightarrow> \<not> n_Nullable n"
    and canon_child: "n_Object n = Some cs \<Longrightarrow> fmlookup cs name = Some c \<Longrightarrow> canon sp c"
    and canon_element: "n_Array n = Some (Some e) \<Longrightarrow> canon sp e"
  using assms by (cases n; auto dest: fmlookup_ranI)+

lemma canonI:
  assumes "\<And>ts. n_Scalar n = Some ts \<Longrightarrow> sp_Types sp (set ts) = ts \<and> Null \<notin> set ts \<and> \<not> n_Nullable n"
    and "\<And>cs name c. n_Object n = Some cs \<Longrightarrow> fmlookup cs name = Some c \<Longrightarrow> canon sp c"
    and "\<And>e. n_Array n = Some (Some e) \<Longrightarrow> canon sp e"
  shows "canon sp n"
  using assms by (cases n) (auto simp: fmlookup_ran'_iff)

lemma types_lawsD:
  assumes "types_laws sp"
  shows types_empty: "sp_Types sp {} = []"
    and types_nonempty: "A \<noteq> {} \<Longrightarrow> sp_Types sp A \<noteq> []"
    and types_Null: "Null \<notin> A \<Longrightarrow> Null \<notin> set (sp_Types sp A)"
    and types_absorb: "sp_Types sp (set (sp_Types sp A) \<union> B) = sp_Types sp (A \<union> B)"
  using assms by (auto simp: types_laws_def)

lemma types_absorb_right: "types_laws sp \<Longrightarrow> sp_Types sp (A \<union> set (sp_Types sp B)) = sp_Types sp (A \<union> B)"
  using types_absorb [of sp B A] by (simp add: Un_commute)

lemma types_idem: "types_laws sp \<Longrightarrow> sp_Types sp (set (sp_Types sp A)) = sp_Types sp A"
  using types_absorb [of sp A "{}"] by simp

lemma node_induct [case_names node]:
  assumes "\<And>n. (\<And>cs name c. n_Object n = Some cs \<Longrightarrow> fmlookup cs name = Some c \<Longrightarrow> P c) \<Longrightarrow>
             (\<And>e. n_Array n = Some (Some e) \<Longrightarrow> P e) \<Longrightarrow> P n"
  shows "P n"
  by (induction n rule: measure_induct_rule [of size]) (metis assms size_child size_element)

lemma elementOf_Some: "elementOf n = Some e \<longleftrightarrow> n_Array n = Some (Some e)"
  by (auto simp: elementOf_def split: option.splits)

lemma scalarTypes_Some [simp]: "n_Scalar n = Some ts \<Longrightarrow> scalarTypes n = ts"
  by (simp add: scalarTypes_def)

lemma scalarTypes_None [simp]: "n_Scalar n = None \<Longrightarrow> scalarTypes n = []"
  by (simp add: scalarTypes_def)

end
