(* ===== verification/SchemaMerge.thy ===== *)
theory SchemaMerge
  imports SchemaNode
begin

text \<open>
  Merging two models (\<^verbatim>\<open>merge.go\<close>). A node holds the set of kinds a path has been observed as, so merging
  is a union of branches. On nodes the interface can build (\<open>canon\<close>) it is associative, commutative and idempotent: a
  join. That a model is below another is written \<open>mergeNode sp a b = b\<close> throughout.
\<close>

definition mergeScalar :: "SchemaSpi \<Rightarrow> ModelNode \<Rightarrow> ModelNode \<Rightarrow> ModelNode \<Rightarrow> ModelNode" where
  "mergeScalar sp a b result =
     (if n_Scalar a = None \<and> n_Scalar b = None then result
      else let r1 = DeclareKind KindLeaf result;
               r2 = (case n_Scalar a of None \<Rightarrow> r1 | Some ts \<Rightarrow> AddScalarTypes sp ts r1)
           in (case n_Scalar b of None \<Rightarrow> r2 | Some ts \<Rightarrow> AddScalarTypes sp ts r2))"

function mergeNode :: "SchemaSpi \<Rightarrow> ModelNode \<Rightarrow> ModelNode \<Rightarrow> ModelNode" where
  "mergeNode sp a b =
     (let r0 = mergeScalar sp a b emptyNode;
          r1 = (if n_Object a = None \<and> n_Object b = None then r0
                else let p = DeclareKind KindObject r0;
                         q = (case n_Object a of None \<Rightarrow> p | Some cs \<Rightarrow> SetChildren cs p)
                     in (case n_Object b of
                           None \<Rightarrow> q
                         | Some cs \<Rightarrow>
                             SetChildren
                               (fmmap_keys
                                  (\<lambda>name child.
                                     case fmlookup (childrenOf q) name of
                                       None \<Rightarrow> child
                                     | Some existing \<Rightarrow> mergeNode sp existing child) cs) q));
          r2 = (if n_Array a = None \<and> n_Array b = None then r1
                else let p = DeclareKind KindArray r1;
                         elem = (case n_Array a of None \<Rightarrow> None | Some e \<Rightarrow> e);
                         elem' = (case n_Array b of
                                    None \<Rightarrow> elem
                                  | Some None \<Rightarrow> elem
                                  | Some (Some eb) \<Rightarrow> (case elem of None \<Rightarrow> Some eb | Some ea \<Rightarrow> Some (mergeNode sp ea eb)))
                     in (case elem' of None \<Rightarrow> p | Some e \<Rightarrow> SetElement e p))
      in (if n_Nullable a \<or> n_Nullable b then SetNullable r2 else r2))"
  by pat_completeness auto
termination
  by (relation "measure (\<lambda>(sp, a, b). size b)") (auto simp: size_child size_element)

definition Merge :: "SchemaSpi \<Rightarrow> ModelNode option \<Rightarrow> ModelNode option \<Rightarrow> ModelNode option" where
  "Merge sp a b = (case (a, b) of (None, _) \<Rightarrow> b | (_, None) \<Rightarrow> a | (Some x, Some y) \<Rightarrow> Some (mergeNode sp x y))"

subsection \<open>The merge, branch by branch\<close>

lemma Merge_optJoin: "Merge sp a b = optJoin (mergeNode sp) a b"
  by (cases a; cases b) (simp_all add: Merge_def)

declare mergeNode.simps [simp del]

lemma AddScalarTypes_scalar:
  "Null \<notin> set ts \<Longrightarrow> sp_Types sp (set us) = us \<Longrightarrow>
     AddScalarTypes sp ts (Node (Some us) ob ar False) = Node (Some (sp_Types sp (set us \<union> set ts))) ob ar False"
  by (cases ts) (auto simp: AddScalarTypes_def Let_def scalarTypes_def)

lemma DeclareKind_leaf_empty: "DeclareKind KindLeaf emptyNode = Node (Some []) None None False"
  by (simp add: DeclareKind_def emptyNode_def scalarTypes_def)

lemma mergeScalar_eq:
  assumes sp: "types_laws sp" and "canon sp a" "canon sp b"
  shows "mergeScalar sp a b emptyNode =
    Node (if n_Scalar a = None \<and> n_Scalar b = None then None
          else Some (sp_Types sp (set (scalarTypes a) \<union> set (scalarTypes b)))) None None False"
  using canon_Null [OF assms(2)] canon_Null [OF assms(3)]
  by (cases "n_Scalar a"; cases "n_Scalar b")
     (simp_all add: mergeScalar_def DeclareKind_leaf_empty AddScalarTypes_scalar types_empty [OF sp]
        types_absorb [OF sp] types_idem [OF sp] scalarTypes_def Let_def, simp add: emptyNode_def)

lemma SetChildren_object: "SetChildren cs (Node s (Some m) ar nl) = Node s (Some (fmadd m cs)) ar nl"
  by (simp add: SetChildren_def childrenOf_def)

text \<open>The merge of two nodes, written out.\<close>

lemma mergeNode_eq:
  assumes sp: "types_laws sp" and "canon sp a" "canon sp b"
  shows "mergeNode sp a b =
    Node (if n_Scalar a = None \<and> n_Scalar b = None then None
          else Some (sp_Types sp (set (scalarTypes a) \<union> set (scalarTypes b))))
         (optJoin (fmJoin (mergeNode sp)) (n_Object a) (n_Object b))
         (if n_Array a = None \<and> n_Array b = None then None
          else Some (optJoin (mergeNode sp) (elementOf a) (elementOf b)))
         ((n_Nullable a \<or> n_Nullable b) \<and> n_Scalar a = None \<and> n_Scalar b = None)"
proof -
  note steps = Let_def SetChildren_object DeclareKind_def SetElement_def SetNullable_def childrenOf_def elementOf_def
  let ?s = "if n_Scalar a = None \<and> n_Scalar b = None then None
            else Some (sp_Types sp (set (scalarTypes a) \<union> set (scalarTypes b)))"
  let ?o = "optJoin (fmJoin (mergeNode sp)) (n_Object a) (n_Object b)"
  let ?r = "if n_Array a = None \<and> n_Array b = None then None
            else Some (optJoin (mergeNode sp) (elementOf a) (elementOf b))"
  have ob: "(if n_Object a = None \<and> n_Object b = None then Node s None None False
             else let p = DeclareKind KindObject (Node s None None False);
                      q = (case n_Object a of None \<Rightarrow> p | Some cs \<Rightarrow> SetChildren cs p)
                  in (case n_Object b of None \<Rightarrow> q
                      | Some cs \<Rightarrow> SetChildren (fmmap_keys (\<lambda>name child. case fmlookup (childrenOf q) name of
                          None \<Rightarrow> child | Some existing \<Rightarrow> mergeNode sp existing child) cs) q)) = Node s ?o None False" for s
    by (cases "n_Object a"; cases "n_Object b") (simp_all add: steps fmJoin_def del: fmlookup_add)
  have ar: "(if n_Array a = None \<and> n_Array b = None then Node s m None False
             else let p = DeclareKind KindArray (Node s m None False);
                      elem = (case n_Array a of None \<Rightarrow> None | Some e \<Rightarrow> e);
                      elem' = (case n_Array b of None \<Rightarrow> elem | Some None \<Rightarrow> elem
                        | Some (Some eb) \<Rightarrow> (case elem of None \<Rightarrow> Some eb | Some ea \<Rightarrow> Some (mergeNode sp ea eb)))
                  in (case elem' of None \<Rightarrow> p | Some e \<Rightarrow> SetElement e p)) = Node s m ?r False" for s m
    by (cases "n_Array a"; cases "n_Array b") (auto simp: steps split: option.split)
  show ?thesis
    by (subst mergeNode.simps, subst mergeScalar_eq [OF assms])
       (simp only: Let_def ob [unfolded Let_def] ar [unfolded Let_def], simp add: SetNullable_def)
qed

lemma merge_branches:
  assumes "types_laws sp" "canon sp a" "canon sp b"
  shows merge_Scalar: "n_Scalar (mergeNode sp a b) =
            (if n_Scalar a = None \<and> n_Scalar b = None then None
             else Some (sp_Types sp (set (scalarTypes a) \<union> set (scalarTypes b))))"
    and merge_Object: "n_Object (mergeNode sp a b) = optJoin (fmJoin (mergeNode sp)) (n_Object a) (n_Object b)"
    and merge_Array: "n_Array (mergeNode sp a b) =
            (if n_Array a = None \<and> n_Array b = None then None
             else Some (optJoin (mergeNode sp) (elementOf a) (elementOf b)))"
    and merge_Nullable: "n_Nullable (mergeNode sp a b) \<longleftrightarrow>
            (n_Nullable a \<or> n_Nullable b) \<and> n_Scalar a = None \<and> n_Scalar b = None"
  by (simp_all add: mergeNode_eq [OF assms])

lemma merge_element:
  assumes "types_laws sp" "canon sp a" "canon sp b"
  shows "elementOf (mergeNode sp a b) = optJoin (mergeNode sp) (elementOf a) (elementOf b)"
  by (auto simp: elementOf_def merge_Array [OF assms] split: option.splits)

lemma scalarTypes_canon: "types_laws sp \<Longrightarrow> canon sp n \<Longrightarrow> sp_Types sp (set (scalarTypes n)) = scalarTypes n"
  by (cases "n_Scalar n") (simp_all add: types_empty canon_types)

lemma scalarTypes_merge:
  assumes "types_laws sp" "canon sp a" "canon sp b"
  shows "scalarTypes (mergeNode sp a b) = sp_Types sp (set (scalarTypes a) \<union> set (scalarTypes b))"
  by (auto simp: scalarTypes_def [of "mergeNode sp a b"] merge_Scalar [OF assms] types_empty [OF assms(1)])

lemma scalarTypes_Null: "canon sp n \<Longrightarrow> Null \<notin> set (scalarTypes n)"
  by (cases "n_Scalar n") (simp_all add: canon_Null)

lemma merge_canon:
  assumes sp: "types_laws sp"
  shows "canon sp a \<Longrightarrow> canon sp b \<Longrightarrow> canon sp (mergeNode sp a b)"
proof (induction a arbitrary: b rule: node_induct)
  case (node a)
  note m = merge_branches [OF sp node.prems]
  show ?case
  proof (rule canonI)
    fix ts assume "n_Scalar (mergeNode sp a b) = Some ts"
    moreover have "Null \<notin> set (sp_Types sp (set (scalarTypes a) \<union> set (scalarTypes b)))"
      using scalarTypes_Null [OF node.prems(1)] scalarTypes_Null [OF node.prems(2)] by (intro types_Null [OF sp]) simp
    ultimately show "sp_Types sp (set ts) = ts \<and> Null \<notin> set ts \<and> \<not> n_Nullable (mergeNode sp a b)"
      by (auto simp: m types_idem [OF sp] split: if_splits)
  next
    fix cs name c assume "n_Object (mergeNode sp a b) = Some cs" "fmlookup cs name = Some c"
    then show "canon sp c"
      using node.IH(1) canon_child [OF node.prems(1)] canon_child [OF node.prems(2)]
      by (auto simp: m elim!: optJoin_cases)
  next
    fix e assume "n_Array (mergeNode sp a b) = Some (Some e)"
    then show "canon sp e"
      using node.IH(2) canon_element [OF node.prems(1)] canon_element [OF node.prems(2)]
      by (auto simp: m elementOf_Some split: if_splits elim!: optJoin_cases)
  qed
qed

subsection \<open>The merge is a join\<close>

lemma merge_comm:
  assumes sp: "types_laws sp"
  shows "canon sp a \<Longrightarrow> canon sp b \<Longrightarrow> mergeNode sp a b = mergeNode sp b a"
proof (induction a arbitrary: b rule: node_induct)
  case (node a)
  have "optJoin (fmJoin (mergeNode sp)) (n_Object a) (n_Object b) = optJoin (fmJoin (mergeNode sp)) (n_Object b) (n_Object a)"
    using node.IH(1) canon_child [OF node.prems(1)] canon_child [OF node.prems(2)]
    by (intro optJoin_comm fmJoin_comm) blast
  moreover have "optJoin (mergeNode sp) (elementOf a) (elementOf b) = optJoin (mergeNode sp) (elementOf b) (elementOf a)"
    using node.IH(2) canon_element [OF node.prems(1)] canon_element [OF node.prems(2)]
    by (intro optJoin_comm) (auto simp: elementOf_Some)
  ultimately show ?case
    using node.prems by (simp add: mergeNode_eq [OF sp] Un_commute conj_commute disj_commute)
qed

lemma merge_idem:
  assumes sp: "types_laws sp"
  shows "canon sp a \<Longrightarrow> mergeNode sp a a = a"
proof (induction a rule: node_induct)
  case (node a)
  have "optJoin (fmJoin (mergeNode sp)) (n_Object a) (n_Object a) = n_Object a"
    using node.IH(1) canon_child [OF node.prems] by (intro optJoin_idem fmJoin_idem) blast
  moreover have "optJoin (mergeNode sp) (elementOf a) (elementOf a) = elementOf a"
    using node.IH(2) canon_element [OF node.prems] by (intro optJoin_idem) (auto simp: elementOf_Some)
  ultimately show ?case
    using node.prems canon_types [OF node.prems] canon_marker [OF node.prems]
    by (cases "n_Scalar a"; intro node_eqI) (auto simp: mergeNode_eq [OF sp] elementOf_def split: option.splits)
qed

lemma merge_assoc:
  assumes sp: "types_laws sp"
  shows "canon sp a \<Longrightarrow> canon sp b \<Longrightarrow> canon sp c \<Longrightarrow>
    mergeNode sp (mergeNode sp a b) c = mergeNode sp a (mergeNode sp b c)"
proof (induction a arbitrary: b c rule: node_induct)
  case (node a)
  note abc = node.prems
  note ab = merge_canon [OF sp abc(1,2)] and bc = merge_canon [OF sp abc(2,3)]
  let ?j = "mergeNode sp"
  have "optJoin (fmJoin ?j) (optJoin (fmJoin ?j) (n_Object a) (n_Object b)) (n_Object c) =
        optJoin (fmJoin ?j) (n_Object a) (optJoin (fmJoin ?j) (n_Object b) (n_Object c))"
    using node.IH(1) canon_child [OF abc(1)] canon_child [OF abc(2)] canon_child [OF abc(3)]
    by (intro optJoin_assoc fmJoin_assoc) blast
  moreover have "optJoin ?j (optJoin ?j (elementOf a) (elementOf b)) (elementOf c) =
        optJoin ?j (elementOf a) (optJoin ?j (elementOf b) (elementOf c))"
    using node.IH(2) canon_element [OF abc(1)] canon_element [OF abc(2)] canon_element [OF abc(3)]
    by (intro optJoin_assoc) (auto simp: elementOf_Some)
  moreover have "sp_Types sp (set (scalarTypes (?j a b)) \<union> set (scalarTypes c)) =
        sp_Types sp (set (scalarTypes a) \<union> set (scalarTypes (?j b c)))"
    using abc by (simp add: scalarTypes_merge [OF sp] types_absorb [OF sp] types_absorb_right [OF sp] Un_assoc)
  ultimately show ?case
    by (intro node_eqI) (auto simp: merge_branches [OF sp ab abc(3)] merge_branches [OF sp abc(1) bc]
        merge_branches [OF sp abc(1,2)] merge_branches [OF sp abc(2,3)] merge_element [OF sp abc(1,2)] merge_element [OF sp abc(2,3)])
qed

lemma merge_left_commute:
  "types_laws sp \<Longrightarrow> canon sp a \<Longrightarrow> canon sp b \<Longrightarrow> canon sp c \<Longrightarrow>
     mergeNode sp a (mergeNode sp b c) = mergeNode sp b (mergeNode sp a c)"
  by (metis merge_assoc merge_comm)

end
