(* ===== verification/SchemaAdmit.thy ===== *)
theory SchemaAdmit
  imports SchemaMerge
begin

text \<open>
  Admitting a document against a model (\<^verbatim>\<open>admit.go\<close>, \<^verbatim>\<open>validate.go\<close>, \<^verbatim>\<open>extend.go\<close>,
  \<^verbatim>\<open>fieldname.go\<close>, \<^verbatim>\<open>segment_name.go\<close>). \<open>node\<close> is the one traversal both doors run: it judges every value
  against its model node and returns the sparse overlay the model would need and the changes it amounts to.
  Strict validation renders every change as an error; extension refuses changes above the configured level and
  merges the overlay.

  A decoded document is a value of \<open>Any\<close>; an object lists its fields in the order the runtime enumerates them.
  The changes an admitter has recorded are the second component of a result: a failed traversal drops them.
\<close>

datatype Any =
    JNull
  | JObject "(string \<times> Any) list"
  | JArray "Any list"
  | JNumber string
  | JString string
  | JBool bool
  | JFloat64
  | JOther string

definition IsSegmentNameByte :: "char \<Rightarrow> bool" where
  "IsSegmentNameByte b \<longleftrightarrow>
     (CHR ''a'' \<le> b \<and> b \<le> CHR ''z'') \<or> (CHR ''A'' \<le> b \<and> b \<le> CHR ''Z'') \<or> (CHR ''0'' \<le> b \<and> b \<le> CHR ''9'') \<or>
     b = CHR ''_'' \<or> b = CHR ''-''"

definition IsSegmentName :: "string \<Rightarrow> bool" where
  "IsSegmentName s \<longleftrightarrow> s \<noteq> [] \<and> list_all IsSegmentNameByte s"

datatype AdmitError =
    DepthExceededError string
  | UnsupportedValueError string string
  | InvalidFieldNameError string string string

definition ValidateFieldName :: "string \<Rightarrow> string \<Rightarrow> AdmitError option" where
  "ValidateFieldName parent name =
     (if IsSegmentName name then None else Some (InvalidFieldNameError (parent @ ''.'' @ name) parent name))"

datatype ChangeLevel =
    ChangeLevelNone | ChangeLevelArrayLength | ChangeLevelArrayElements | ChangeLevelType | ChangeLevelStructural

fun changeLevelRank :: "ChangeLevel \<Rightarrow> int" where
  "changeLevelRank ChangeLevelArrayLength = 0"
| "changeLevelRank ChangeLevelArrayElements = 1"
| "changeLevelRank ChangeLevelType = 2"
| "changeLevelRank ChangeLevelStructural = 3"
| "changeLevelRank ChangeLevelNone = -1"

definition levelPermits :: "ChangeLevel \<Rightarrow> ChangeLevel \<Rightarrow> bool" where
  "levelPermits configured required \<longleftrightarrow> changeLevelRank required \<le> changeLevelRank configured"

datatype ChangeReason =
    ReasonLeafType | ReasonNewField | ReasonNewKind | ReasonArrayElement | ReasonNullable | ReasonInvalidFieldName

record Change =
  ch_Path :: string
  ch_DocPath :: string
  ch_Reason :: ChangeReason
  ch_Required :: ChangeLevel
  ch_Observed :: "DataType option"
  ch_Declared :: "DataType list"
  ch_DeclaredKinds :: string
  ch_Value :: Any

fun joinWith :: "string \<Rightarrow> string list \<Rightarrow> string" where
  "joinWith sep [] = []"
| "joinWith sep [s] = s"
| "joinWith sep (s # t # ss) = s @ sep @ joinWith sep (t # ss)"

definition declaredKindNames :: "ModelNode \<Rightarrow> string" where
  "declaredKindNames n =
     (let names = (if n_Object n = None then [] else [''object'']) @ (if n_Array n = None then [] else [''array''])
                    @ (if n_Scalar n = None then [] else [''scalar''])
      in if names = [] then ''no value'' else joinWith '' or '' names)"

definition MaxValidationDepth :: nat where
  "MaxValidationDepth = 256"

definition inferDataType :: "SchemaSpi \<Rightarrow> Any \<Rightarrow> DataType" where
  "inferDataType sp v =
     (case v of
        JBool _ \<Rightarrow> Boolean
      | JNumber s \<Rightarrow>
          (case sp_ParseDecimal sp s of
             None \<Rightarrow> String
           | Some d \<Rightarrow>
               (let stripped = sp_StripTrailingZeros sp d in
                if d_Scale stripped \<le> 0
                then if d_Scale stripped = 0 then sp_ClassifyInteger sp (d_Unscaled stripped)
                     else if 39 < sp_Precision sp stripped + (- d_Scale stripped) then UnboundInteger
                     else sp_ClassifyInteger sp (d_Unscaled stripped * 10 ^ nat (- d_Scale stripped))
                else sp_ClassifyDecimal sp stripped))
      | JString s \<Rightarrow> (case sp_ClassifyTemporalString sp s of Some dt \<Rightarrow> dt | None \<Rightarrow> String)
      | JNull \<Rightarrow> Null
      | _ \<Rightarrow> String)"

definition holdsScalar :: "SchemaSpi \<Rightarrow> DataType list \<Rightarrow> Any \<Rightarrow> bool" where
  "holdsScalar sp declared v =
     (case v of
        JNumber s \<Rightarrow>
          (case sp_ParseDecimal sp s of
             None \<Rightarrow> False
           | Some dec \<Rightarrow> list_ex (\<lambda>dt. sp_AdmitsNumeric sp dt dec) declared)
      | JString s \<Rightarrow> list_ex (\<lambda>dt. dt = String \<or> sp_ClassifyTemporalString sp s = Some dt) declared
      | JBool _ \<Rightarrow> list_ex (\<lambda>dt. dt = Boolean) declared
      | _ \<Rightarrow> False)"

subsection \<open>The traversal\<close>

type_synonym admitted = "AdmitError + (ModelNode option \<times> Change list)"

definition record_changes :: "Change list \<Rightarrow> admitted \<Rightarrow> admitted" where
  "record_changes cs r = (case r of Inl e \<Rightarrow> Inl e | Inr (overlay, chs) \<Rightarrow> Inr (overlay, cs @ chs))"

definition newKindChange :: "SchemaSpi \<Rightarrow> ModelNode \<Rightarrow> Any \<Rightarrow> string \<Rightarrow> string \<Rightarrow> ChangeLevel \<Rightarrow> Change" where
  "newKindChange sp m v path docPath scalarLevel =
     \<lparr>ch_Path = path, ch_DocPath = docPath, ch_Reason = ReasonNewKind,
      ch_Required = (if Kinds m = [] then scalarLevel else ChangeLevelStructural),
      ch_Observed = (case v of JNumber _ \<Rightarrow> Some (inferDataType sp v) | JString _ \<Rightarrow> Some (inferDataType sp v)
                       | JBool _ \<Rightarrow> Some (inferDataType sp v) | _ \<Rightarrow> None),
      ch_Declared = DeclaredTypes m, ch_DeclaredKinds = declaredKindNames m, ch_Value = v\<rparr>"

definition admitScalar :: "SchemaSpi \<Rightarrow> ModelNode \<Rightarrow> Any \<Rightarrow> string \<Rightarrow> string \<Rightarrow> ChangeLevel \<Rightarrow> admitted" where
  "admitScalar sp m v path docPath scalarLevel =
     (case n_Scalar m of
        None \<Rightarrow> Inr (Some (NewLeafNode sp (inferDataType sp v)), [newKindChange sp m v path docPath scalarLevel])
      | Some ts \<Rightarrow>
          if holdsScalar sp ts v then Inr (None, [])
          else Inr (Some (NewLeafNode sp (inferDataType sp v)),
                    [\<lparr>ch_Path = path, ch_DocPath = docPath, ch_Reason = ReasonLeafType, ch_Required = scalarLevel,
                      ch_Observed = Some (inferDataType sp v), ch_Declared = ts,
                      ch_DeclaredKinds = declaredKindNames m, ch_Value = v\<rparr>]))"

definition admitNull :: "SchemaSpi \<Rightarrow> ModelNode \<Rightarrow> string \<Rightarrow> string \<Rightarrow> ChangeLevel \<Rightarrow> admitted" where
  "admitNull sp m path docPath scalarLevel =
     (if n_Nullable m \<or> n_Scalar m \<noteq> None then Inr (None, [])
      else Inr (Some (SetNullable (NewLeafNode sp Null)),
                [\<lparr>ch_Path = path, ch_DocPath = docPath, ch_Reason = ReasonNullable, ch_Required = scalarLevel,
                  ch_Observed = Some Null, ch_Declared = DeclaredTypes m,
                  ch_DeclaredKinds = declaredKindNames m, ch_Value = JNull\<rparr>]))"

text \<open>The values that are not containers.\<close>

definition admitLeaf :: "SchemaSpi \<Rightarrow> ModelNode \<Rightarrow> Any \<Rightarrow> string \<Rightarrow> string \<Rightarrow> ChangeLevel \<Rightarrow> admitted" where
  "admitLeaf sp m v path docPath scalarLevel =
     (case v of
        JNull \<Rightarrow> admitNull sp m path docPath scalarLevel
      | JFloat64 \<Rightarrow>
          Inl (UnsupportedValueError path ''received float64 value; callers must use json.UseNumber() decoding'')
      | JOther t \<Rightarrow> Inl (UnsupportedValueError path (''unsupported type: '' @ t))
      | _ \<Rightarrow> admitScalar sp m v path docPath scalarLevel)"

definition newFieldChange :: "ModelNode \<Rightarrow> ChangeReason \<Rightarrow> Any \<Rightarrow> string \<Rightarrow> string \<Rightarrow> Change" where
  "newFieldChange m reason v path docPath =
     \<lparr>ch_Path = path, ch_DocPath = docPath, ch_Reason = reason, ch_Required = ChangeLevelStructural,
      ch_Observed = None, ch_Declared = [], ch_DeclaredKinds = declaredKindNames m, ch_Value = v\<rparr>"

definition newElementChange :: "ModelNode \<Rightarrow> Any list \<Rightarrow> string \<Rightarrow> string \<Rightarrow> Change" where
  "newElementChange m items path docPath =
     \<lparr>ch_Path = path, ch_DocPath = docPath, ch_Reason = ReasonArrayElement, ch_Required = ChangeLevelArrayElements,
      ch_Observed = None, ch_Declared = [], ch_DeclaredKinds = declaredKindNames m, ch_Value = JArray items\<rparr>"

text \<open>\<^verbatim>\<open>ensure().SetChild(name, child)\<close> on the overlay of an object.\<close>

definition overlayChild :: "string \<Rightarrow> ModelNode option \<Rightarrow> ModelNode option \<Rightarrow> ModelNode option" where
  "overlayChild name child overlay =
     (let ensured = (case overlay of None \<Rightarrow> NewObjectNode | Some n \<Rightarrow> n)
      in Some (case child of None \<Rightarrow> ensured | Some c \<Rightarrow> SetChild name c ensured))"

fun natString :: "nat \<Rightarrow> string" where
  "natString n = (if n < 10 then [char_of (48 + n)] else natString (n div 10) @ [char_of (48 + n mod 10)])"

definition indexPath :: "string \<Rightarrow> nat \<Rightarrow> string" where
  "indexPath docPath i = docPath @ ''['' @ natString i @ '']''"

definition isInvalidName :: "Change \<Rightarrow> bool" where
  "isInvalidName c \<longleftrightarrow> ch_Reason c = ReasonInvalidFieldName"

function (sequential)
  node :: "SchemaSpi \<Rightarrow> bool \<Rightarrow> ModelNode \<Rightarrow> Any \<Rightarrow> string \<Rightarrow> string \<Rightarrow> nat \<Rightarrow> ChangeLevel \<Rightarrow> admitted" and
  object :: "SchemaSpi \<Rightarrow> bool \<Rightarrow> ModelNode \<Rightarrow> (string \<times> Any) list \<Rightarrow> string \<Rightarrow> string \<Rightarrow> nat \<Rightarrow> ModelNode option \<Rightarrow> admitted" and
  items :: "SchemaSpi \<Rightarrow> bool \<Rightarrow> ModelNode \<Rightarrow> Any list \<Rightarrow> nat \<Rightarrow> string \<Rightarrow> string \<Rightarrow> nat \<Rightarrow> ModelNode option \<Rightarrow> admitted" and
  learn :: "SchemaSpi \<Rightarrow> bool \<Rightarrow> Any list \<Rightarrow> nat \<Rightarrow> string \<Rightarrow> string \<Rightarrow> nat \<Rightarrow> ModelNode option \<Rightarrow> admitted" and
  array :: "SchemaSpi \<Rightarrow> bool \<Rightarrow> ModelNode \<Rightarrow> Any list \<Rightarrow> string \<Rightarrow> string \<Rightarrow> nat \<Rightarrow> admitted" and
  describeAt :: "SchemaSpi \<Rightarrow> bool \<Rightarrow> Any \<Rightarrow> string \<Rightarrow> string \<Rightarrow> nat \<Rightarrow> admitted"
where
  "node sp cont m v path docPath depth scalarLevel =
     (if MaxValidationDepth \<le> depth then Inl (DepthExceededError path)
      else case v of
        JObject flds \<Rightarrow>
          if n_Object m = None
          then record_changes [newKindChange sp m v path docPath scalarLevel] (describeAt sp cont v path docPath depth)
          else object sp cont m flds path docPath depth None
      | JArray arr \<Rightarrow>
          if n_Array m = None
          then record_changes [newKindChange sp m v path docPath scalarLevel] (describeAt sp cont v path docPath depth)
          else array sp cont m arr path docPath depth
      | _ \<Rightarrow> admitLeaf sp m v path docPath scalarLevel)"
| "object sp cont m [] path docPath depth overlay = Inr (overlay, [])"
| "object sp cont m ((name, v) # flds) path docPath depth overlay =
     (let childPath = path @ ''.'' @ name; childDocPath = docPath @ ''.'' @ name in
      case fmlookup (childrenOf m) name of
        None \<Rightarrow>
          (case ValidateFieldName path name of
             Some err \<Rightarrow>
               if \<not> cont then Inl err
               else record_changes [newFieldChange m ReasonInvalidFieldName v childPath childDocPath]
                      (object sp cont m flds path docPath depth overlay)
           | None \<Rightarrow>
               (case describeAt sp cont v childPath childDocPath (Suc depth) of
                  Inl err \<Rightarrow> Inl err
                | Inr (derived, chs) \<Rightarrow>
                    record_changes (newFieldChange m ReasonNewField v childPath childDocPath # chs)
                      (object sp cont m flds path docPath depth (overlayChild name derived overlay))))
      | Some child \<Rightarrow>
          (case node sp cont child v childPath childDocPath (Suc depth) ChangeLevelType of
             Inl err \<Rightarrow> Inl err
           | Inr (childOverlay, chs) \<Rightarrow>
               record_changes chs
                 (object sp cont m flds path docPath depth
                    (if childOverlay = None then overlay else overlayChild name childOverlay overlay))))"
| "items sp cont element [] i elemPath docPath depth overlay = Inr (overlay, [])"
| "items sp cont element (v # vs) i elemPath docPath depth overlay =
     (case node sp cont element v elemPath (indexPath docPath i) (Suc depth) ChangeLevelArrayElements of
        Inl err \<Rightarrow> Inl err
      | Inr (itemOverlay, chs) \<Rightarrow>
          record_changes chs
            (items sp cont element vs (Suc i) elemPath docPath depth (Merge sp overlay itemOverlay)))"
| "learn sp cont [] i elemPath docPath depth overlay = Inr (overlay, [])"
| "learn sp cont (v # vs) i elemPath docPath depth overlay =
     (case describeAt sp cont v elemPath (indexPath docPath i) (Suc depth) of
        Inl err \<Rightarrow> Inl err
      | Inr (derived, chs) \<Rightarrow>
          record_changes chs (learn sp cont vs (Suc i) elemPath docPath depth (Merge sp overlay derived)))"
| "array sp cont m arr path docPath depth =
     (let elemPath = path @ ''[]'';
          r = (case elementOf m of
                 None \<Rightarrow>
                   record_changes [newElementChange m arr path docPath]
                     (if arr = [] then Inr (Some (NewLeafNode sp Null), [])
                      else learn sp cont arr 0 elemPath docPath depth None)
               | Some element \<Rightarrow> items sp cont element arr 0 elemPath docPath depth None)
      in case r of
           Inl err \<Rightarrow> Inl err
         | Inr (None, chs) \<Rightarrow> Inr (None, chs)
         | Inr (Some elemOverlay, chs) \<Rightarrow> Inr (Some (NewArrayNode (Some elemOverlay)), chs))"
| "describeAt sp cont v path docPath depth =
     (if MaxValidationDepth \<le> depth then Inl (DepthExceededError path)
      else case (case v of
                   JObject flds \<Rightarrow> object sp cont NewObjectNode flds path docPath depth None
                 | JArray arr \<Rightarrow> array sp cont (NewArrayNode None) arr path docPath depth
                 | _ \<Rightarrow> admitLeaf sp emptyNode v path docPath ChangeLevelType) of
             Inl err \<Rightarrow> Inl err
           | Inr (overlay, chs) \<Rightarrow>
               Inr (case v of JObject _ \<Rightarrow> (if overlay = None then Some NewObjectNode else overlay) | _ \<Rightarrow> overlay,
                    filter isInvalidName chs))"
  by pat_completeness auto
termination
  by (relation "measures [
        \<lambda>x. case x of
               Inl (Inl (sp, c, m, v, _)) \<Rightarrow> size v
             | Inl (Inr (Inl (sp, c, m, fs, _))) \<Rightarrow> size_list (size_prod (\<lambda>_. 0) size) fs
             | Inl (Inr (Inr (sp, c, e, vs, _))) \<Rightarrow> size_list size vs
             | Inr (Inl (sp, c, vs, _)) \<Rightarrow> size_list size vs
             | Inr (Inr (Inl (sp, c, m, vs, _))) \<Rightarrow> size_list size vs
             | Inr (Inr (Inr (sp, c, v, _))) \<Rightarrow> size v,
        \<lambda>x. case x of Inl (Inl _) \<Rightarrow> 2 | Inr (Inr (Inl _)) \<Rightarrow> 1 | Inr (Inr (Inr _)) \<Rightarrow> 1 | _ \<Rightarrow> 0]") auto

definition Admit :: "SchemaSpi \<Rightarrow> ModelNode \<Rightarrow> Any \<Rightarrow> admitted" where
  "Admit sp m v = node sp False m v [] [] 0 ChangeLevelType"

definition Describe :: "SchemaSpi \<Rightarrow> Any \<Rightarrow> string \<Rightarrow> AdmitError + ModelNode option" where
  "Describe sp v path = (case describeAt sp False v path path 0 of Inl e \<Rightarrow> Inl e | Inr (overlay, _) \<Rightarrow> Inr overlay)"

subsection \<open>Extension and strict validation\<close>

datatype ExtendError = AdmitFailed AdmitError | ChangeLevelError Change ChangeLevel

definition Extend :: "SchemaSpi \<Rightarrow> ModelNode \<Rightarrow> Any \<Rightarrow> ChangeLevel \<Rightarrow> ExtendError + ModelNode" where
  "Extend sp existing v level =
     (case Admit sp existing v of
        Inl err \<Rightarrow> Inl (AdmitFailed err)
      | Inr (overlay, changes) \<Rightarrow>
          if changes = [] then Inr existing
          else (case find (\<lambda>c. \<not> levelPermits level (ch_Required c)) changes of
                  Some c \<Rightarrow> Inl (ChangeLevelError c level)
                | None \<Rightarrow> Inr (case Merge sp (Some existing) overlay of None \<Rightarrow> existing | Some m \<Rightarrow> m)))"

datatype ErrorKind = ErrKindGeneric | ErrKindUnknownElement | ErrKindIncompatibleType

record ValidationError =
  ve_Path :: string
  ve_Message :: string
  ve_Kind :: ErrorKind
  ve_ExpectedTypes :: "DataType list"
  ve_ActualType :: "DataType option"

definition HasUnknownSchemaElement :: "ValidationError list \<Rightarrow> bool" where
  "HasUnknownSchemaElement errs = list_ex (\<lambda>e. ve_Kind e = ErrKindUnknownElement) errs"

definition FirstIncompatibleType :: "ValidationError list \<Rightarrow> ValidationError option" where
  "FirstIncompatibleType errs = find (\<lambda>e. ve_Kind e = ErrKindIncompatibleType) errs"

definition wirePath :: "string \<Rightarrow> string" where
  "wirePath p = (case p of c # cs \<Rightarrow> if c = CHR ''.'' then cs else p | [] \<Rightarrow> [])"

definition genericError :: "string \<Rightarrow> string \<Rightarrow> ErrorKind \<Rightarrow> ValidationError" where
  "genericError path message kind =
     \<lparr>ve_Path = path, ve_Message = message, ve_Kind = kind, ve_ExpectedTypes = [], ve_ActualType = None\<rparr>"

definition JSONKindName :: "Any \<Rightarrow> string" where
  "JSONKindName v =
     (case v of JObject _ \<Rightarrow> ''object'' | JArray _ \<Rightarrow> ''array'' | JString _ \<Rightarrow> ''string'' | JNumber _ \<Rightarrow> ''number''
      | JBool _ \<Rightarrow> ''boolean'' | JNull \<Rightarrow> ''null'' | _ \<Rightarrow> ''value'')"

definition incompatibleError :: "SchemaSpi \<Rightarrow> Change \<Rightarrow> ValidationError" where
  "incompatibleError sp c =
     \<lparr>ve_Path = wirePath (ch_DocPath c),
      ve_Message = ''value of type '' @ (case ch_Observed c of None \<Rightarrow> [] | Some dt \<Rightarrow> sp_TypeName sp dt)
        @ '' is not compatible with ['' @ joinWith '' '' (map (sp_TypeName sp) (ch_Declared c)) @ '']'',
      ve_Kind = ErrKindIncompatibleType, ve_ExpectedTypes = ch_Declared c, ve_ActualType = ch_Observed c\<rparr>"

definition containsText :: "string \<Rightarrow> string \<Rightarrow> bool" where
  "containsText s t = list_ex (\<lambda>k. take (length t) (drop k s) = t) [0..<Suc (length s)]"

definition validationErrorForNewKind :: "SchemaSpi \<Rightarrow> Change \<Rightarrow> ValidationError" where
  "validationErrorForNewKind sp c =
     (let declaresContainer = containsText (ch_DeclaredKinds c) ''object'' \<or> containsText (ch_DeclaredKinds c) ''array'';
          generic = genericError (wirePath (ch_DocPath c))
                      (''expected '' @ ch_DeclaredKinds c @ '', got '' @ JSONKindName (ch_Value c)) ErrKindGeneric;
          scalar = (if declaresContainer then generic else incompatibleError sp c);
          container = (if declaresContainer then generic
                       else genericError (wirePath (ch_DocPath c)) (''expected scalar, got '' @ JSONKindName (ch_Value c))
                              ErrKindGeneric)
      in case ch_Value c of
           JNumber _ \<Rightarrow> scalar | JString _ \<Rightarrow> scalar | JBool _ \<Rightarrow> scalar
         | JObject _ \<Rightarrow> container | JArray _ \<Rightarrow> container | _ \<Rightarrow> generic)"

definition validationErrorFor :: "SchemaSpi \<Rightarrow> Change \<Rightarrow> ValidationError" where
  "validationErrorFor sp c =
     (case ch_Reason c of
        ReasonLeafType \<Rightarrow> incompatibleError sp c
      | ReasonNewField \<Rightarrow> genericError (wirePath (ch_DocPath c)) ''unexpected field not present in model'' ErrKindUnknownElement
      | ReasonInvalidFieldName \<Rightarrow>
          genericError (wirePath (ch_DocPath c)) ''unexpected field not present in model'' ErrKindUnknownElement
      | ReasonNewKind \<Rightarrow> validationErrorForNewKind sp c
      | ReasonArrayElement \<Rightarrow>
          genericError (wirePath (ch_DocPath c))
            (''array element type has never been observed; the document supplies '' @ JSONKindName (ch_Value c)) ErrKindGeneric
      | ReasonNullable \<Rightarrow>
          genericError (wirePath (ch_DocPath c))
            (''expected '' @ ch_DeclaredKinds c @ '', got '' @ JSONKindName (ch_Value c)) ErrKindGeneric)"

definition admitErrorFor :: "AdmitError \<Rightarrow> ValidationError" where
  "admitErrorFor err =
     (case err of
        DepthExceededError path \<Rightarrow> genericError (wirePath path) ''validation depth exceeded (max 256)'' ErrKindGeneric
      | InvalidFieldNameError path _ _ \<Rightarrow>
          genericError (wirePath path) ''unexpected field not present in model'' ErrKindUnknownElement
      | UnsupportedValueError path _ \<Rightarrow> genericError (wirePath path) ''unsupported value'' ErrKindGeneric)"

definition Validate :: "SchemaSpi \<Rightarrow> ModelNode \<Rightarrow> Any \<Rightarrow> ValidationError list" where
  "Validate sp m v =
     (case node sp True m v [] [] 0 ChangeLevelType of
        Inl err \<Rightarrow> [admitErrorFor err]
      | Inr (_, changes) \<Rightarrow> map (validationErrorFor sp) changes)"

subsection \<open>What a model accepts\<close>

text \<open>The documents a model describes: every value's kind is declared, every field known, every scalar held.\<close>

fun accepts :: "SchemaSpi \<Rightarrow> ModelNode \<Rightarrow> Any \<Rightarrow> bool" where
  "accepts sp m JNull \<longleftrightarrow> n_Nullable m \<or> n_Scalar m \<noteq> None"
| "accepts sp m (JObject flds) \<longleftrightarrow>
     n_Object m \<noteq> None \<and>
     (\<forall>(name, v) \<in> set flds. \<exists>c. fmlookup (childrenOf m) name = Some c \<and> accepts sp c v)"
| "accepts sp m (JArray arr) \<longleftrightarrow> (\<exists>e. elementOf m = Some e \<and> (\<forall>v \<in> set arr. accepts sp e v))"
| "accepts sp m v \<longleftrightarrow> n_Scalar m \<noteq> None \<and> holdsScalar sp (scalarTypes m) v"

fun height :: "Any \<Rightarrow> nat" where
  "height (JObject flds) = Suc (fold max (map (\<lambda>(name, v). height v) flds) 0)"
| "height (JArray arr) = Suc (fold max (map height arr) 0)"
| "height v = Suc 0"

text \<open>A decoded document: field names occur once in an object, and every number literal is one.\<close>

fun decoded :: "SchemaSpi \<Rightarrow> Any \<Rightarrow> bool" where
  "decoded sp (JObject flds) \<longleftrightarrow> distinct (map fst flds) \<and> (\<forall>(name, v) \<in> set flds. decoded sp v)"
| "decoded sp (JArray arr) \<longleftrightarrow> (\<forall>v \<in> set arr. decoded sp v)"
| "decoded sp (JNumber s) \<longleftrightarrow> sp_ParseDecimal sp s \<noteq> None"
| "decoded sp v \<longleftrightarrow> True"

subsection \<open>Validation decides what a model accepts\<close>

lemma record_changes_simps [simp]:
  "record_changes cs (Inl e) = Inl e" "record_changes cs (Inr (ov, chs)) = Inr (ov, cs @ chs)"
  by (simp_all add: record_changes_def)

lemma record_changes_Inr:
  "record_changes cs r = Inr (ov, chs) \<longleftrightarrow> (\<exists>chs'. r = Inr (ov, chs') \<and> chs = cs @ chs')"
  by (cases r) (auto simp: record_changes_def)

declare node.simps [simp del] array.simps [simp del] describeAt.simps [simp del]

lemma fold_max_le: "fold max xs (a :: nat) \<le> b \<longleftrightarrow> a \<le> b \<and> (\<forall>x \<in> set xs. x \<le> b)"
  by (induction xs arbitrary: a) auto

lemma height_object_le:
  "k + height (JObject flds) \<le> n \<longleftrightarrow> k < n \<and> (\<forall>(name, v) \<in> set flds. Suc k + height v \<le> n)"
proof (cases "k < n")
  case True
  then have "k + height (JObject flds) \<le> n \<longleftrightarrow> fold max (map (\<lambda>(name, v). height v) flds) 0 \<le> n - Suc k" by auto
  moreover have "Suc k + h \<le> n \<longleftrightarrow> h \<le> n - Suc k" for h using True by auto
  ultimately show ?thesis using True by (simp only: fold_max_le) force
qed simp

lemma height_array_le: "k + height (JArray arr) \<le> n \<longleftrightarrow> k < n \<and> (\<forall>v \<in> set arr. Suc k + height v \<le> n)"
proof (cases "k < n")
  case True
  then have "k + height (JArray arr) \<le> n \<longleftrightarrow> fold max (map height arr) 0 \<le> n - Suc k" by auto
  moreover have "Suc k + h \<le> n \<longleftrightarrow> h \<le> n - Suc k" for h using True by auto
  ultimately show ?thesis using True by (simp only: fold_max_le) force
qed simp

lemma object_accepting:
  assumes "\<And>name v. (name, v) \<in> set flds \<Longrightarrow>
      \<exists>c. fmlookup (childrenOf m) name = Some c \<and> (\<forall>p dp. node sp cont c v p dp (Suc depth) ChangeLevelType = Inr (None, []))"
  shows "object sp cont m flds path docPath depth overlay = Inr (overlay, [])"
  using assms
proof (induction flds)
  case (Cons f flds)
  obtain name v where f: "f = (name, v)" by force
  show ?case using Cons.prems [of name v] Cons.IH [OF Cons.prems] by (auto simp: f)
qed simp

lemma items_accepting:
  assumes "\<And>v. v \<in> set vs \<Longrightarrow> \<forall>p dp. node sp cont e v p dp (Suc depth) ChangeLevelArrayElements = Inr (None, [])"
  shows "items sp cont e vs i elemPath docPath depth overlay = Inr (overlay, [])"
  using assms by (induction vs arbitrary: i) (simp_all add: Merge_optJoin)

lemma node_accepting:
  "accepts sp m v \<Longrightarrow> depth + height v \<le> MaxValidationDepth \<Longrightarrow> node sp cont m v path docPath depth lvl = Inr (None, [])"
proof (induction v arbitrary: m path docPath depth lvl)
  case (JObject flds)
  have "object sp cont m flds path docPath depth None = Inr (None, [])"
  proof (rule object_accepting)
    fix name v assume f: "(name, v) \<in> set flds"
    obtain c where c: "fmlookup (childrenOf m) name = Some c" "accepts sp c v"
      using JObject.prems(1) f by auto
    have "Suc depth + height v \<le> MaxValidationDepth"
      using JObject.prems(2) f unfolding height_object_le by blast
    then show "\<exists>c. fmlookup (childrenOf m) name = Some c \<and>
        (\<forall>p dp. node sp cont c v p dp (Suc depth) ChangeLevelType = Inr (None, []))"
      using JObject.IH [OF f, of v] c by auto
  qed
  then show ?case using JObject.prems by (auto simp: node.simps)
next
  case (JArray arr)
  obtain e where e: "elementOf m = Some e" "\<And>v. v \<in> set arr \<Longrightarrow> accepts sp e v" using JArray.prems(1) by auto
  have "items sp cont e arr 0 (path @ ''[]'') docPath depth None = Inr (None, [])"
  proof (rule items_accepting)
    fix v assume v: "v \<in> set arr"
    then have "Suc depth + height v \<le> MaxValidationDepth"
      using JArray.prems(2) unfolding height_array_le by blast
    then show "\<forall>p dp. node sp cont e v p dp (Suc depth) ChangeLevelArrayElements = Inr (None, [])"
      using JArray.IH [OF v] e(2) [OF v] by blast
  qed
  then show ?case using JArray.prems(2) e(1) by (auto simp: node.simps array.simps elementOf_def split: option.splits)
qed (auto simp: node.simps admitLeaf_def admitNull_def admitScalar_def holdsScalar_def split: option.splits)

lemma object_unchanged:
  assumes "object sp cont m flds path docPath depth overlay = Inr (overlay', [])" "(name, v) \<in> set flds"
  shows "\<exists>c p dp ov. fmlookup (childrenOf m) name = Some c \<and> node sp cont c v p dp (Suc depth) ChangeLevelType = Inr (ov, [])"
  using assms
proof (induction flds arbitrary: overlay)
  case (Cons f flds)
  obtain k w where f: "f = (k, w)" by force
  show ?case using Cons f by (fastforce simp: record_changes_Inr Let_def split: option.splits if_splits sum.splits prod.splits)
qed simp

lemma items_unchanged:
  assumes "items sp cont e vs i elemPath docPath depth overlay = Inr (overlay', [])" "v \<in> set vs"
  shows "\<exists>p dp ov. node sp cont e v p dp (Suc depth) ChangeLevelArrayElements = Inr (ov, [])"
  using assms
proof (induction vs arbitrary: i overlay)
  case (Cons w vs)
  then show ?case by (fastforce simp: record_changes_Inr split: sum.splits prod.splits)
qed simp

lemma node_unchanged:
  "node sp cont m v path docPath depth lvl = Inr (ov, []) \<Longrightarrow> accepts sp m v \<and> depth + height v \<le> MaxValidationDepth"
proof (induction v arbitrary: m path docPath depth lvl ov)
  case (JObject flds)
  then have depth: "depth < MaxValidationDepth" and m: "n_Object m \<noteq> None"
    and ob: "object sp cont m flds path docPath depth None = Inr (ov, [])"
    by (auto simp: node.simps record_changes_Inr split: if_splits)
  have "(\<exists>c. fmlookup (childrenOf m) name = Some c \<and> accepts sp c v) \<and> Suc depth + height v \<le> MaxValidationDepth"
    if f: "(name, v) \<in> set flds" for name v
  proof -
    obtain c p dp ov' where c: "fmlookup (childrenOf m) name = Some c"
      and n: "node sp cont c v p dp (Suc depth) ChangeLevelType = Inr (ov', [])"
      using object_unchanged [OF ob f] by blast
    show ?thesis using JObject.IH [OF f _ n] c by simp
  qed
  then show ?case using depth m unfolding height_object_le by auto
next
  case (JArray arr)
  then have depth: "depth < MaxValidationDepth" and ar: "array sp cont m arr path docPath depth = Inr (ov, [])"
    by (auto simp: node.simps record_changes_Inr split: if_splits)
  obtain e ov' where e: "elementOf m = Some e"
    and it: "items sp cont e arr 0 (path @ ''[]'') docPath depth None = Inr (ov', [])"
    using ar by (auto simp: array.simps record_changes_Inr Let_def split: option.splits sum.splits prod.splits)
  have "accepts sp e v \<and> Suc depth + height v \<le> MaxValidationDepth" if v: "v \<in> set arr" for v
    using items_unchanged [OF it v] JArray.IH [OF v] by blast
  then show ?case using depth e unfolding height_array_le by auto
qed (auto simp: node.simps admitLeaf_def admitNull_def admitScalar_def split: option.splits if_splits)

lemma Validate_iff: "Validate sp m v = [] \<longleftrightarrow> accepts sp m v \<and> height v \<le> MaxValidationDepth"
  using node_unchanged [of sp True m v "[]" "[]" 0 ChangeLevelType] node_accepting [of sp m v 0 True "[]" "[]" ChangeLevelType]
  by (auto simp: Validate_def split: sum.splits)

end
