(* ===== verification/SchemaExtend.thy ===== *)
theory SchemaExtend
  imports SchemaAdmit
begin

text \<open>
  What extending a model does to the documents it accepts. A merge accepts what either side accepted, so a
  model never loses a document; and the overlay of a traversal is enough: the merged model accepts the document
  that was traversed. \<open>wellNamed\<close> nodes declare something, have addressable field names and no empty type set,
  which is what admission establishes and the delta code relies on.
\<close>

fun wellNamed :: "ModelNode \<Rightarrow> bool" where
  "wellNamed (Node s ob ar nl) \<longleftrightarrow>
     s \<noteq> Some [] \<and> (s \<noteq> None \<or> ob \<noteq> None \<or> ar \<noteq> None \<or> nl) \<and>
     (\<forall>cs. ob = Some cs \<longrightarrow> (\<forall>name \<in> fmdom' cs. IsSegmentName name)) \<and>
     (\<forall>cs c. ob = Some cs \<longrightarrow> c \<in> fmran' cs \<longrightarrow> wellNamed c) \<and>
     (\<forall>e. ar = Some (Some e) \<longrightarrow> wellNamed e)"

definition builtNode :: "SchemaSpi \<Rightarrow> ModelNode \<Rightarrow> bool" where
  "builtNode sp n \<longleftrightarrow> canon sp n \<and> wellNamed n"

definition overlayOK :: "ModelNode option \<Rightarrow> bool" where
  "overlayOK ov \<longleftrightarrow> ov = None \<or> (\<exists>cs. ov = Some (Node None (Some cs) None False))"

definition ovLookup :: "ModelNode option \<Rightarrow> string \<Rightarrow> ModelNode option" where
  "ovLookup ov name = (case ov of None \<Rightarrow> None | Some n \<Rightarrow> fmlookup (childrenOf n) name)"

text \<open>How the traversal of an object treats one of its fields.\<close>

definition fieldResult :: "SchemaSpi \<Rightarrow> ModelNode \<Rightarrow> nat \<Rightarrow> string \<Rightarrow> Any \<Rightarrow> ModelNode option \<Rightarrow> bool" where
  "fieldResult sp m depth name v r \<longleftrightarrow>
     (case fmlookup (childrenOf m) name of
        None \<Rightarrow> IsSegmentName name \<and> (\<exists>p dp chs. describeAt sp False v p dp (Suc depth) = Inr (r, chs))
      | Some c \<Rightarrow> \<exists>p dp chs. node sp False c v p dp (Suc depth) ChangeLevelType = Inr (r, chs))"

definition extended :: "SchemaSpi \<Rightarrow> ModelNode \<Rightarrow> ModelNode option \<Rightarrow> ModelNode" where
  "extended sp m ov = (case ov of None \<Rightarrow> m | Some n \<Rightarrow> mergeNode sp m n)"

subsection \<open>A merge accepts what either side accepts\<close>

lemma schema_lawsD:
  assumes "schema_laws sp"
  shows laws_types: "types_laws sp" and laws_admission: "admission_laws sp" and laws_classify: "classify_laws sp"
    and laws_codec: "codec_laws sp"
  using assms by (auto simp: schema_laws_def)

lemma holdsScalar_mono:
  assumes "schema_laws sp" "holdsScalar sp ts v" "set ts \<subseteq> A"
  shows "holdsScalar sp (sp_Types sp A) v"
proof -
  have keep: "dt \<in> set (sp_Types sp A)" if "dt \<in> set ts" "\<not> numeric dt" "dt \<noteq> Null" for dt
    using laws_admission [OF assms(1)] that assms(3) unfolding admission_laws_def by blast
  have num: "\<exists>dt' \<in> set (sp_Types sp A). sp_AdmitsNumeric sp dt' d" if "dt \<in> set ts" "sp_AdmitsNumeric sp dt d" for dt d
    using laws_admission [OF assms(1)] that assms(3) unfolding admission_laws_def by blast
  have temporal: "\<not> numeric dt \<and> dt \<noteq> Null" if "sp_ClassifyTemporalString sp s = Some dt" for s dt
    using laws_classify [OF assms(1)] that unfolding classify_laws_def by blast
  have plain: "\<not> numeric String" "\<not> numeric Boolean" by (simp_all add: numeric_def)
  show ?thesis
  proof (cases v)
    case (JNumber s)
    then show ?thesis using assms(2) num by (auto simp: holdsScalar_def list_ex_iff split: option.splits)
  next
    case (JString s)
    then show ?thesis using assms(2) keep temporal plain by (fastforce simp: holdsScalar_def list_ex_iff)
  next
    case (JBool b)
    then show ?thesis using assms(2) keep plain by (auto simp: holdsScalar_def list_ex_iff)
  qed (use assms(2) in \<open>auto simp: holdsScalar_def\<close>)
qed

lemma merge_child:
  assumes "types_laws sp" "canon sp a" "canon sp b"
  shows "fmlookup (childrenOf (mergeNode sp a b)) name =
           optJoin (mergeNode sp) (fmlookup (childrenOf a) name) (fmlookup (childrenOf b) name)"
  by (cases "n_Object a"; cases "n_Object b") (simp_all add: childrenOf_def merge_Object [OF assms])

lemma canon_childOf: "canon sp n \<Longrightarrow> fmlookup (childrenOf n) name = Some c \<Longrightarrow> canon sp c"
  by (auto simp: childrenOf_def split: option.splits dest: canon_child)

lemma canon_elementOf: "canon sp n \<Longrightarrow> elementOf n = Some e \<Longrightarrow> canon sp e"
  by (auto simp: elementOf_Some dest: canon_element)

lemma merge_Scalar_None:
  "types_laws sp \<Longrightarrow> canon sp a \<Longrightarrow> canon sp b \<Longrightarrow>
     n_Scalar (mergeNode sp a b) = None \<longleftrightarrow> n_Scalar a = None \<and> n_Scalar b = None"
  by (simp add: merge_Scalar)

lemma accepts_merge:
  assumes sp: "schema_laws sp"
  shows "canon sp a \<Longrightarrow> canon sp b \<Longrightarrow> accepts sp a v \<Longrightarrow> accepts sp (mergeNode sp a b) v"
proof (induction v arbitrary: a b)
  case JNull
  then show ?case
    by (auto simp: merge_Scalar_None [OF laws_types [OF sp]] merge_Nullable [OF laws_types [OF sp]])
next
  case (JObject flds)
  note ab = JObject.prems(1,2)
  have "\<exists>c. fmlookup (childrenOf (mergeNode sp a b)) name = Some c \<and> accepts sp c v" if f: "(name, v) \<in> set flds" for name v
  proof -
    obtain c where c: "fmlookup (childrenOf a) name = Some c" "accepts sp c v" using JObject.prems(3) f by auto
    show ?thesis
    proof (cases "fmlookup (childrenOf b) name")
      case (Some d)
      then show ?thesis
        using JObject.IH [OF f _ canon_childOf [OF ab(1) c(1)] canon_childOf [OF ab(2) Some], of v] c
        by (simp add: merge_child [OF laws_types [OF sp] ab])
    qed (use c in \<open>simp add: merge_child [OF laws_types [OF sp] ab]\<close>)
  qed
  moreover have "n_Object (mergeNode sp a b) \<noteq> None"
    using JObject.prems(3) by (simp add: merge_Object [OF laws_types [OF sp] ab])
  ultimately show ?case by auto
next
  case (JArray arr)
  note ab = JArray.prems(1,2)
  obtain e where e: "elementOf a = Some e" "\<And>v. v \<in> set arr \<Longrightarrow> accepts sp e v" using JArray.prems(3) by auto
  show ?case
  proof (cases "elementOf b")
    case (Some d)
    then show ?thesis
      using JArray.IH [OF _ canon_elementOf [OF ab(1) e(1)] canon_elementOf [OF ab(2) Some]] e
      by (auto simp: merge_element [OF laws_types [OF sp] ab])
  qed (use e in \<open>simp add: merge_element [OF laws_types [OF sp] ab]\<close>)
qed (auto simp: merge_Scalar_None [OF laws_types [OF sp]] scalarTypes_merge [OF laws_types [OF sp]]
       intro: holdsScalar_mono [OF sp])

lemma accepts_merge_right:
  assumes "schema_laws sp" "canon sp a" "canon sp b" "accepts sp b v"
  shows "accepts sp (mergeNode sp a b) v"
  using accepts_merge [OF assms(1,3,2,4)] merge_comm [OF laws_types [OF assms(1)] assms(2,3)] by simp

subsection \<open>Nodes a traversal builds\<close>

lemma wellNamedD:
  assumes "wellNamed n"
  shows wellNamed_types: "n_Scalar n \<noteq> Some []"
    and wellNamed_declares: "n_Scalar n \<noteq> None \<or> n_Object n \<noteq> None \<or> n_Array n \<noteq> None \<or> n_Nullable n"
    and wellNamed_name: "fmlookup (childrenOf n) name = Some c \<Longrightarrow> IsSegmentName name"
    and wellNamed_child: "fmlookup (childrenOf n) name = Some c \<Longrightarrow> wellNamed c"
    and wellNamed_element: "elementOf n = Some e \<Longrightarrow> wellNamed e"
  using assms
  by (cases n; auto simp: childrenOf_def elementOf_def fmlookup_dom'_iff split: option.splits dest: fmlookup_ranI)+

lemma wellNamedI:
  assumes "n_Scalar n \<noteq> Some []" "n_Scalar n \<noteq> None \<or> n_Object n \<noteq> None \<or> n_Array n \<noteq> None \<or> n_Nullable n"
    and "\<And>name c. fmlookup (childrenOf n) name = Some c \<Longrightarrow> IsSegmentName name \<and> wellNamed c"
    and "\<And>e. elementOf n = Some e \<Longrightarrow> wellNamed e"
  shows "wellNamed n"
  using assms by (cases n) (auto simp: childrenOf_def elementOf_def fmlookup_dom'_iff fmlookup_ran'_iff)

lemma wellNamed_merge:
  assumes sp: "types_laws sp"
  shows "canon sp a \<Longrightarrow> canon sp b \<Longrightarrow> wellNamed a \<Longrightarrow> wellNamed b \<Longrightarrow> wellNamed (mergeNode sp a b)"
proof (induction a arbitrary: b rule: node_induct)
  case (node a)
  note ab = node.prems(1,2)
  have ihc: "wellNamed (mergeNode sp c d)"
    if "fmlookup (childrenOf a) name = Some c" "fmlookup (childrenOf b) name = Some d" for name c d
    using that node.IH(1) canon_childOf [OF ab(1)] canon_childOf [OF ab(2)] wellNamed_child [OF node.prems(3)]
      wellNamed_child [OF node.prems(4)]
    by (auto simp: childrenOf_def split: option.splits)
  have ihe: "wellNamed (mergeNode sp c d)" if "elementOf a = Some c" "elementOf b = Some d" for c d
    using that node.IH(2) canon_elementOf [OF ab(1)] canon_elementOf [OF ab(2)] wellNamed_element [OF node.prems(3)]
      wellNamed_element [OF node.prems(4)]
    by (auto simp: elementOf_Some)
  show ?case
  proof (rule wellNamedI)
    show "n_Scalar (mergeNode sp a b) \<noteq> Some []"
      using wellNamed_types [OF node.prems(3)] wellNamed_types [OF node.prems(4)] types_nonempty [OF sp]
      by (auto simp: merge_Scalar [OF sp ab] scalarTypes_def split: option.splits)
  next
    show "n_Scalar (mergeNode sp a b) \<noteq> None \<or> n_Object (mergeNode sp a b) \<noteq> None \<or> n_Array (mergeNode sp a b) \<noteq> None \<or>
        n_Nullable (mergeNode sp a b)"
      using wellNamed_declares [OF node.prems(3)] by (auto simp: merge_branches [OF sp ab])
  next
    fix name c assume "fmlookup (childrenOf (mergeNode sp a b)) name = Some c"
    then show "IsSegmentName name \<and> wellNamed c"
      using ihc wellNamed_name [OF node.prems(3)] wellNamed_name [OF node.prems(4)]
        wellNamed_child [OF node.prems(3)] wellNamed_child [OF node.prems(4)]
      by (auto simp: merge_child [OF sp ab] elim!: optJoin_cases)
  next
    fix e assume "elementOf (mergeNode sp a b) = Some e"
    then show "wellNamed e"
      using ihe wellNamed_element [OF node.prems(3)] wellNamed_element [OF node.prems(4)]
      by (auto simp: merge_element [OF sp ab] elim!: optJoin_cases)
  qed
qed

lemma builtNode_merge: "types_laws sp \<Longrightarrow> builtNode sp a \<Longrightarrow> builtNode sp b \<Longrightarrow> builtNode sp (mergeNode sp a b)"
  by (simp add: builtNode_def merge_canon wellNamed_merge)

lemma builtNode_leaf:
  assumes "types_laws sp" "dt \<noteq> Null"
  shows "builtNode sp (NewLeafNode sp dt)" "n_Scalar (NewLeafNode sp dt) = Some (sp_Types sp {dt})"
proof -
  have leaf: "NewLeafNode sp dt = Node (Some (sp_Types sp {dt})) None None False"
    using assms(2) by (auto simp: NewLeafNode_def AddScalarTypes_def emptyNode_def scalarTypes_def Let_def)
  show "n_Scalar (NewLeafNode sp dt) = Some (sp_Types sp {dt})" by (simp add: leaf)
  have "Null \<notin> set (sp_Types sp {dt})" using assms(2) by (intro types_Null [OF assms(1)]) simp
  then show "builtNode sp (NewLeafNode sp dt)"
    using types_nonempty [OF assms(1), of "{dt}"] by (simp add: leaf builtNode_def types_idem [OF assms(1)])
qed

lemma marker_node: "SetNullable (Node None None None True) = Node None None None True"
    "NewLeafNode sp Null = Node None None None True"
  by (simp_all add: NewLeafNode_def AddScalarTypes_def SetNullable_def emptyNode_def)

lemma builtNode_marker: "builtNode sp (Node None None None True)"
  by (simp add: builtNode_def)

text \<open>The classified type of a scalar holds it, alone and in every set it is added to.\<close>

lemma infer_holds:
  assumes sp: "schema_laws sp" and v: "decoded sp v" "v \<in> {JNumber s, JString s, JBool b}"
  shows "inferDataType sp v \<noteq> Null"
    and "inferDataType sp v \<in> A \<Longrightarrow> holdsScalar sp (sp_Types sp A) v"
proof -
  note cl = laws_classify [OF sp, unfolded classify_laws_def]
  have strip: "sp_AdmitsNumeric sp dt (sp_StripTrailingZeros sp d) \<Longrightarrow> sp_AdmitsNumeric sp dt d" for dt d using cl by blast
  have own: "sp_AdmitsNumeric sp (inferDataType sp v) d" if n: "v = JNumber s" "sp_ParseDecimal sp s = Some d" for d
  proof (rule strip)
    let ?t = "sp_StripTrailingZeros sp d"
    show "sp_AdmitsNumeric sp (inferDataType sp v) ?t"
    proof (cases "d_Scale ?t \<le> 0")
      case True
      then have "sp_AdmitsNumeric sp UnboundInteger ?t"
        "sp_AdmitsNumeric sp (sp_ClassifyInteger sp (d_Unscaled ?t * 10 ^ nat (- d_Scale ?t))) ?t" using cl by blast+
      then show ?thesis using n True by (cases "d_Scale ?t = 0") (simp_all add: inferDataType_def Let_def)
    next
      case False
      then have "0 < d_Scale ?t" by simp
      then have "sp_AdmitsNumeric sp (sp_ClassifyDecimal sp ?t) ?t" using cl by blast
      then show ?thesis using n False by (simp add: inferDataType_def Let_def)
    qed
  qed
  have "holdsScalar sp [inferDataType sp v] v"
    using v own by (auto simp: holdsScalar_def inferDataType_def split: option.splits)
  then show "inferDataType sp v \<in> A \<Longrightarrow> holdsScalar sp (sp_Types sp A) v"
    by (rule holdsScalar_mono [OF sp]) simp
  have "numeric (sp_ClassifyInteger sp i)" "numeric (sp_ClassifyDecimal sp d)"
    "sp_ClassifyTemporalString sp t \<noteq> Some Null" for i d t using cl by blast+
  moreover have "\<not> numeric Null" "numeric UnboundInteger" by (simp_all add: numeric_def)
  ultimately show "inferDataType sp v \<noteq> Null"
    using v by (auto simp: inferDataType_def Let_def split: option.splits) metis+
qed

subsection \<open>The loops of a traversal\<close>

lemma overlayChild_lookup:
  assumes "overlayOK ov"
  shows "overlayOK (overlayChild name c ov)"
    and "ovLookup (overlayChild name c ov) k = (if k = name \<and> c \<noteq> None then c else ovLookup ov k)"
proof -
  obtain cs where e: "(case ov of None \<Rightarrow> NewObjectNode | Some n \<Rightarrow> n) = Node None (Some cs) None False"
    and l: "ovLookup ov k = fmlookup cs k"
    using assms
    by (auto simp: overlayOK_def NewObjectNode_def DeclareKind_def emptyNode_def childrenOf_def ovLookup_def)
  show "overlayOK (overlayChild name c ov)"
    by (cases c) (auto simp: overlayChild_def e overlayOK_def SetChild_def)
  show "ovLookup (overlayChild name c ov) k = (if k = name \<and> c \<noteq> None then c else ovLookup ov k)"
    unfolding l by (cases c) (simp_all add: overlayChild_def e ovLookup_def SetChild_def childrenOf_def)
qed

lemma object_step:
  assumes "object sp False m ((name, v) # flds) path docPath depth ov = Inr (ov', chs)" "overlayOK ov"
  obtains r ov1 chs1 where "fieldResult sp m depth name v r" "overlayOK ov1"
    "object sp False m flds path docPath depth ov1 = Inr (ov', chs1)"
    "\<And>k. ovLookup ov1 k = (if k = name \<and> r \<noteq> None then r else ovLookup ov k)"
proof (cases "fmlookup (childrenOf m) name")
  case None
  then obtain d chs2 chs1 where "IsSegmentName name"
    "describeAt sp False v (path @ ''.'' @ name) (docPath @ ''.'' @ name) (Suc depth) = Inr (d, chs2)"
    "object sp False m flds path docPath depth (overlayChild name d ov) = Inr (ov', chs1)"
    using assms(1)
    by (auto simp: Let_def ValidateFieldName_def record_changes_Inr split: option.splits if_splits sum.splits prod.splits)
  then show ?thesis
    using None overlayChild_lookup [OF assms(2), of name d] by (intro that [of d "overlayChild name d ov"]) (auto simp: fieldResult_def)
next
  case (Some c)
  then obtain r chs2 chs1 where n: "node sp False c v (path @ ''.'' @ name) (docPath @ ''.'' @ name) (Suc depth) ChangeLevelType = Inr (r, chs2)"
    "object sp False m flds path docPath depth (if r = None then ov else overlayChild name r ov) = Inr (ov', chs1)"
    using assms(1) by (auto simp: Let_def record_changes_Inr split: sum.splits prod.splits)
  then show ?thesis
    using Some overlayChild_lookup [OF assms(2), of name r] assms(2)
    by (intro that [of r "if r = None then ov else overlayChild name r ov"]) (auto simp: fieldResult_def)
qed

lemma object_result:
  assumes "object sp False m flds path docPath depth ov = Inr (ov', chs)" "distinct (map fst flds)" "overlayOK ov"
  shows "overlayOK ov' \<and> (\<forall>name. name \<notin> fst ` set flds \<longrightarrow> ovLookup ov' name = ovLookup ov name) \<and>
    (\<forall>(name, v) \<in> set flds. ovLookup ov name = None \<longrightarrow> fieldResult sp m depth name v (ovLookup ov' name))"
  using assms
proof (induction flds arbitrary: ov chs)
  case (Cons f flds)
  obtain name v where f: "f = (name, v)" by force
  obtain r ov1 chs1 where r: "fieldResult sp m depth name v r" "overlayOK ov1"
    "object sp False m flds path docPath depth ov1 = Inr (ov', chs1)"
    "\<And>k. ovLookup ov1 k = (if k = name \<and> r \<noteq> None then r else ovLookup ov k)"
    using object_step [OF Cons.prems(1) [unfolded f] Cons.prems(3)] by blast
  have name: "name \<notin> fst ` set flds" using Cons.prems(2) f by (auto simp: image_iff)
  have ih: "overlayOK ov'" "\<And>k. k \<notin> fst ` set flds \<Longrightarrow> ovLookup ov' k = ovLookup ov1 k"
    "\<And>k w. (k, w) \<in> set flds \<Longrightarrow> ovLookup ov1 k = None \<Longrightarrow> fieldResult sp m depth k w (ovLookup ov' k)"
    using Cons.IH [OF r(3) _ r(2)] Cons.prems(2) by auto
  have "fieldResult sp m depth name v (ovLookup ov' name)" if "ovLookup ov name = None"
    using r(1) ih(2) [OF name] that by (cases r) (simp_all add: r(4))
  moreover have "ovLookup ov1 k = ovLookup ov k" if "(k, w) \<in> set flds" for k w
    using name that by (auto simp: r(4) image_iff)
  ultimately show ?case using ih r(4) f by (auto simp: image_iff)
qed simp

lemma items_result:
  assumes "items sp cont e vs i elemPath docPath depth ov = Inr (ov', chs)"
  shows "\<exists>os. list_all2 (\<lambda>v r. \<exists>p dp chs. node sp cont e v p dp (Suc depth) ChangeLevelArrayElements = Inr (r, chs)) vs os \<and>
           ov' = foldl (Merge sp) ov os"
  using assms
proof (induction vs arbitrary: i ov chs)
  case (Cons v vs)
  obtain r chs1 chs2 where "node sp cont e v elemPath (indexPath docPath i) (Suc depth) ChangeLevelArrayElements = Inr (r, chs1)"
    "items sp cont e vs (Suc i) elemPath docPath depth (Merge sp ov r) = Inr (ov', chs2)"
    using Cons.prems by (auto simp: record_changes_Inr split: sum.splits prod.splits)
  moreover obtain os where "list_all2 (\<lambda>v r. \<exists>p dp chs. node sp cont e v p dp (Suc depth) ChangeLevelArrayElements = Inr (r, chs)) vs os" "ov' = foldl (Merge sp) (Merge sp ov r) os"
    using Cons.IH [OF calculation(2)] by blast
  ultimately show ?case by (intro exI [of _ "r # os"]) auto
qed simp

lemma learn_result:
  assumes "learn sp cont vs i elemPath docPath depth ov = Inr (ov', chs)"
  shows "\<exists>os. list_all2 (\<lambda>v r. \<exists>p dp chs. describeAt sp cont v p dp (Suc depth) = Inr (r, chs)) vs os \<and>
           ov' = foldl (Merge sp) ov os"
  using assms
proof (induction vs arbitrary: i ov chs)
  case (Cons v vs)
  obtain r chs1 chs2 where "describeAt sp cont v elemPath (indexPath docPath i) (Suc depth) = Inr (r, chs1)"
    "learn sp cont vs (Suc i) elemPath docPath depth (Merge sp ov r) = Inr (ov', chs2)"
    using Cons.prems by (auto simp: record_changes_Inr split: sum.splits prod.splits)
  moreover obtain os where "list_all2 (\<lambda>v r. \<exists>p dp chs. describeAt sp cont v p dp (Suc depth) = Inr (r, chs)) vs os" "ov' = foldl (Merge sp) (Merge sp ov r) os"
    using Cons.IH [OF calculation(2)] by blast
  ultimately show ?case by (intro exI [of _ "r # os"]) auto
qed simp

text \<open>A fold of merges is a built node above each of its members.\<close>

lemma foldl_Merge:
  assumes sp: "types_laws sp" and "\<And>x. Some x \<in> set os \<Longrightarrow> builtNode sp x" "\<And>x. ov = Some x \<Longrightarrow> builtNode sp x"
  shows "(\<forall>z. foldl (Merge sp) ov os = Some z \<longrightarrow> builtNode sp z) \<and>
    (\<forall>x. ov = Some x \<or> Some x \<in> set os \<longrightarrow> (\<exists>z. foldl (Merge sp) ov os = Some z \<and> mergeNode sp x z = z))"
  using assms(2,3)
proof (induction os arbitrary: ov)
  case Nil
  then show ?case using merge_idem [OF sp] by (auto simp: builtNode_def)
next
  case (Cons r os)
  have built: "builtNode sp x" if "Merge sp ov r = Some x" for x
    using Cons.prems builtNode_merge [OF sp] that by (auto simp: Merge_optJoin elim!: optJoin_cases)
  have ih: "\<And>z. foldl (Merge sp) (Merge sp ov r) os = Some z \<Longrightarrow> builtNode sp z"
    "\<And>x. Merge sp ov r = Some x \<or> Some x \<in> set os \<Longrightarrow> \<exists>z. foldl (Merge sp) (Merge sp ov r) os = Some z \<and> mergeNode sp x z = z"
    using Cons.IH [of "Merge sp ov r"] Cons.prems(1) built by auto
  have up: "\<exists>y. Merge sp ov r = Some y \<and> builtNode sp x \<and> mergeNode sp x y = y" if x0: "ov = Some x \<or> r = Some x" for x
  proof -
    have x: "builtNode sp x" using x0 Cons.prems by auto
    obtain y where y: "Merge sp ov r = Some y" using x0 by (cases ov; cases r) (auto simp: Merge_optJoin)
    have "y = x \<or> (\<exists>w. builtNode sp w \<and> (y = mergeNode sp x w \<or> y = mergeNode sp w x))"
      using x0 y Cons.prems by (auto simp: Merge_optJoin elim!: optJoin_cases)
    then have "mergeNode sp x y = y"
      using x merge_idem [OF sp] merge_assoc [OF sp] merge_comm [OF sp] unfolding builtNode_def by metis
    then show ?thesis using x y by blast
  qed
  have "\<exists>z. foldl (Merge sp) ov (r # os) = Some z \<and> mergeNode sp x z = z" if x: "ov = Some x \<or> r = Some x" for x
  proof -
    obtain y z where "Merge sp ov r = Some y" "builtNode sp x" "mergeNode sp x y = y"
      "foldl (Merge sp) ov (r # os) = Some z" "mergeNode sp y z = z" "builtNode sp y" "builtNode sp z"
      using up [OF x] ih built by fastforce
    then show ?thesis using merge_assoc [OF sp, of x y z] unfolding builtNode_def by auto
  qed
  then show ?case using ih by auto
qed

subsection \<open>The overlay of a traversal is enough\<close>

lemma overlay_node:
  assumes "overlayOK ov" "\<And>name c. ovLookup ov name = Some c \<Longrightarrow> IsSegmentName name \<and> builtNode sp c"
    and "n = (case ov of None \<Rightarrow> NewObjectNode | Some n \<Rightarrow> n)"
  shows "builtNode sp n" "n_Object n \<noteq> None" "fmlookup (childrenOf n) name = ovLookup ov name"
proof -
  obtain cs where n: "n = Node None (Some cs) None False" and l: "\<And>k. ovLookup ov k = fmlookup cs k"
    using assms(1,3)
    by (auto simp: overlayOK_def NewObjectNode_def DeclareKind_def emptyNode_def childrenOf_def ovLookup_def)
  show "n_Object n \<noteq> None" "fmlookup (childrenOf n) name = ovLookup ov name" by (simp_all add: n l childrenOf_def)
  have kids: "\<And>k c. fmlookup cs k = Some c \<Longrightarrow> IsSegmentName k \<and> canon sp c \<and> wellNamed c"
    using assms(2) unfolding l builtNode_def by blast
  have "canon sp n" unfolding n by (rule canonI) (simp, use kids in force, simp)
  moreover have "wellNamed n"
    unfolding n by (rule wellNamedI) (simp, simp, use kids in \<open>force simp: childrenOf_def\<close>, simp add: elementOf_def)
  ultimately show "builtNode sp n" by (simp add: builtNode_def)
qed

lemma builtNode_array: "builtNode sp z \<Longrightarrow> builtNode sp (NewArrayNode (Some z))"
  by (simp add: builtNode_def NewArrayNode_def)

lemma learned_element:
  assumes sp: "schema_laws sp"
    and ih: "\<And>v p dp r chs. v \<in> set arr \<Longrightarrow> describeAt sp False v p dp (Suc depth) = Inr (r, chs) \<Longrightarrow>
      \<exists>n. r = Some n \<and> builtNode sp n \<and> accepts sp n v \<and> Suc depth + height v \<le> MaxValidationDepth"
    and m: "elementOf m = None" and a: "array sp False m arr path docPath depth = Inr (ov, chs)"
  shows "\<exists>z. ov = Some (NewArrayNode (Some z)) \<and> builtNode sp z \<and>
    (\<forall>v \<in> set arr. accepts sp z v \<and> Suc depth + height v \<le> MaxValidationDepth)"
proof (cases "arr = []")
  case True
  then show ?thesis using a m builtNode_marker by (auto simp: array.simps marker_node Let_def)
next
  case False
  obtain r chs' where l: "learn sp False arr 0 (path @ ''[]'') docPath depth None = Inr (r, chs')"
    and ov: "ov = (case r of None \<Rightarrow> None | Some z \<Rightarrow> Some (NewArrayNode (Some z)))"
    using a m False
    by (auto simp: array.simps Let_def record_changes_def split: sum.splits prod.splits option.splits)
  obtain os where os: "list_all2 (\<lambda>v r. \<exists>p dp chs. describeAt sp False v p dp (Suc depth) = Inr (r, chs)) arr os"
    and r: "r = foldl (Merge sp) None os" using learn_result [OF l] by blast
  have each: "\<exists>x. os ! k = Some x \<and> builtNode sp x \<and> accepts sp x (arr ! k) \<and> Suc depth + height (arr ! k) \<le> MaxValidationDepth"
    if "k < length arr" for k
    using list_all2_nthD [OF os that] ih [of "arr ! k"] that by fastforce
  have len: "length os = length arr" using os by (simp add: list_all2_lengthD)
  have built: "builtNode sp x" if "Some x \<in> set os" for x
    using that each len by (metis in_set_conv_nth option.inject)
  note fold = foldl_Merge [OF laws_types [OF sp] built, where ov = None, simplified]
  obtain x0 where "Some x0 \<in> set os" using each [of 0] False len by (metis length_greater_0_conv nth_mem)
  then obtain z where z: "r = Some z" "builtNode sp z" using fold r by blast
  have "accepts sp z v \<and> Suc depth + height v \<le> MaxValidationDepth" if "v \<in> set arr" for v
  proof -
    obtain k where k: "k < length arr" "arr ! k = v" using \<open>v \<in> set arr\<close> by (auto simp: in_set_conv_nth)
    obtain x where x: "os ! k = Some x" "builtNode sp x" "accepts sp x v" "Suc depth + height v \<le> MaxValidationDepth"
      using each [OF k(1)] k(2) by auto
    have "mergeNode sp x z = z" using fold x(1) k(1) len r z(1) by (metis nth_mem option.inject)
    then show ?thesis using accepts_merge [OF sp _ _ x(3), of z] x z(2) by (simp add: builtNode_def)
  qed
  then show ?thesis using z ov by auto
qed

lemma describe_result:
  assumes sp: "schema_laws sp"
  shows "decoded sp v \<Longrightarrow> describeAt sp False v p dp depth = Inr (ov, chs) \<Longrightarrow>
    \<exists>n. ov = Some n \<and> builtNode sp n \<and> accepts sp n v \<and> depth + height v \<le> MaxValidationDepth"
proof (induction v arbitrary: p dp depth ov chs)
  case (JObject flds)
  obtain ov1 chs1 where depth: "depth < MaxValidationDepth"
    and ob: "object sp False NewObjectNode flds p dp depth None = Inr (ov1, chs1)"
    and ov: "ov = Some (case ov1 of None \<Rightarrow> NewObjectNode | Some n \<Rightarrow> n)"
    using JObject.prems(2) by (auto simp: describeAt.simps split: if_splits sum.splits prod.splits option.splits)
  have dist: "distinct (map fst flds)" using JObject.prems(1) by simp
  have res: "overlayOK ov1" "\<And>name. name \<notin> fst ` set flds \<Longrightarrow> ovLookup ov1 name = None"
    "\<And>name v. (name, v) \<in> set flds \<Longrightarrow> fieldResult sp NewObjectNode depth name v (ovLookup ov1 name)"
    using object_result [OF ob dist] by (auto simp: overlayOK_def ovLookup_def)
  have fld: "IsSegmentName name \<and> (\<exists>n. ovLookup ov1 name = Some n \<and> builtNode sp n \<and> accepts sp n v) \<and>
      Suc depth + height v \<le> MaxValidationDepth" if f: "(name, v) \<in> set flds" for name v
  proof -
    obtain p' dp' chs' where seg: "IsSegmentName name" and d: "describeAt sp False v p' dp' (Suc depth) = Inr (ovLookup ov1 name, chs')"
      using res(3) [OF f]
      by (auto simp: fieldResult_def NewObjectNode_def DeclareKind_def emptyNode_def childrenOf_def)
    have "decoded sp v" using JObject.prems(1) f by auto
    then show ?thesis using JObject.IH [OF f _ _ d] seg by auto
  qed
  have all: "IsSegmentName name \<and> builtNode sp c" if "ovLookup ov1 name = Some c" for name c
    using fld res(2) [of name] that by (cases "name \<in> fst ` set flds") force+
  note n = overlay_node [OF res(1) all refl]
  show ?case using n ov fld depth unfolding height_object_le by (auto, blast)
next
  case (JArray arr)
  then obtain chs' where a': "array sp False (NewArrayNode None) arr p dp depth = Inr (ov, chs')"
    and depth: "depth < MaxValidationDepth"
    by (auto simp: describeAt.simps split: if_splits sum.splits prod.splits)
  have ih: "\<exists>n. r = Some n \<and> builtNode sp n \<and> accepts sp n v \<and> Suc depth + height v \<le> MaxValidationDepth"
    if "v \<in> set arr" "describeAt sp False v p dp (Suc depth) = Inr (r, chs)" for v p dp r chs
    using JArray.IH [OF that(1) _ that(2)] JArray.prems(1) that(1) by simp
  have el: "elementOf (NewArrayNode None) = None" by (simp add: NewArrayNode_def elementOf_def)
  obtain z where "ov = Some (NewArrayNode (Some z))" "builtNode sp z"
    "\<forall>v \<in> set arr. accepts sp z v \<and> Suc depth + height v \<le> MaxValidationDepth"
    using learned_element [OF sp _ el a'] ih by blast
  then show ?case using builtNode_array depth unfolding height_array_le by (auto simp: NewArrayNode_def elementOf_def)
next
  case JNull
  then show ?case
    by (auto simp: describeAt.simps admitLeaf_def admitNull_def emptyNode_def marker_node builtNode_marker split: if_splits)
next
  case (JNumber s)
  then show ?case using infer_holds [OF sp JNumber.prems(1), of s] builtNode_leaf [OF laws_types [OF sp]]
    by (auto simp: describeAt.simps admitLeaf_def admitScalar_def emptyNode_def split: if_splits)
next
  case (JString s)
  then show ?case using infer_holds [OF sp JString.prems(1), of s] builtNode_leaf [OF laws_types [OF sp]]
    by (auto simp: describeAt.simps admitLeaf_def admitScalar_def emptyNode_def split: if_splits)
next
  case (JBool b)
  then show ?case using infer_holds [OF sp JBool.prems(1), of _ b] builtNode_leaf [OF laws_types [OF sp]]
    by (auto simp: describeAt.simps admitLeaf_def admitScalar_def emptyNode_def split: if_splits)
qed (auto simp: describeAt.simps admitLeaf_def split: if_splits)

lemma builtNode_childOf: "builtNode sp m \<Longrightarrow> fmlookup (childrenOf m) name = Some c \<Longrightarrow> builtNode sp c"
  unfolding builtNode_def using canon_childOf wellNamed_child by blast

lemma builtNode_elementOf: "builtNode sp m \<Longrightarrow> elementOf m = Some e \<Longrightarrow> builtNode sp e"
  unfolding builtNode_def using canon_elementOf wellNamed_element by blast

lemma extended_object:
  assumes "types_laws sp" "builtNode sp m" "n_Object m \<noteq> None" "overlayOK ov" "\<And>n. ov = Some n \<Longrightarrow> builtNode sp n"
  shows "n_Object (extended sp m ov) \<noteq> None"
    and "fmlookup (childrenOf (extended sp m ov)) name = optJoin (mergeNode sp) (fmlookup (childrenOf m) name) (ovLookup ov name)"
  using assms by (cases ov; auto simp: extended_def ovLookup_def merge_child merge_Object builtNode_def)+

lemma accepts_extended:
  "schema_laws sp \<Longrightarrow> builtNode sp m \<Longrightarrow> (\<And>n. ov = Some n \<Longrightarrow> builtNode sp n) \<Longrightarrow> accepts sp m v \<Longrightarrow> accepts sp (extended sp m ov) v"
  by (cases ov) (auto simp: extended_def builtNode_def intro: accepts_merge)

text \<open>The items of an array, judged against its element.\<close>

lemma items_extended:
  assumes sp: "schema_laws sp" and e: "builtNode sp e"
    and ih: "\<And>v p dp r chs. v \<in> set arr \<Longrightarrow> node sp False e v p dp (Suc depth) ChangeLevelArrayElements = Inr (r, chs) \<Longrightarrow>
      (\<forall>n. r = Some n \<longrightarrow> builtNode sp n) \<and> accepts sp (extended sp e r) v \<and> Suc depth + height v \<le> MaxValidationDepth"
    and it: "items sp False e arr i ep dp depth None = Inr (ov, chs)"
  shows "(\<forall>n. ov = Some n \<longrightarrow> builtNode sp n) \<and>
    (\<forall>v \<in> set arr. accepts sp (extended sp e ov) v \<and> Suc depth + height v \<le> MaxValidationDepth)"
proof -
  obtain os where os: "list_all2 (\<lambda>v r. \<exists>p dp chs. node sp False e v p dp (Suc depth) ChangeLevelArrayElements = Inr (r, chs)) arr os"
    and ov: "ov = foldl (Merge sp) None os" using items_result [OF it] by blast
  have len: "length os = length arr" using os by (simp add: list_all2_lengthD)
  have each: "(\<forall>n. os ! k = Some n \<longrightarrow> builtNode sp n) \<and> accepts sp (extended sp e (os ! k)) (arr ! k) \<and>
      Suc depth + height (arr ! k) \<le> MaxValidationDepth" if "k < length arr" for k
    using list_all2_nthD [OF os that] ih [OF nth_mem [OF that]] by blast
  have built: "builtNode sp x" if "Some x \<in> set os" for x
    using that each len by (metis in_set_conv_nth)
  have up: "\<exists>z. ov = Some z \<and> mergeNode sp x z = z" if "Some x \<in> set os" for x
    using foldl_Merge [OF laws_types [OF sp] built, of os None] that unfolding ov by blast
  have z: "builtNode sp n" if "ov = Some n" for n
    using foldl_Merge [OF laws_types [OF sp] built, of os None] that unfolding ov by blast
  have "accepts sp (extended sp e ov) v \<and> Suc depth + height v \<le> MaxValidationDepth" if v: "v \<in> set arr" for v
  proof -
    obtain k where k: "k < length arr" "arr ! k = v" using v by (auto simp: in_set_conv_nth)
    show ?thesis
    proof (cases "os ! k")
      case None
      then show ?thesis using each [OF k(1)] k(2) accepts_extended [OF sp e z] by (simp add: extended_def [of sp e None])
    next
      case (Some x)
      then obtain z' where "ov = Some z'" "mergeNode sp x z' = z'" using up k(1) len by (metis nth_mem)
      moreover have "builtNode sp x" "accepts sp (mergeNode sp e x) v" using each [OF k(1)] k(2) Some by (simp_all add: extended_def)
      ultimately show ?thesis
        using each [OF k(1)] k(2) e z merge_assoc [OF laws_types [OF sp], of e x z'] accepts_merge [OF sp, of "mergeNode sp e x" z' v]
          merge_canon [OF laws_types [OF sp], of e x]
        by (simp add: extended_def builtNode_def)
    qed
  qed
  then show ?thesis using z by blast
qed

lemma described_extended:
  assumes sp: "schema_laws sp" and m: "builtNode sp m" and "decoded sp v" "describeAt sp False v p dp depth = Inr (ov, chs)"
  shows "(\<forall>n. ov = Some n \<longrightarrow> builtNode sp n) \<and> accepts sp (extended sp m ov) v \<and> depth + height v \<le> MaxValidationDepth"
proof -
  obtain n where n: "ov = Some n" "builtNode sp n" "accepts sp n v" "depth + height v \<le> MaxValidationDepth"
    using describe_result [OF sp assms(3,4)] by blast
  then show ?thesis using accepts_merge_right [OF sp _ _ n(3), of m] m by (simp add: extended_def builtNode_def)
qed

lemma scalar_extended:
  assumes sp: "schema_laws sp" and m: "builtNode sp m" and v: "decoded sp v" "v \<in> {JNumber s, JString s, JBool b}"
    and a: "admitScalar sp m v p dp lvl = Inr (ov, chs)"
  shows "(\<forall>n. ov = Some n \<longrightarrow> builtNode sp n) \<and> n_Scalar (extended sp m ov) \<noteq> None \<and>
    holdsScalar sp (scalarTypes (extended sp m ov)) v"
proof (cases ov)
  case None
  then show ?thesis using a by (auto simp: admitScalar_def extended_def split: option.splits if_splits)
next
  case (Some n)
  then have n: "n = NewLeafNode sp (inferDataType sp v)"
    using a by (auto simp: admitScalar_def split: option.splits if_splits)
  note leaf = builtNode_leaf [OF laws_types [OF sp] infer_holds(1) [OF sp v], folded n]
  have c: "canon sp m" "canon sp n" using m leaf(1) by (simp_all add: builtNode_def)
  have "scalarTypes (mergeNode sp m n) = sp_Types sp (set (scalarTypes m) \<union> {inferDataType sp v})"
    using leaf(2) by (simp add: scalarTypes_merge [OF laws_types [OF sp] c] types_absorb_right [OF laws_types [OF sp]])
  moreover have "n_Scalar (mergeNode sp m n) \<noteq> None" using leaf(2) by (simp add: merge_Scalar [OF laws_types [OF sp] c])
  ultimately show ?thesis using Some leaf(1) infer_holds(2) [OF sp v] by (simp add: extended_def)
qed

text \<open>The fields of an object, each judged against the child it names or described afresh.\<close>

lemma field_extended:
  assumes sp: "schema_laws sp" and m: "builtNode sp m" and v: "decoded sp v"
    and r: "fieldResult sp m depth name v ov"
    and ih: "\<And>c p dp r chs. builtNode sp c \<Longrightarrow> node sp False c v p dp (Suc depth) ChangeLevelType = Inr (r, chs) \<Longrightarrow>
      (\<forall>n. r = Some n \<longrightarrow> builtNode sp n) \<and> accepts sp (extended sp c r) v \<and> Suc depth + height v \<le> MaxValidationDepth"
  shows "(\<forall>n. ov = Some n \<longrightarrow> IsSegmentName name \<and> builtNode sp n) \<and> Suc depth + height v \<le> MaxValidationDepth \<and>
    (\<exists>c. optJoin (mergeNode sp) (fmlookup (childrenOf m) name) ov = Some c \<and> accepts sp c v)"
proof (cases "fmlookup (childrenOf m) name")
  case None
  then show ?thesis using r describe_result [OF sp v] by (fastforce simp: fieldResult_def)
next
  case (Some c)
  then obtain p' dp' chs' where n: "node sp False c v p' dp' (Suc depth) ChangeLevelType = Inr (ov, chs')"
    using r by (auto simp: fieldResult_def)
  have "IsSegmentName name" using m Some wellNamed_name unfolding builtNode_def by blast
  then show ?thesis using ih [OF builtNode_childOf [OF m Some] n] Some by (cases ov) (auto simp: extended_def)
qed

lemma object_extended:
  assumes sp: "schema_laws sp" and m: "builtNode sp m" "n_Object m \<noteq> None" and d: "decoded sp (JObject flds)"
    and ob: "object sp False m flds p dp depth None = Inr (ov, chs)" and depth: "depth < MaxValidationDepth"
    and ih: "\<And>name v c p dp r chs. (name, v) \<in> set flds \<Longrightarrow> builtNode sp c \<Longrightarrow>
      node sp False c v p dp (Suc depth) ChangeLevelType = Inr (r, chs) \<Longrightarrow>
      (\<forall>n. r = Some n \<longrightarrow> builtNode sp n) \<and> accepts sp (extended sp c r) v \<and> Suc depth + height v \<le> MaxValidationDepth"
  shows "(\<forall>n. ov = Some n \<longrightarrow> builtNode sp n) \<and> accepts sp (extended sp m ov) (JObject flds) \<and>
    depth + height (JObject flds) \<le> MaxValidationDepth"
proof -
  have dist: "distinct (map fst flds)" using d by simp
  have res: "overlayOK ov" "\<And>name. name \<notin> fst ` set flds \<Longrightarrow> ovLookup ov name = None"
    "\<And>name v. (name, v) \<in> set flds \<Longrightarrow> fieldResult sp m depth name v (ovLookup ov name)"
    using object_result [OF ob dist] by (auto simp: overlayOK_def ovLookup_def)
  have fld: "(\<forall>n. ovLookup ov name = Some n \<longrightarrow> IsSegmentName name \<and> builtNode sp n) \<and> Suc depth + height v \<le> MaxValidationDepth \<and>
      (\<exists>c. optJoin (mergeNode sp) (fmlookup (childrenOf m) name) (ovLookup ov name) = Some c \<and> accepts sp c v)"
    if f: "(name, v) \<in> set flds" for name v
  proof -
    have "decoded sp v" using d f by auto
    from field_extended [OF sp m(1) this res(3) [OF f] ih [OF f]] show ?thesis .
  qed
  have all: "IsSegmentName name \<and> builtNode sp c" if "ovLookup ov name = Some c" for name c
    using fld res(2) [of name] that by (cases "name \<in> fst ` set flds") force+
  have built: "builtNode sp n" if "ov = Some n" for n
    using overlay_node(1) [OF res(1) all refl] that by simp
  note ext = extended_object [OF laws_types [OF sp] m res(1) built]
  have "accepts sp (extended sp m ov) (JObject flds)" using ext fld by (auto; blast)
  then show ?thesis using built fld depth unfolding height_object_le by blast
qed

lemma array_extended:
  assumes sp: "schema_laws sp" and m: "builtNode sp m" "n_Array m \<noteq> None" and d: "decoded sp (JArray arr)"
    and ar: "array sp False m arr p dp depth = Inr (ov, chs)" and depth: "depth < MaxValidationDepth"
    and ih: "\<And>v e p dp r chs. v \<in> set arr \<Longrightarrow> builtNode sp e \<Longrightarrow>
      node sp False e v p dp (Suc depth) ChangeLevelArrayElements = Inr (r, chs) \<Longrightarrow>
      (\<forall>n. r = Some n \<longrightarrow> builtNode sp n) \<and> accepts sp (extended sp e r) v \<and> Suc depth + height v \<le> MaxValidationDepth"
  shows "(\<forall>n. ov = Some n \<longrightarrow> builtNode sp n) \<and> accepts sp (extended sp m ov) (JArray arr) \<and>
    depth + height (JArray arr) \<le> MaxValidationDepth"
proof (cases "elementOf m")
  case el: None
  have dec: "\<And>v. v \<in> set arr \<Longrightarrow> decoded sp v" using d by simp
  obtain z where z: "ov = Some (NewArrayNode (Some z))" "builtNode sp z"
    "\<forall>v \<in> set arr. accepts sp z v \<and> Suc depth + height v \<le> MaxValidationDepth"
    using learned_element [OF sp _ el ar] describe_result [OF sp dec] by blast
  have "accepts sp (NewArrayNode (Some z)) (JArray arr)" using z(3) by (simp add: NewArrayNode_def elementOf_def)
  then have "accepts sp (extended sp m ov) (JArray arr)"
    using z(1,2) m(1) builtNode_array [OF z(2)] accepts_merge_right [OF sp]
    by (simp only: extended_def builtNode_def option.case)
  then show ?thesis using z builtNode_array depth unfolding height_array_le by blast
next
  case el: (Some e)
  obtain r chs' where it: "items sp False e arr 0 (p @ ''[]'') dp depth None = Inr (r, chs')"
    and ov: "ov = (case r of None \<Rightarrow> None | Some z \<Rightarrow> Some (NewArrayNode (Some z)))"
    using ar el by (auto simp: array.simps Let_def split: sum.splits prod.splits option.splits)
  note e = builtNode_elementOf [OF m(1) el]
  note each = items_extended [OF sp e ih [OF _ e] it]
  have "elementOf (extended sp m ov) = Some (extended sp e r)"
    using el each ov m(1)
    by (cases r) (auto simp: extended_def builtNode_def merge_element [OF laws_types [OF sp]] NewArrayNode_def elementOf_def [of "Node _ _ _ _"])
  then show ?thesis using each ov builtNode_array depth unfolding height_array_le by (auto split: option.splits)
qed

lemma leaf_extended:
  assumes sp: "schema_laws sp" and m: "builtNode sp m" and v: "decoded sp v" "v \<in> {JNumber s, JString s, JBool b}"
    and n: "node sp False m v p dp depth lvl = Inr (ov, chs)"
  shows "(\<forall>n. ov = Some n \<longrightarrow> builtNode sp n) \<and> accepts sp (extended sp m ov) v \<and> depth + height v \<le> MaxValidationDepth"
proof -
  have "admitScalar sp m v p dp lvl = Inr (ov, chs)" "depth < MaxValidationDepth"
    using v(2) n by (auto simp: node.simps admitLeaf_def split: if_splits)
  then show ?thesis using scalar_extended [OF sp m v] v(2) by auto
qed

lemma node_result:
  assumes sp: "schema_laws sp"
  shows "builtNode sp m \<Longrightarrow> decoded sp v \<Longrightarrow> node sp False m v p dp depth lvl = Inr (ov, chs) \<Longrightarrow>
    (\<forall>n. ov = Some n \<longrightarrow> builtNode sp n) \<and> accepts sp (extended sp m ov) v \<and> depth + height v \<le> MaxValidationDepth"
proof (induction v arbitrary: m p dp depth lvl ov chs)
  case (JObject flds)
  note ih = JObject.IH
  have depth: "depth < MaxValidationDepth" using JObject.prems(3) by (auto simp: node.simps split: if_splits)
  consider chs' where "describeAt sp False (JObject flds) p dp depth = Inr (ov, chs')"
    | "n_Object m \<noteq> None" "object sp False m flds p dp depth None = Inr (ov, chs)"
    using JObject.prems(3) by (auto simp: node.simps record_changes_Inr split: if_splits)
  then show ?case
  proof cases
    case 1
    then show ?thesis by (rule described_extended [OF sp JObject.prems(1,2)])
  next
    case 2
    then show ?thesis using JObject.prems(2) by (intro object_extended [OF sp JObject.prems(1) _ JObject.prems(2) _ depth] ih) auto
  qed
next
  case (JArray arr)
  note ih = JArray.IH
  have depth: "depth < MaxValidationDepth" using JArray.prems(3) by (auto simp: node.simps split: if_splits)
  consider chs' where "describeAt sp False (JArray arr) p dp depth = Inr (ov, chs')"
    | "n_Array m \<noteq> None" "array sp False m arr p dp depth = Inr (ov, chs)"
    using JArray.prems(3) by (auto simp: node.simps record_changes_Inr split: if_splits)
  then show ?case
  proof cases
    case 1
    then show ?thesis by (rule described_extended [OF sp JArray.prems(1,2)])
  next
    case 2
    then show ?thesis using JArray.prems(2) by (intro array_extended [OF sp JArray.prems(1) _ JArray.prems(2) _ depth] ih) auto
  qed
next
  case JNull
  then show ?case
    using builtNode_marker merge_Nullable [OF laws_types [OF sp], of m "Node None None None True"]
    by (auto simp: node.simps admitLeaf_def admitNull_def marker_node extended_def builtNode_def split: if_splits)
qed ((rule leaf_extended [OF sp]; force) | (auto simp: node.simps admitLeaf_def split: if_splits))+

text \<open>An extension keeps the model built, accepts the document it was made for and every document accepted before.\<close>

lemma Extend_result:
  assumes "schema_laws sp" "builtNode sp m" "decoded sp v" "Extend sp m v level = Inr m'"
  shows "\<exists>ov. m' = extended sp m ov \<and> (\<forall>n. ov = Some n \<longrightarrow> builtNode sp n) \<and> accepts sp m' v \<and> height v \<le> MaxValidationDepth"
proof -
  have merged: "(case Merge sp (Some m) ov of None \<Rightarrow> m | Some x \<Rightarrow> x) = extended sp m ov" for ov
    by (cases ov) (simp_all add: Merge_optJoin extended_def)
  obtain ov chs where a: "Admit sp m v = Inr (ov, chs)" and m': "m' = extended sp m (if chs = [] then None else ov)"
  proof (cases "Admit sp m v")
    case (Inr r)
    then show ?thesis
      using assms(4) that [of "fst r" "snd r"]
      by (cases r) (auto simp: Extend_def merged extended_def [of sp m None] split: if_splits option.splits)
  qed (use assms(4) in \<open>simp add: Extend_def\<close>)
  note r = node_result [OF assms(1-3) a [unfolded Admit_def]]
  show ?thesis
  proof (cases "chs = []")
    case True
    then show ?thesis using node_unchanged [of sp False m v "[]" "[]" 0 ChangeLevelType ov] a m'
      by (intro exI [of _ None]) (auto simp: Admit_def extended_def)
  next
    case False
    then show ?thesis using r m' by (intro exI [of _ ov]) simp
  qed
qed

text \<open>Every change costs a level.\<close>

lemma changes_cost:
  "node sp cont m v p dp depth lvl = Inr (ov, chs) \<Longrightarrow> lvl \<noteq> ChangeLevelNone \<Longrightarrow> \<forall>c \<in> set chs. ch_Required c \<noteq> ChangeLevelNone"
  "object sp cont m flds p dp depth ov0 = Inr (ov, chs) \<Longrightarrow> \<forall>c \<in> set chs. ch_Required c \<noteq> ChangeLevelNone"
  "items sp cont e vs i p dp depth ov0 = Inr (ov, chs) \<Longrightarrow> \<forall>c \<in> set chs. ch_Required c \<noteq> ChangeLevelNone"
  "learn sp cont vs i p dp depth ov0 = Inr (ov, chs) \<Longrightarrow> \<forall>c \<in> set chs. ch_Required c \<noteq> ChangeLevelNone"
  "array sp cont m vs p dp depth = Inr (ov, chs) \<Longrightarrow> \<forall>c \<in> set chs. ch_Required c \<noteq> ChangeLevelNone"
  "describeAt sp cont v p dp depth = Inr (ov, chs) \<Longrightarrow> \<forall>c \<in> set chs. ch_Required c \<noteq> ChangeLevelNone"
proof (induction sp cont m v p dp depth lvl and sp cont m flds p dp depth ov0 and sp cont e vs i p dp depth ov0 and
    sp cont vs i p dp depth ov0 and sp cont m vs p dp depth and sp cont v p dp depth arbitrary: ov chs and ov chs and ov chs and ov chs and ov chs and ov chs
    rule: node_object_items_learn_array_describeAt.induct)
  case (1 sp cont m v p dp depth lvl)
  then show ?case
    by (cases v) (auto simp: node.simps record_changes_Inr admitLeaf_def admitNull_def admitScalar_def newKindChange_def
        split: if_splits option.splits)
next
  case (3 sp cont m name v flds p dp depth ov0)
  then show ?case
    by (fastforce simp: record_changes_Inr Let_def newFieldChange_def split: option.splits sum.splits prod.splits if_splits)
next
  case (5 sp cont e v vs i p dp depth ov0)
  then show ?case by (fastforce simp: record_changes_Inr split: sum.splits prod.splits)
next
  case (7 sp cont v vs i p dp depth ov0)
  then show ?case by (fastforce simp: record_changes_Inr split: sum.splits prod.splits)
next
  case (8 sp cont m arr p dp depth)
  then show ?case
    by (fastforce simp: array.simps record_changes_Inr Let_def newElementChange_def split: option.splits sum.splits prod.splits if_splits)
next
  case (9 sp cont v p dp depth)
  then show ?case
    by (cases v) (fastforce simp: describeAt.simps admitLeaf_def admitNull_def admitScalar_def newKindChange_def
        split: if_splits sum.splits prod.splits option.splits)+
qed simp_all

end
