(* ===== verification/SchemaDelta.thy ===== *)
theory SchemaDelta
  imports SchemaExtend
begin

text \<open>
  Schema deltas (\<^verbatim>\<open>ops.go\<close>, \<^verbatim>\<open>diff.go\<close>, \<^verbatim>\<open>apply.go\<close>). \<open>Diff\<close> writes the additive operations that turn one
  model into another, \<open>Apply\<close> replays them on a model. The code mutates the node a path resolves to in
  place; \<open>updateAt\<close> rebuilds the path above it. Applying an operation is merging a tree that holds the
  operation's payload at its path (\<open>applyOp_merge\<close>), so deltas commute, replay idempotently and never take
  anything away.
\<close>

datatype DeltaError =
    NotAdditive string
  | EncodeFailed string
  | DecodeFailed
  | PathFailed string
  | WrongTarget string
  | MissingName
  | NotOneBranch
  | UnknownOpKind

type_synonym ops = "DeltaError + SchemaOp list"

definition NewAddProperty :: "string \<Rightarrow> string \<Rightarrow> bytes \<Rightarrow> SchemaOp" where
  "NewAddProperty parentPath name subtree =
     \<lparr>op_Kind = KindAddProperty, op_Path = parentPath, op_Name = name, op_Payload = PNode subtree\<rparr>"

definition NewAddKindBranch :: "string \<Rightarrow> bytes \<Rightarrow> SchemaOp" where
  "NewAddKindBranch targetPath branch =
     \<lparr>op_Kind = KindAddKindBranch, op_Path = targetPath, op_Name = [], op_Payload = PNode branch\<rparr>"

definition encodeTypeNames :: "SchemaSpi \<Rightarrow> DataType list \<Rightarrow> DeltaError + Payload" where
  "encodeTypeNames sp types =
     (let names = map (sp_TypeName sp) types in
      if types = [] \<or> ''UNKNOWN'' \<in> set names then Inl (EncodeFailed [])
      else Inr (PNames (sort (remdups names))))"

definition NewBroadenType :: "SchemaSpi \<Rightarrow> string \<Rightarrow> DataType list \<Rightarrow> DeltaError + SchemaOp" where
  "NewBroadenType sp targetPath added =
     (case encodeTypeNames sp added of
        Inl err \<Rightarrow> Inl err
      | Inr p \<Rightarrow> Inr \<lparr>op_Kind = KindBroadenType, op_Path = targetPath, op_Name = [], op_Payload = p\<rparr>)"

definition NewAddArrayItemType :: "SchemaSpi \<Rightarrow> string \<Rightarrow> DataType list \<Rightarrow> DeltaError + SchemaOp" where
  "NewAddArrayItemType sp arrayPath added =
     (case encodeTypeNames sp added of
        Inl err \<Rightarrow> Inl err
      | Inr p \<Rightarrow> Inr \<lparr>op_Kind = KindAddArrayItemType, op_Path = arrayPath, op_Name = [], op_Payload = p\<rparr>)"

definition DecodeTypeNames :: "SchemaSpi \<Rightarrow> Payload \<Rightarrow> DeltaError + DataType list" where
  "DecodeTypeNames sp p =
     (case p of
        PNode _ \<Rightarrow> Inl DecodeFailed
      | PNames names \<Rightarrow>
          if names = [] then Inl DecodeFailed
          else (case those (map (sp_ParseDataType sp) names) of None \<Rightarrow> Inl DecodeFailed | Some dts \<Rightarrow> Inr dts))"

definition decodeNode :: "SchemaSpi \<Rightarrow> Payload \<Rightarrow> DeltaError + ModelNode" where
  "decodeNode sp p =
     (case p of
        PNode b \<Rightarrow> (case sp_Unmarshal sp b of None \<Rightarrow> Inl DecodeFailed | Some n \<Rightarrow> Inr n)
      | PNames _ \<Rightarrow> Inl DecodeFailed)"

subsection \<open>Diff\<close>

definition typeDifference :: "DataType list \<Rightarrow> DataType list \<Rightarrow> DataType list" where
  "typeDifference b a = filter (\<lambda>dt. dt \<notin> set a) b"

definition isScalarOnly :: "ModelNode \<Rightarrow> bool" where
  "isScalarOnly n \<longleftrightarrow> n_Object n = None \<and> n_Array n = None"

definition joinSchemaPath :: "string \<Rightarrow> string \<Rightarrow> string" where
  "joinSchemaPath parent child = (if parent = [] then child else parent @ ''/'' @ child)"

definition appendOps :: "ops \<Rightarrow> ops \<Rightarrow> ops" where
  "appendOps a b = (case a of Inl err \<Rightarrow> Inl err | Inr xs \<Rightarrow> (case b of Inl err \<Rightarrow> Inl err | Inr ys \<Rightarrow> Inr (xs @ ys)))"

definition oneOp :: "DeltaError + SchemaOp \<Rightarrow> ops" where
  "oneOp r = (case r of Inl err \<Rightarrow> Inl err | Inr op \<Rightarrow> Inr [op])"

definition isolateBranch :: "SchemaSpi \<Rightarrow> ModelNode \<Rightarrow> NodeKind \<Rightarrow> ModelNode" where
  "isolateBranch sp n k =
     (let out = DeclareKind k emptyNode in
      case k of
        KindLeaf \<Rightarrow> AddScalarTypes sp (scalarTypes n) out
      | KindObject \<Rightarrow> SetChildren (childrenOf n) out
      | KindArray \<Rightarrow> (case elementOf n of None \<Rightarrow> out | Some e \<Rightarrow> SetElement e out))"

definition emitAddKindBranch :: "SchemaSpi \<Rightarrow> string \<Rightarrow> NodeKind \<Rightarrow> ModelNode \<Rightarrow> ops" where
  "emitAddKindBranch sp path k newN =
     (case sp_Marshal sp (isolateBranch sp newN k) of
        None \<Rightarrow> Inl (EncodeFailed path)
      | Some raw \<Rightarrow> Inr [NewAddKindBranch path raw])"

definition diffNullable :: "SchemaSpi \<Rightarrow> string \<Rightarrow> ModelNode \<Rightarrow> ModelNode \<Rightarrow> ops" where
  "diffNullable sp path oldN newN =
     (if n_Nullable newN \<and> \<not> n_Nullable oldN then oneOp (NewBroadenType sp path [Null]) else Inr [])"

definition diffScalar :: "SchemaSpi \<Rightarrow> string \<Rightarrow> ModelNode \<Rightarrow> ModelNode \<Rightarrow> ops" where
  "diffScalar sp path oldN newN =
     (case n_Scalar newN of
        None \<Rightarrow> Inr []
      | Some ns \<Rightarrow>
          (let added = (case n_Scalar oldN of
                          Some os \<Rightarrow> typeDifference ns os
                        | None \<Rightarrow> if Kinds oldN = [] then ns else [])
           in if added = [] then Inr [] else oneOp (NewBroadenType sp path added)))"

definition diffLeafBranch :: "SchemaSpi \<Rightarrow> string \<Rightarrow> ModelNode \<Rightarrow> ModelNode \<Rightarrow> ops" where
  "diffLeafBranch sp path oldN newN =
     (if n_Scalar newN \<noteq> None \<and> n_Scalar oldN = None \<and> Kinds oldN \<noteq> []
      then emitAddKindBranch sp path KindLeaf newN else Inr [])"

function (sequential)
  diffNode :: "SchemaSpi \<Rightarrow> string \<Rightarrow> ModelNode \<Rightarrow> ModelNode \<Rightarrow> ops" and
  diffObject :: "SchemaSpi \<Rightarrow> string \<Rightarrow> ModelNode \<Rightarrow> ModelNode \<Rightarrow> string list \<Rightarrow> ops" and
  diffArray :: "SchemaSpi \<Rightarrow> string \<Rightarrow> ModelNode \<Rightarrow> ModelNode \<Rightarrow> ops"
where
  "diffNode sp path oldN newN =
     (if list_ex (\<lambda>k. k \<notin> set (Kinds newN)) (Kinds oldN) then Inl (NotAdditive path)
      else if n_Nullable oldN \<and> \<not> n_Nullable newN \<and> n_Scalar newN = None then Inl (NotAdditive path)
      else appendOps (diffNullable sp path oldN newN)
          (appendOps (diffScalar sp path oldN newN)
          (appendOps
             (if n_Object newN = None then Inr []
              else if n_Object oldN = None then emitAddKindBranch sp path KindObject newN
              else diffObject sp path oldN newN (sp_Range sp (fmdom (childrenOf newN))))
          (appendOps
             (if n_Array newN = None then Inr []
              else if n_Array oldN = None then emitAddKindBranch sp path KindArray newN
              else diffArray sp path oldN newN)
             (diffLeafBranch sp path oldN newN)))))"
| "diffObject sp path oldN newN [] =
     (if list_ex (\<lambda>name. fmlookup (childrenOf newN) name = None) (sp_Range sp (fmdom (childrenOf oldN)))
      then Inl (NotAdditive path) else Inr [])"
| "diffObject sp path oldN newN (name # names) =
     (case fmlookup (childrenOf newN) name of
        None \<Rightarrow> diffObject sp path oldN newN names
      | Some newChild \<Rightarrow>
          appendOps
            (case fmlookup (childrenOf oldN) name of
               None \<Rightarrow>
                 (case sp_Marshal sp newChild of
                    None \<Rightarrow> Inl (EncodeFailed (joinSchemaPath path name))
                  | Some raw \<Rightarrow> Inr [NewAddProperty path name raw])
             | Some oldChild \<Rightarrow> diffNode sp (joinSchemaPath path name) oldChild newChild)
            (diffObject sp path oldN newN names))"
| "diffArray sp path oldN newN =
     (case elementOf newN of
        None \<Rightarrow> if elementOf oldN = None then Inr [] else Inl (NotAdditive path)
      | Some newElem \<Rightarrow>
          (case elementOf oldN of
             None \<Rightarrow>
               if n_Object newElem \<noteq> None \<or> n_Array newElem \<noteq> None then emitAddKindBranch sp path KindArray newN
               else oneOp (NewAddArrayItemType sp path (DeclaredTypes newElem))
           | Some oldElem \<Rightarrow>
               if isScalarOnly oldElem \<and> isScalarOnly newElem
               then (let added = typeDifference (DeclaredTypes newElem) (DeclaredTypes oldElem)
                     in if added = [] then Inr [] else oneOp (NewAddArrayItemType sp path added))
               else diffNode sp (joinSchemaPath path ''[]'') oldElem newElem))"
  by pat_completeness auto
termination
  by (relation "measures [
        \<lambda>x. case x of Inl (_, _, _, n) \<Rightarrow> size n | Inr (Inl (_, _, _, n, _)) \<Rightarrow> size n | Inr (Inr (_, _, _, n)) \<Rightarrow> size n,
        \<lambda>x. case x of Inl (sp, _, _, n) \<Rightarrow> Suc (length (sp_Range sp (fmdom (childrenOf n))))
                     | Inr (Inl (_, _, _, _, names)) \<Rightarrow> length names | Inr (Inr _) \<Rightarrow> 0]")
     (auto simp: childrenOf_def elementOf_Some size_element intro: size_child split: option.splits)

definition MarshalDelta :: "SchemaSpi \<Rightarrow> SchemaOp list \<Rightarrow> DeltaError + bytes" where
  "MarshalDelta sp xs =
     (if xs = [] then Inr [] else case sp_MarshalOps sp xs of None \<Rightarrow> Inl (EncodeFailed []) | Some b \<Rightarrow> Inr b)"

definition UnmarshalDelta :: "SchemaSpi \<Rightarrow> bytes \<Rightarrow> DeltaError + SchemaOp list" where
  "UnmarshalDelta sp delta =
     (if delta = [] then Inr [] else case sp_UnmarshalOps sp delta of None \<Rightarrow> Inl DecodeFailed | Some xs \<Rightarrow> Inr xs)"

definition Diff :: "SchemaSpi \<Rightarrow> ModelNode \<Rightarrow> ModelNode \<Rightarrow> DeltaError + bytes" where
  "Diff sp oldN newN = (case diffNode sp [] oldN newN of Inl err \<Rightarrow> Inl err | Inr xs \<Rightarrow> MarshalDelta sp xs)"

subsection \<open>Apply\<close>

fun updateAt :: "string list \<Rightarrow> (ModelNode \<Rightarrow> DeltaError + ModelNode) \<Rightarrow> ModelNode \<Rightarrow> DeltaError + ModelNode" where
  "updateAt [] f cur = f cur"
| "updateAt (part # parts) f cur =
     (if part = [] then Inl (PathFailed part)
      else if part = ''[]''
      then (case elementOf cur of
              None \<Rightarrow> Inl (PathFailed part)
            | Some elem \<Rightarrow> (case updateAt parts f elem of Inl err \<Rightarrow> Inl err | Inr elem' \<Rightarrow> Inr (SetElement elem' cur)))
      else (case fmlookup (childrenOf cur) part of
              None \<Rightarrow> Inl (PathFailed part)
            | Some c \<Rightarrow> (case updateAt parts f c of Inl err \<Rightarrow> Inl err | Inr c' \<Rightarrow> Inr (SetChild part c' cur))))"

definition pathParts :: "string \<Rightarrow> string list" where
  "pathParts path = (if path = [] then [] else splitSlash path)"

definition addProperty :: "SchemaSpi \<Rightarrow> SchemaOp \<Rightarrow> ModelNode \<Rightarrow> DeltaError + ModelNode" where
  "addProperty sp op parent =
     (if n_Object parent = None then Inl (WrongTarget (op_Path op))
      else if op_Name op = [] then Inl MissingName
      else case decodeNode sp (op_Payload op) of
             Inl err \<Rightarrow> Inl err
           | Inr incoming \<Rightarrow>
               Inr (case fmlookup (childrenOf parent) (op_Name op) of
                      None \<Rightarrow> SetChild (op_Name op) incoming parent
                    | Some existing \<Rightarrow> SetChild (op_Name op) (mergeNode sp existing incoming) parent))"

definition broadenType :: "SchemaSpi \<Rightarrow> SchemaOp \<Rightarrow> ModelNode \<Rightarrow> DeltaError + ModelNode" where
  "broadenType sp op target =
     (case DecodeTypeNames sp (op_Payload op) of
        Inl err \<Rightarrow> Inl err
      | Inr types \<Rightarrow> Inr (AddScalarTypes sp types target))"

definition addArrayItemType :: "SchemaSpi \<Rightarrow> SchemaOp \<Rightarrow> ModelNode \<Rightarrow> DeltaError + ModelNode" where
  "addArrayItemType sp op target =
     (if n_Array target = None then Inl (WrongTarget (op_Path op))
      else case DecodeTypeNames sp (op_Payload op) of
             Inl err \<Rightarrow> Inl err
           | Inr types \<Rightarrow>
               (case elementOf target of
                  None \<Rightarrow>
                    (case types of
                       [] \<Rightarrow> Inl (WrongTarget (op_Path op))
                     | t # ts \<Rightarrow> Inr (SetElement (AddScalarTypes sp ts (NewLeafNode sp t)) target))
                | Some elem \<Rightarrow> Inr (SetElement (AddScalarTypes sp types elem) target)))"

definition addKindBranch :: "SchemaSpi \<Rightarrow> SchemaOp \<Rightarrow> ModelNode \<Rightarrow> DeltaError + ModelNode" where
  "addKindBranch sp op target =
     (case decodeNode sp (op_Payload op) of
        Inl err \<Rightarrow> Inl err
      | Inr incoming \<Rightarrow>
          (case Kinds incoming of
             [k] \<Rightarrow>
               (let t = DeclareKind k target in
                Inr (case k of
                       KindLeaf \<Rightarrow> AddScalarTypes sp (scalarTypes incoming) t
                     | KindObject \<Rightarrow>
                         SetChildren
                           (fmmap_keys (\<lambda>name child. case fmlookup (childrenOf t) name of
                                          None \<Rightarrow> child | Some existing \<Rightarrow> mergeNode sp existing child)
                              (childrenOf incoming)) t
                     | KindArray \<Rightarrow>
                         (case elementOf incoming of
                            None \<Rightarrow> t
                          | Some e \<Rightarrow>
                              SetElement (case elementOf t of None \<Rightarrow> e | Some existing \<Rightarrow> mergeNode sp existing e) t)))
           | _ \<Rightarrow> Inl NotOneBranch))"

definition applyOp :: "SchemaSpi \<Rightarrow> SchemaOp \<Rightarrow> ModelNode \<Rightarrow> DeltaError + ModelNode" where
  "applyOp sp op root =
     (let at = updateAt (pathParts (op_Path op)) in
      case op_Kind op of
        KindAddProperty \<Rightarrow> at (addProperty sp op) root
      | KindBroadenType \<Rightarrow> at (broadenType sp op) root
      | KindAddArrayItemType \<Rightarrow> at (addArrayItemType sp op) root
      | KindAddKindBranch \<Rightarrow> at (addKindBranch sp op) root
      | KindUnknown _ \<Rightarrow> Inl UnknownOpKind)"

fun applyOps :: "SchemaSpi \<Rightarrow> SchemaOp list \<Rightarrow> ModelNode \<Rightarrow> DeltaError + ModelNode" where
  "applyOps sp [] root = Inr root"
| "applyOps sp (op # rest) root = (case applyOp sp op root of Inl err \<Rightarrow> Inl err | Inr r \<Rightarrow> applyOps sp rest r)"

definition cloneNode :: "SchemaSpi \<Rightarrow> ModelNode \<Rightarrow> DeltaError + ModelNode" where
  "cloneNode sp n =
     (case sp_Marshal sp n of
        None \<Rightarrow> Inl (EncodeFailed [])
      | Some raw \<Rightarrow> (case sp_Unmarshal sp raw of None \<Rightarrow> Inl DecodeFailed | Some out \<Rightarrow> Inr out))"

definition Apply :: "SchemaSpi \<Rightarrow> ModelNode \<Rightarrow> bytes \<Rightarrow> DeltaError + ModelNode" where
  "Apply sp base delta =
     (case cloneNode sp base of
        Inl err \<Rightarrow> Inl err
      | Inr root \<Rightarrow> (case UnmarshalDelta sp delta of Inl err \<Rightarrow> Inl err | Inr xs \<Rightarrow> applyOps sp xs root))"

subsection \<open>Operations as trees\<close>

fun getAt :: "string list \<Rightarrow> ModelNode \<Rightarrow> ModelNode option" where
  "getAt [] n = Some n"
| "getAt (part # parts) n =
     (if part = [] then None
      else if part = ''[]'' then (case elementOf n of None \<Rightarrow> None | Some e \<Rightarrow> getAt parts e)
      else (case fmlookup (childrenOf n) part of None \<Rightarrow> None | Some c \<Rightarrow> getAt parts c))"

definition objectNode :: "(string, ModelNode) fmap \<Rightarrow> ModelNode" where
  "objectNode cs = Node None (Some cs) None False"

fun treeAt :: "string list \<Rightarrow> ModelNode \<Rightarrow> ModelNode" where
  "treeAt [] t = t"
| "treeAt (part # parts) t =
     (if part = ''[]'' then NewArrayNode (Some (treeAt parts t)) else objectNode (fmupd part (treeAt parts t) fmempty))"

text \<open>The tree an operation merges at its target.\<close>

definition opLeaf :: "SchemaSpi \<Rightarrow> SchemaOp \<Rightarrow> ModelNode" where
  "opLeaf sp op =
     (case op_Kind op of
        KindAddProperty \<Rightarrow>
          (case decodeNode sp (op_Payload op) of Inl _ \<Rightarrow> emptyNode | Inr n \<Rightarrow> objectNode (fmupd (op_Name op) n fmempty))
      | KindBroadenType \<Rightarrow>
          (case DecodeTypeNames sp (op_Payload op) of Inl _ \<Rightarrow> emptyNode | Inr ts \<Rightarrow> AddScalarTypes sp ts emptyNode)
      | KindAddArrayItemType \<Rightarrow>
          (case DecodeTypeNames sp (op_Payload op) of
             Inl _ \<Rightarrow> emptyNode | Inr ts \<Rightarrow> NewArrayNode (Some (AddScalarTypes sp ts emptyNode)))
      | KindAddKindBranch \<Rightarrow>
          (case decodeNode sp (op_Payload op) of
             Inl _ \<Rightarrow> emptyNode
           | Inr n \<Rightarrow> (case Kinds n of [k] \<Rightarrow> isolateBranch sp n k | _ \<Rightarrow> emptyNode))
      | KindUnknown _ \<Rightarrow> emptyNode)"

definition opTarget :: "SchemaSpi \<Rightarrow> SchemaOp \<Rightarrow> ModelNode \<Rightarrow> DeltaError + ModelNode" where
  "opTarget sp op =
     (case op_Kind op of
        KindAddProperty \<Rightarrow> addProperty sp op
      | KindBroadenType \<Rightarrow> broadenType sp op
      | KindAddArrayItemType \<Rightarrow> addArrayItemType sp op
      | KindAddKindBranch \<Rightarrow> addKindBranch sp op
      | KindUnknown _ \<Rightarrow> (\<lambda>_. Inl UnknownOpKind))"

subsection \<open>Merging single branches\<close>

lemma canon_simps [simp]:
  "canon sp emptyNode" "canon sp (objectNode cs) \<longleftrightarrow> (\<forall>c \<in> fmran' cs. canon sp c)"
  "canon sp (NewArrayNode (Some t)) \<longleftrightarrow> canon sp t" "canon sp (NewArrayNode None)"
  by (auto simp: emptyNode_def objectNode_def NewArrayNode_def)

lemma fmran_single [simp]: "fmran' (fmupd k v fmempty) = {v}"
  by (auto simp: fmlookup_ran'_iff split: if_splits)

lemma scalar_kept:
  assumes "types_laws sp" "canon sp n"
  shows "(if n_Scalar n = None then None else Some (sp_Types sp (set (scalarTypes n)))) = n_Scalar n"
  using canon_types [OF assms(2)] by (cases "n_Scalar n") simp_all

lemma merge_empty:
  assumes "types_laws sp" "canon sp n"
  shows "mergeNode sp n emptyNode = n"
  using scalar_kept [OF assms] canon_marker [OF assms(2)] unfolding mergeNode_eq [OF assms canon_simps(1)]
  by (cases "n_Scalar n"; intro node_eqI) (auto simp: emptyNode_def elementOf_def scalarTypes_def split: option.splits)

lemma merge_object:
  assumes "types_laws sp" "canon sp n" "canon sp (objectNode cs)"
  shows "mergeNode sp n (objectNode cs) =
    Node (n_Scalar n) (Some (fmJoin (mergeNode sp) (childrenOf n) cs)) (n_Array n) (n_Nullable n)"
proof -
  have "optJoin (fmJoin (mergeNode sp)) (n_Object n) (Some cs) = Some (fmJoin (mergeNode sp) (childrenOf n) cs)"
    by (cases "n_Object n") (auto simp: childrenOf_def intro: fmap_eqI)
  then show ?thesis
    using scalar_kept [OF assms(1,2)] canon_marker [OF assms(2)] unfolding mergeNode_eq [OF assms]
    by (cases "n_Scalar n"; intro node_eqI) (auto simp: objectNode_def elementOf_def scalarTypes_def split: option.splits)
qed

lemma merge_array:
  assumes "types_laws sp" "canon sp n" "canon sp t"
  shows "mergeNode sp n (NewArrayNode (Some t)) =
    SetElement (case elementOf n of None \<Rightarrow> t | Some e \<Rightarrow> mergeNode sp e t) n"
  using scalar_kept [OF assms(1,2)] canon_marker [OF assms(2)]
  unfolding mergeNode_eq [OF assms(1,2), of "NewArrayNode (Some t)", unfolded canon_simps, OF assms(3)]
  by (cases "n_Scalar n"; cases "elementOf n"; intro node_eqI)
     (auto simp: NewArrayNode_def SetElement_def elementOf_def [of "Node _ _ _ _"] scalarTypes_def)

lemma canon_AddScalar:
  assumes "types_laws sp" "canon sp n"
  shows "canon sp (AddScalarTypes sp ts n)"
proof (cases "set ts - {Null} = {}")
  case True
  then show ?thesis using assms(2) by (cases n) (auto simp: AddScalarTypes_def SetNullable_def Let_def)
next
  case False
  have "Null \<notin> set (sp_Types sp (set (scalarTypes n) \<union> (set ts - {Null})))"
    using scalarTypes_Null [OF assms(2)] by (intro types_Null [OF assms(1)]) auto
  then show ?thesis
    using False assms(2) by (cases n) (auto simp: AddScalarTypes_def Let_def types_idem [OF assms(1)])
qed

lemma merge_types:
  assumes "types_laws sp" "canon sp n" "ts \<noteq> []"
  shows "mergeNode sp n (AddScalarTypes sp ts emptyNode) = AddScalarTypes sp ts n"
proof -
  note c = canon_AddScalar [OF assms(1) canon_simps(1), of ts]
  show ?thesis
  proof (cases "set ts - {Null} = {}")
    case True
    then have "Null \<in> set ts" using assms(3) by (cases ts) auto
    then show ?thesis
      using True scalar_kept [OF assms(1,2)] canon_marker [OF assms(2)] unfolding mergeNode_eq [OF assms(1,2) c]
      by (cases "n_Scalar n"; intro node_eqI)
         (auto simp: AddScalarTypes_def SetNullable_def emptyNode_def elementOf_def scalarTypes_def split: option.splits)
  next
    case False
    then show ?thesis
      unfolding mergeNode_eq [OF assms(1,2) c]
      by (intro node_eqI) (auto simp: AddScalarTypes_def Let_def emptyNode_def elementOf_def
          scalarTypes_def [of "Node _ _ _ _"] types_absorb_right [OF assms(1)] split: option.splits)
  qed
qed

subsection \<open>An operation merges its tree\<close>

lemma AddScalarTypes_append:
  assumes "types_laws sp"
  shows "AddScalarTypes sp ts (AddScalarTypes sp us n) = AddScalarTypes sp (us @ ts) n"
proof -
  define A B where "A = set us - {Null}" and "B = set ts - {Null}"
  have add: "AddScalarTypes sp us m = (if A \<noteq> {} then Node (Some (sp_Types sp (set (scalarTypes m) \<union> A))) (n_Object m) (n_Array m) False
      else if Null \<in> set us then SetNullable m else m)"
    "AddScalarTypes sp ts m = (if B \<noteq> {} then Node (Some (sp_Types sp (set (scalarTypes m) \<union> B))) (n_Object m) (n_Array m) False
      else if Null \<in> set ts then SetNullable m else m)"
    "AddScalarTypes sp (us @ ts) m = (if A \<union> B \<noteq> {} then Node (Some (sp_Types sp (set (scalarTypes m) \<union> (A \<union> B)))) (n_Object m) (n_Array m) False
      else if Null \<in> set us \<or> Null \<in> set ts then SetNullable m else m)" for m
    by (auto simp: AddScalarTypes_def A_def B_def Let_def Un_Diff)
  have nl: "scalarTypes (SetNullable n) = scalarTypes n" "n_Object (SetNullable n) = n_Object n"
    "n_Array (SetNullable n) = n_Array n" "SetNullable (SetNullable n) = SetNullable n"
    by (auto simp: SetNullable_def scalarTypes_def)
  have "SetNullable (Node (Some us) ob ar nl) = Node (Some us) ob ar nl" for us ob ar nl by (simp add: SetNullable_def)
  then show ?thesis
    by (cases "A = {}"; cases "B = {}")
       (simp_all add: add nl scalarTypes_def [of "Node _ _ _ _"] types_absorb [OF assms] Un_assoc)
qed

lemma Kinds_single:
  "Kinds n = [KindLeaf] \<longleftrightarrow> n_Scalar n \<noteq> None \<and> n_Object n = None \<and> n_Array n = None"
  "Kinds n = [KindObject] \<longleftrightarrow> n_Scalar n = None \<and> n_Object n \<noteq> None \<and> n_Array n = None"
  "Kinds n = [KindArray] \<longleftrightarrow> n_Scalar n = None \<and> n_Object n = None \<and> n_Array n \<noteq> None"
  by (auto simp: Kinds_def)

lemma isolate_leaf: "types_laws sp \<Longrightarrow> canon sp n \<Longrightarrow> isolateBranch sp n KindLeaf = Node (Some (scalarTypes n)) None None False"
  using AddScalarTypes_scalar [of "scalarTypes n" sp "[]" None None]
  by (simp add: isolateBranch_def DeclareKind_leaf_empty scalarTypes_Null types_empty scalarTypes_canon)

lemma isolate_object: "isolateBranch sp n KindObject = objectNode (childrenOf n)"
  by (simp add: isolateBranch_def Let_def DeclareKind_def emptyNode_def SetChildren_def objectNode_def childrenOf_def [of "Node _ _ _ _"])

lemma isolate_array: "isolateBranch sp n KindArray = NewArrayNode (elementOf n)"
  by (cases "elementOf n") (simp_all add: isolateBranch_def Let_def DeclareKind_def emptyNode_def SetElement_def NewArrayNode_def
      elementOf_def [of "Node _ _ _ _"])

lemma canon_isolate:
  assumes "types_laws sp" "canon sp n"
  shows "canon sp (isolateBranch sp n k)"
proof (cases k)
  case KindLeaf
  then show ?thesis using scalarTypes_canon [OF assms] scalarTypes_Null [OF assms(2)] by (simp add: isolate_leaf [OF assms])
next
  case KindObject
  then show ?thesis using canon_childOf [OF assms(2)] by (auto simp: isolate_object fmlookup_ran'_iff)
next
  case KindArray
  then show ?thesis using canon_elementOf [OF assms(2)] by (cases "elementOf n") (auto simp: isolate_array)
qed

lemma merge_leaf:
  assumes "types_laws sp" "canon sp n" "canon sp (Node (Some ts) None None False)"
  shows "mergeNode sp n (Node (Some ts) None None False) = Node (Some (sp_Types sp (set (scalarTypes n) \<union> set ts))) (n_Object n) (n_Array n) False"
  unfolding mergeNode_eq [OF assms] by (intro node_eqI) (auto simp: elementOf_def scalarTypes_def [of "Node _ _ _ _"] split: option.splits)

lemma decodeNode_canon: "codec_laws sp \<Longrightarrow> decodeNode sp p = Inr n \<Longrightarrow> canon sp n"
  by (auto simp: decodeNode_def codec_laws_def split: Payload.splits option.splits)

lemma DecodeTypeNames_nonempty: "DecodeTypeNames sp p = Inr ts \<Longrightarrow> ts \<noteq> []"
  by (cases ts) (auto simp: DecodeTypeNames_def neq_Nil_conv split: Payload.splits if_splits option.splits)

lemma SetChild_join:
  assumes "types_laws sp" "canon sp n" "canon sp c" "n_Object n \<noteq> None"
  shows "mergeNode sp n (objectNode (fmupd name c fmempty)) =
    SetChild name (case fmlookup (childrenOf n) name of None \<Rightarrow> c | Some d \<Rightarrow> mergeNode sp d c) n"
proof -
  have "fmJoin (mergeNode sp) (childrenOf n) (fmupd name c fmempty) =
      fmupd name (case fmlookup (childrenOf n) name of None \<Rightarrow> c | Some d \<Rightarrow> mergeNode sp d c) (childrenOf n)"
    by (rule fmap_eqI) (simp split: option.split)
  then show ?thesis using merge_object [OF assms(1,2), of "fmupd name c fmempty"] assms(3) by (simp add: SetChild_def)
qed

lemma addKindBranch_merge:
  assumes sp: "types_laws sp" and k: "canon sp target" and n: "canon sp incoming" "Kinds incoming = [kd]"
    "decodeNode sp (op_Payload op) = Inr incoming"
  shows "addKindBranch sp op target = Inr (mergeNode sp target (isolateBranch sp incoming kd))"
proof (cases kd)
  case KindLeaf
  have nulls: "Null \<notin> set (scalarTypes incoming)" by (rule scalarTypes_Null [OF n(1)])
  have "AddScalarTypes sp (scalarTypes incoming) (DeclareKind KindLeaf target) =
      Node (Some (sp_Types sp (set (scalarTypes target) \<union> set (scalarTypes incoming)))) (n_Object target) (n_Array target) False"
    unfolding DeclareKind_def using AddScalarTypes_scalar [OF nulls scalarTypes_canon [OF sp k]] by simp
  then show ?thesis
    using KindLeaf n merge_leaf [OF sp k, of "scalarTypes incoming"] canon_isolate [OF sp n(1), of KindLeaf]
    by (simp add: addKindBranch_def Let_def isolate_leaf [OF sp n(1)])
next
  case KindObject
  then show ?thesis
    using n merge_object [OF sp k, of "childrenOf incoming"] canon_isolate [OF sp n(1), of KindObject]
    by (simp add: addKindBranch_def Let_def isolate_object DeclareKind_def SetChildren_object fmJoin_def
        childrenOf_def [of "Node _ _ _ _"])
next
  case KindArray
  show ?thesis
  proof (cases "elementOf incoming")
    case None
    have "mergeNode sp target (NewArrayNode None) = DeclareKind KindArray target"
      using scalar_kept [OF sp k] canon_marker [OF k] unfolding mergeNode_eq [OF sp k canon_simps(4)]
      by (cases "n_Scalar target"; intro node_eqI)
         (auto simp: NewArrayNode_def DeclareKind_def elementOf_def [of "Node _ _ _ _"] scalarTypes_def)
    then show ?thesis using None KindArray n by (simp add: addKindBranch_def Let_def isolate_array)
  next
    case (Some e)
    then show ?thesis
      using KindArray n merge_array [OF sp k canon_elementOf [OF n(1) Some]]
      by (simp add: addKindBranch_def Let_def isolate_array DeclareKind_def SetElement_def elementOf_def [of "Node _ _ _ _"])
  qed
qed

lemma applyOp_target: "applyOp sp op root = updateAt (pathParts (op_Path op)) (opTarget sp op) root \<or> (\<exists>k. op_Kind op = KindUnknown k)"
  by (cases "op_Kind op") (simp_all add: applyOp_def opTarget_def Let_def)

lemma opLeaf_canon:
  assumes "types_laws sp" "codec_laws sp"
  shows "canon sp (opLeaf sp op)"
  using assms by (auto simp: opLeaf_def canon_AddScalar canon_isolate dest: decodeNode_canon [OF assms(2)]
      split: SchemaOpKind.split sum.split list.split)

lemma opTarget_merge:
  assumes sp: "types_laws sp" "codec_laws sp" and k: "canon sp k" "opTarget sp op k = Inr k'"
  shows "k' = mergeNode sp k (opLeaf sp op)"
proof (cases "op_Kind op")
  case KindAddProperty
  then obtain n where n: "decodeNode sp (op_Payload op) = Inr n" "n_Object k \<noteq> None"
      "k' = SetChild (op_Name op) (case fmlookup (childrenOf k) (op_Name op) of None \<Rightarrow> n | Some d \<Rightarrow> mergeNode sp d n) k"
    using k(2) by (auto simp: opTarget_def addProperty_def split: if_splits sum.splits option.splits)
  then show ?thesis
    using KindAddProperty SetChild_join [OF sp(1) k(1) decodeNode_canon [OF sp(2) n(1)] n(2)] by (simp add: opLeaf_def)
next
  case KindBroadenType
  then obtain ts where ts: "DecodeTypeNames sp (op_Payload op) = Inr ts" "k' = AddScalarTypes sp ts k"
    using k(2) by (auto simp: opTarget_def broadenType_def split: sum.splits)
  then show ?thesis
    using KindBroadenType merge_types [OF sp(1) k(1) DecodeTypeNames_nonempty [OF ts(1)]] by (simp add: opLeaf_def)
next
  case KindAddArrayItemType
  then obtain ts where ts: "DecodeTypeNames sp (op_Payload op) = Inr ts"
      "k' = SetElement (case elementOf k of None \<Rightarrow> AddScalarTypes sp (tl ts) (NewLeafNode sp (hd ts)) | Some e \<Rightarrow> AddScalarTypes sp ts e) k"
    using k(2) by (auto simp: opTarget_def addArrayItemType_def split: if_splits sum.splits option.splits list.splits)
  obtain t us where tus: "ts = t # us" using DecodeTypeNames_nonempty [OF ts(1)] by (cases ts) auto
  have "k' = SetElement (case elementOf k of None \<Rightarrow> AddScalarTypes sp ts emptyNode | Some e \<Rightarrow> mergeNode sp e (AddScalarTypes sp ts emptyNode)) k"
    using ts(2) AddScalarTypes_append [OF sp(1), of us "[t]" emptyNode] merge_types [OF sp(1) canon_elementOf [OF k(1)]] tus
    by (auto simp: NewLeafNode_def split: option.split)
  then show ?thesis
    using KindAddArrayItemType ts(1) merge_array [OF sp(1) k(1) canon_AddScalar [OF sp(1) canon_simps(1)]]
    by (simp add: opLeaf_def)
next
  case KindAddKindBranch
  then obtain n kd where n: "decodeNode sp (op_Payload op) = Inr n" "Kinds n = [kd]" "addKindBranch sp op k = Inr k'"
    using k(2) by (auto simp: opTarget_def addKindBranch_def split: sum.splits list.splits)
  then show ?thesis
    using KindAddKindBranch addKindBranch_merge [OF sp(1) k(1) decodeNode_canon [OF sp(2) n(1)] n(2,1)] by (simp add: opLeaf_def)
qed (use k(2) in \<open>simp add: opTarget_def\<close>)

lemma opTarget_mono:
  assumes sp: "types_laws sp" and k: "canon sp k" "canon sp x" "opTarget sp op k = Inr k'"
  shows "\<exists>k''. opTarget sp op (mergeNode sp k x) = Inr k''"
proof (cases "op_Kind op")
  case KindAddProperty
  then show ?thesis using k by (auto simp: opTarget_def addProperty_def merge_Object [OF sp] split: if_splits sum.splits)
next
  case KindBroadenType
  then show ?thesis using k by (auto simp: opTarget_def broadenType_def split: sum.splits)
next
  case KindAddArrayItemType
  then show ?thesis
    using k DecodeTypeNames_nonempty [of sp "op_Payload op"]
    by (auto simp: opTarget_def addArrayItemType_def merge_Array [OF sp] split: if_splits sum.splits option.splits list.splits)
next
  case KindAddKindBranch
  then show ?thesis using k(3) by (auto simp: opTarget_def addKindBranch_def Let_def split: sum.splits list.splits)
qed (use k(3) in \<open>simp add: opTarget_def\<close>)

lemma treeAt_canon [simp]: "canon sp (treeAt parts t) \<longleftrightarrow> canon sp t"
  by (induction parts) auto

lemma updateAt_merge:
  assumes sp: "types_laws sp" and t: "canon sp t" and f: "\<And>k k'. canon sp k \<Longrightarrow> f k = Inr k' \<Longrightarrow> k' = mergeNode sp k t"
  shows "canon sp n \<Longrightarrow> updateAt parts f n = Inr n' \<Longrightarrow> n' = mergeNode sp n (treeAt parts t)"
proof (induction parts arbitrary: n n')
  case (Cons part parts)
  show ?case
  proof (cases "part = ''[]''")
    case True
    then obtain e e' where e: "elementOf n = Some e" "updateAt parts f e = Inr e'" "n' = SetElement e' n"
      using Cons.prems(2) by (auto split: option.splits sum.splits)
    then show ?thesis
      using True Cons.IH [OF canon_elementOf [OF Cons.prems(1) e(1)] e(2)] merge_array [OF sp Cons.prems(1), of "treeAt parts t"] t
      by simp
  next
    case False
    then obtain c c' where c: "fmlookup (childrenOf n) part = Some c" "updateAt parts f c = Inr c'" "n' = SetChild part c' n"
      using Cons.prems(2) by (auto split: if_splits option.splits sum.splits)
    have "n_Object n \<noteq> None" using c(1) by (auto simp: childrenOf_def split: option.splits)
    then show ?thesis
      using False c Cons.IH [OF canon_childOf [OF Cons.prems(1) c(1)] c(2)] SetChild_join [OF sp Cons.prems(1), of "treeAt parts t" part] t
      by simp
  qed
qed (use f in simp)

lemma updateAt_mono:
  assumes sp: "types_laws sp"
    and f: "\<And>k k' x. canon sp k \<Longrightarrow> canon sp x \<Longrightarrow> f k = Inr k' \<Longrightarrow> \<exists>k''. f (mergeNode sp k x) = Inr k''"
  shows "canon sp n \<Longrightarrow> canon sp x \<Longrightarrow> updateAt parts f n = Inr n' \<Longrightarrow> \<exists>n''. updateAt parts f (mergeNode sp n x) = Inr n''"
proof (induction parts arbitrary: n n' x)
  case (Cons part parts)
  note nx = Cons.prems(1,2)
  show ?case
  proof (cases "part = ''[]''")
    case True
    then obtain e e' where e: "elementOf n = Some e" "updateAt parts f e = Inr e'"
      using Cons.prems(3) by (auto split: option.splits sum.splits)
    then show ?thesis
      using True Cons.IH [OF canon_elementOf [OF nx(1) e(1)] canon_elementOf [OF nx(2)] e(2)]
      by (cases "elementOf x") (auto simp: merge_element [OF sp nx] split: sum.split)
  next
    case False
    then obtain c c' where c: "fmlookup (childrenOf n) part = Some c" "updateAt parts f c = Inr c'" "part \<noteq> []"
      using Cons.prems(3) by (auto split: if_splits option.splits sum.splits)
    then show ?thesis
      using False Cons.IH [OF canon_childOf [OF nx(1) c(1)] canon_childOf [OF nx(2)] c(2)]
      by (cases "fmlookup (childrenOf x) part") (fastforce simp: merge_child [OF sp nx] split: sum.split)+
  qed
qed (use f in simp)

lemma applyOp_merge:
  assumes sp: "types_laws sp" "codec_laws sp" and "canon sp root" "applyOp sp op root = Inr r"
  shows "r = mergeNode sp root (treeAt (pathParts (op_Path op)) (opLeaf sp op))"
  using updateAt_merge [OF sp(1) opLeaf_canon [OF sp] opTarget_merge [OF sp] assms(3)] applyOp_target [of sp op root] assms(4)
  by (auto simp: applyOp_def)

text \<open>An operation that applies also applies to every larger model, and does the same there.\<close>

lemma applyOp_larger:
  assumes sp: "types_laws sp" "codec_laws sp" and c: "canon sp root" "canon sp x" and r: "applyOp sp op root = Inr r"
  shows "applyOp sp op (mergeNode sp root x) = Inr (mergeNode sp r x)"
proof -
  let ?t = "treeAt (pathParts (op_Path op)) (opLeaf sp op)"
  have t: "canon sp ?t" using opLeaf_canon [OF sp] by simp
  have "updateAt (pathParts (op_Path op)) (opTarget sp op) root = Inr r"
    using applyOp_target [of sp op root] r by (auto simp: applyOp_def)
  then obtain r' where "updateAt (pathParts (op_Path op)) (opTarget sp op) (mergeNode sp root x) = Inr r'"
    using updateAt_mono [of sp "opTarget sp op" root x] opTarget_mono [OF sp(1)] sp(1) c by blast
  then have r': "applyOp sp op (mergeNode sp root x) = Inr r'"
    using applyOp_target [of sp op "mergeNode sp root x"] r by (auto simp: applyOp_def)
  have "r' = mergeNode sp (mergeNode sp root x) ?t" by (rule applyOp_merge [OF sp merge_canon [OF sp(1) c] r'])
  also have "\<dots> = mergeNode sp (mergeNode sp root ?t) x"
    using merge_assoc [OF sp(1) c(1,2) t] merge_assoc [OF sp(1) c(1) t c(2)] merge_comm [OF sp(1) c(2) t] by simp
  also have "\<dots> = mergeNode sp r x" using applyOp_merge [OF sp c(1) r] by simp
  finally show ?thesis using r' by simp
qed

lemma applyOps_larger:
  assumes sp: "types_laws sp" "codec_laws sp" and x: "canon sp x"
  shows "canon sp root \<Longrightarrow> applyOps sp xs root = Inr r \<Longrightarrow>
    applyOps sp xs (mergeNode sp root x) = Inr (mergeNode sp r x) \<and> canon sp r \<and> mergeNode sp root r = r"
proof (induction xs arbitrary: root)
  case Nil
  then show ?case using merge_idem [OF sp(1)] by simp
next
  case (Cons op xs)
  obtain r1 where r1: "applyOp sp op root = Inr r1" "applyOps sp xs r1 = Inr r"
    using Cons.prems(2) by (auto split: sum.splits)
  let ?t = "treeAt (pathParts (op_Path op)) (opLeaf sp op)"
  have t: "canon sp ?t" using opLeaf_canon [OF sp] by simp
  have e: "r1 = mergeNode sp root ?t" by (rule applyOp_merge [OF sp Cons.prems(1) r1(1)])
  then have c: "canon sp r1" using merge_canon [OF sp(1) Cons.prems(1) t] by simp
  note ih = Cons.IH [OF c r1(2)]
  have up: "mergeNode sp root r1 = r1"
    unfolding e using merge_assoc [OF sp(1) Cons.prems(1) Cons.prems(1) t] merge_idem [OF sp(1) Cons.prems(1)] by simp
  have "mergeNode sp root r = mergeNode sp (mergeNode sp root r1) r"
    using ih merge_assoc [OF sp(1) Cons.prems(1) c] by simp
  then show ?case using ih up applyOp_larger [OF sp Cons.prems(1) x r1(1)] by simp
qed

end
