(* ===== verification/SchemaDiff.thy ===== *)
theory SchemaDiff
  imports SchemaDelta
begin

text \<open>
  What \<open>Diff\<close> writes and \<open>Apply\<close> reads. The operations of a difference, applied to any model at least as large
  as the old one, merge the new model into it: on the old model itself that is the new model, and on a model
  that has been extended meanwhile it is both extensions.
\<close>

text \<open>Operations that, on every model at least as large as \<open>old\<close> at a path, merge \<open>t\<close> there.\<close>

definition merges :: "SchemaSpi \<Rightarrow> string list \<Rightarrow> ModelNode \<Rightarrow> SchemaOp list \<Rightarrow> ModelNode \<Rightarrow> bool" where
  "merges sp parts old xs t \<longleftrightarrow>
     canon sp t \<and>
     (\<forall>root k. canon sp root \<longrightarrow> getAt parts root = Some k \<longrightarrow> mergeNode sp old k = k \<longrightarrow>
        applyOps sp xs root = Inr (mergeNode sp root (treeAt parts t)))"

subsection \<open>Merging at a path\<close>

lemma getAt_append: "getAt (ps @ qs) n = (case getAt ps n of None \<Rightarrow> None | Some k \<Rightarrow> getAt qs k)"
  by (induction ps arbitrary: n) (auto split: option.split)

lemma treeAt_append: "treeAt (ps @ qs) t = treeAt ps (treeAt qs t)"
  by (induction ps) auto

lemma getAt_canon: "canon sp n \<Longrightarrow> getAt ps n = Some k \<Longrightarrow> canon sp k"
proof (induction ps arbitrary: n)
  case (Cons p ps)
  then show ?case by (auto split: if_splits option.splits dest: canon_elementOf canon_childOf)
qed simp

lemma treeAt_merge:
  assumes sp: "types_laws sp"
  shows "canon sp a \<Longrightarrow> canon sp b \<Longrightarrow> mergeNode sp (treeAt ps a) (treeAt ps b) = treeAt ps (mergeNode sp a b)"
proof (induction ps)
  case (Cons p ps)
  have "fmJoin (mergeNode sp) (fmupd p (treeAt ps a) fmempty) (fmupd p (treeAt ps b) fmempty) =
      fmupd p (mergeNode sp (treeAt ps a) (treeAt ps b)) fmempty"
    by (rule fmap_eqI) auto
  then show ?case
    using Cons merge_array [OF sp, of "NewArrayNode (Some (treeAt ps a))" "treeAt ps b"]
      merge_object [OF sp, of "objectNode (fmupd p (treeAt ps a) fmempty)" "fmupd p (treeAt ps b) fmempty"]
    by (auto simp: NewArrayNode_def SetElement_def elementOf_def objectNode_def childrenOf_def)
qed simp

lemma merge_at:
  assumes sp: "types_laws sp" and t: "canon sp t"
  shows "canon sp n \<Longrightarrow> getAt ps n = Some k \<Longrightarrow>
    getAt ps (mergeNode sp n (treeAt ps t)) = Some (mergeNode sp k t) \<and>
    (mergeNode sp k t = mergeNode sp k u \<longrightarrow> canon sp u \<longrightarrow> mergeNode sp n (treeAt ps t) = mergeNode sp n (treeAt ps u))"
proof (induction ps arbitrary: n)
  case (Cons p ps)
  show ?case
  proof (cases "p = ''[]''")
    case True
    then obtain e where e: "elementOf n = Some e" "getAt ps e = Some k" using Cons.prems(2) by (auto split: option.splits)
    then show ?thesis
      using True Cons.IH [OF canon_elementOf [OF Cons.prems(1) e(1)] e(2)] t merge_array [OF sp Cons.prems(1)]
      by (auto simp: SetElement_def elementOf_def [of "Node _ _ _ _"])
  next
    case False
    then obtain c where c: "fmlookup (childrenOf n) p = Some c" "getAt ps c = Some k" "p \<noteq> []"
      using Cons.prems(2) by (auto split: if_splits option.splits)
    moreover have "n_Object n \<noteq> None" using c(1) by (auto simp: childrenOf_def split: option.splits)
    ultimately show ?thesis
      using False Cons.IH [OF canon_childOf [OF Cons.prems(1) c(1)] c(2)] t SetChild_join [OF sp Cons.prems(1)]
      by (auto simp: SetChild_def childrenOf_def [of "Node _ _ _ _"])
  qed
qed simp

lemma merge_at_empty:
  assumes sp: "types_laws sp"
  shows "canon sp n \<Longrightarrow> getAt ps n = Some k \<Longrightarrow> mergeNode sp n (treeAt ps emptyNode) = n"
proof (induction ps arbitrary: n)
  case (Cons p ps)
  show ?case
  proof (cases "p = ''[]''")
    case True
    then obtain e where e: "elementOf n = Some e" "getAt ps e = Some k" using Cons.prems(2) by (auto split: option.splits)
    moreover have "SetElement e n = n" using e(1) by (cases n) (simp add: SetElement_def elementOf_Some)
    ultimately show ?thesis
      using True Cons.IH [OF canon_elementOf [OF Cons.prems(1) e(1)] e(2)] merge_array [OF sp Cons.prems(1)] by simp
  next
    case False
    then obtain c where c: "fmlookup (childrenOf n) p = Some c" "getAt ps c = Some k"
      using Cons.prems(2) by (auto split: if_splits option.splits)
    moreover have ob: "n_Object n \<noteq> None" using c(1) by (auto simp: childrenOf_def split: option.splits)
    moreover have "fmupd p c (childrenOf n) = childrenOf n" using c(1) by (intro fmap_eqI) auto
    then have "SetChild p c n = n" using ob by (cases n) (auto simp: SetChild_def childrenOf_def)
    ultimately show ?thesis
      using False Cons.IH [OF canon_childOf [OF Cons.prems(1) c(1)] c(2)] SetChild_join [OF sp Cons.prems(1)] by simp
  qed
qed (simp add: merge_empty [OF sp])

lemma updateAt_get: "getAt ps n = Some k \<Longrightarrow> f k = Inr k' \<Longrightarrow> \<exists>n'. updateAt ps f n = Inr n'"
proof (induction ps arbitrary: n)
  case (Cons p ps)
  then show ?case by (fastforce split: if_splits option.splits sum.splits)
qed simp

subsection \<open>Sequences of operations that merge a tree\<close>

lemma mergesI:
  assumes sp: "types_laws sp" "codec_laws sp" and t: "canon sp t" and p: "pathParts (op_Path op) = ps"
    and k: "\<And>k. canon sp k \<Longrightarrow> mergeNode sp old k = k \<Longrightarrow>
      (\<exists>k'. opTarget sp op k = Inr k') \<and> mergeNode sp k (opLeaf sp op) = mergeNode sp k t"
  shows "merges sp ps old [op] t"
proof -
  have "applyOp sp op root = Inr (mergeNode sp root (treeAt ps t))"
    if r: "canon sp root" "getAt ps root = Some k" "mergeNode sp old k = k" for root k
  proof -
    note kk = k [OF getAt_canon [OF r(1,2)] r(3)]
    have known: "op_Kind op \<noteq> KindUnknown u" for u using kk by (auto simp: opTarget_def)
    obtain n' where "updateAt ps (opTarget sp op) root = Inr n'" using updateAt_get [OF r(2)] kk by blast
    then have n': "applyOp sp op root = Inr n'" using applyOp_target [of sp op root] known p by auto
    then have "n' = mergeNode sp root (treeAt ps (opLeaf sp op))" using applyOp_merge [OF sp r(1)] p by blast
    then show ?thesis using n' merge_at [OF sp(1) opLeaf_canon [OF sp, of op] r(1,2), where u = t] kk t by simp
  qed
  then show ?thesis using t by (simp add: merges_def)
qed

lemma merges_nil:
  assumes sp: "types_laws sp" and t: "canon sp t" and "\<And>k. canon sp k \<Longrightarrow> mergeNode sp old k = k \<Longrightarrow> mergeNode sp k t = k"
  shows "merges sp ps old [] t"
proof -
  have "root = mergeNode sp root (treeAt ps t)"
    if r: "canon sp root" "getAt ps root = Some k" "mergeNode sp old k = k" for root k
    using merge_at [OF sp canon_simps(1) r(1,2), of t] merge_at_empty [OF sp r(1,2)] assms(3) [OF getAt_canon [OF r(1,2)] r(3)] t
      merge_empty [OF sp getAt_canon [OF r(1,2)]] by simp
  then show ?thesis using t by (simp add: merges_def)
qed

lemma merges_append:
  assumes sp: "types_laws sp" and old: "canon sp old" and a: "merges sp ps old xs a" and b: "merges sp ps old ys b"
  shows "merges sp ps old (xs @ ys) (mergeNode sp a b)"
proof -
  have ca: "canon sp a" and cb: "canon sp b" using a b by (simp_all add: merges_def)
  have app: "applyOps sp (us @ vs) r = (case applyOps sp us r of Inl e \<Rightarrow> Inl e | Inr q \<Rightarrow> applyOps sp vs q)" for us vs r
    by (induction us arbitrary: r) (auto split: sum.split)
  have "applyOps sp (xs @ ys) root = Inr (mergeNode sp root (treeAt ps (mergeNode sp a b)))"
    if r: "canon sp root" "getAt ps root = Some k" "mergeNode sp old k = k" for root k
  proof -
    let ?q = "mergeNode sp root (treeAt ps a)"
    have k: "canon sp k" by (rule getAt_canon [OF r(1,2)])
    have q: "canon sp ?q" using merge_canon [OF sp r(1)] ca by simp
    have g: "getAt ps ?q = Some (mergeNode sp k a)" using merge_at [OF sp ca r(1,2)] by blast
    have "mergeNode sp old (mergeNode sp k a) = mergeNode sp k a" using merge_assoc [OF sp old k ca] r(3) by simp
    then have "applyOps sp ys ?q = Inr (mergeNode sp ?q (treeAt ps b))" using b q g unfolding merges_def by blast
    moreover have "applyOps sp xs root = Inr ?q" using a r unfolding merges_def by blast
    moreover have "mergeNode sp ?q (treeAt ps b) = mergeNode sp root (treeAt ps (mergeNode sp a b))"
      using merge_assoc [OF sp r(1)] treeAt_merge [OF sp ca cb] ca cb by simp
    ultimately show ?thesis by (simp add: app)
  qed
  then show ?thesis using merge_canon [OF sp ca cb] by (simp add: merges_def)
qed

lemma below_child:
  assumes "types_laws sp" "canon sp old" "canon sp k" "mergeNode sp old k = k" "fmlookup (childrenOf old) name = Some c"
  shows "\<exists>d. fmlookup (childrenOf k) name = Some d \<and> mergeNode sp c d = d"
  using merge_child [OF assms(1-3), of name] assms(4,5) by (cases "fmlookup (childrenOf k) name") auto

lemma below_element:
  assumes "types_laws sp" "canon sp old" "canon sp k" "mergeNode sp old k = k" "elementOf old = Some e"
  shows "\<exists>d. elementOf k = Some d \<and> mergeNode sp e d = d"
  using merge_element [OF assms(1-3)] assms(4,5) by (cases "elementOf k") auto

lemma merges_child:
  assumes sp: "types_laws sp" and old: "canon sp old" "fmlookup (childrenOf old) name = Some c" "name \<noteq> []" "name \<noteq> ''[]''"
    and m: "merges sp (ps @ [name]) c xs t"
  shows "merges sp ps old xs (objectNode (fmupd name t fmempty))"
proof -
  have t: "canon sp t" using m by (simp add: merges_def)
  have "applyOps sp xs root = Inr (mergeNode sp root (treeAt ps (objectNode (fmupd name t fmempty))))"
    if r: "canon sp root" "getAt ps root = Some k" "mergeNode sp old k = k" for root k
  proof -
    obtain d where d: "fmlookup (childrenOf k) name = Some d" "mergeNode sp c d = d"
      using below_child [OF sp old(1) getAt_canon [OF r(1,2)] r(3) old(2)] by blast
    have "getAt (ps @ [name]) root = Some d" using r(2) d(1) old(3,4) by (simp add: getAt_append)
    then have "applyOps sp xs root = Inr (mergeNode sp root (treeAt (ps @ [name]) t))"
      using m r(1) d(2) unfolding merges_def by blast
    then show ?thesis using old(4) by (simp add: treeAt_append)
  qed
  then show ?thesis using t by (simp add: merges_def)
qed

lemma merges_element:
  assumes sp: "types_laws sp" and old: "canon sp old" "elementOf old = Some e" and m: "merges sp (ps @ [''[]'']) e xs t"
  shows "merges sp ps old xs (NewArrayNode (Some t))"
proof -
  have t: "canon sp t" using m by (simp add: merges_def)
  have "applyOps sp xs root = Inr (mergeNode sp root (treeAt ps (NewArrayNode (Some t))))"
    if r: "canon sp root" "getAt ps root = Some k" "mergeNode sp old k = k" for root k
  proof -
    obtain d where d: "elementOf k = Some d" "mergeNode sp e d = d"
      using below_element [OF sp old(1) getAt_canon [OF r(1,2)] r(3) old(2)] by blast
    have "getAt (ps @ [''[]'']) root = Some d" using r(2) d(1) by (simp add: getAt_append)
    then have "applyOps sp xs root = Inr (mergeNode sp root (treeAt (ps @ [''[]'']) t))"
      using m r(1) d(2) unfolding merges_def by blast
    then show ?thesis by (simp add: treeAt_append)
  qed
  then show ?thesis using t by (simp add: merges_def)
qed

end
