(* ===== verification/SchemaConverge.thy ===== *)
theory SchemaConverge
  imports SchemaDiff
begin

text \<open>
  A difference is a set of merges. Every operation \<open>Diff\<close> writes merges one branch of the new model into the
  node it names, and together the branches are the new model (\<open>diff_merges\<close>). So replaying the difference on the
  old model gives the new one, and replaying it on a model that moved on meanwhile gives the merge of both.
\<close>

text \<open>The branches of a node.\<close>

definition partN :: "ModelNode \<Rightarrow> ModelNode" where "partN n = Node None None None (n_Nullable n)"

definition partS :: "ModelNode \<Rightarrow> ModelNode" where "partS n = Node (n_Scalar n) None None False"

definition partO :: "ModelNode \<Rightarrow> ModelNode" where "partO n = Node None (n_Object n) None False"

definition partA :: "ModelNode \<Rightarrow> ModelNode" where "partA n = Node None None (n_Array n) False"

lemmas parts_def = partN_def partS_def partO_def partA_def

lemma part_fields [simp]:
  "n_Scalar (partN n) = None" "n_Object (partN n) = None" "n_Array (partN n) = None" "n_Nullable (partN n) = n_Nullable n"
  "n_Scalar (partS n) = n_Scalar n" "n_Object (partS n) = None" "n_Array (partS n) = None" "\<not> n_Nullable (partS n)"
  "n_Scalar (partO n) = None" "n_Object (partO n) = n_Object n" "n_Array (partO n) = None" "\<not> n_Nullable (partO n)"
  "n_Scalar (partA n) = None" "n_Object (partA n) = None" "n_Array (partA n) = n_Array n" "\<not> n_Nullable (partA n)"
  "n_Scalar emptyNode = None" "n_Object emptyNode = None" "n_Array emptyNode = None" "\<not> n_Nullable emptyNode"
  "scalarTypes (partS n) = scalarTypes n" "elementOf (partA n) = elementOf n"
  "elementOf (partN n) = None" "elementOf (partS n) = None" "elementOf (partO n) = None" "elementOf emptyNode = None"
  by (simp_all add: parts_def emptyNode_def elementOf_def scalarTypes_def)

lemma parts_canon:
  assumes "canon sp n"
  shows "canon sp (partN n)" "canon sp (partS n)" "canon sp (partO n)" "canon sp (partA n)"
  using assms by (cases n; auto simp: parts_def)+

lemma parts_join:
  assumes sp: "types_laws sp" and n: "canon sp n"
    and xy: "(x = partS n \<and> y = emptyNode) \<or> (x = emptyNode \<and> y = partS n)"
  shows "mergeNode sp (partN n) (mergeNode sp x (mergeNode sp (partO n) (mergeNode sp (partA n) y))) = n"
proof -
  note c = parts_canon [OF n]
  note oa = merge_canon [OF sp c(3,4)]
  note soa = merge_canon [OF sp c(2) oa]
  have el: "\<exists>e. n_Array n = Some e \<Longrightarrow> Some (elementOf n) = n_Array n" by (auto simp: elementOf_def split: option.splits)
  have OA: "mergeNode sp (partO n) (partA n) = Node None (n_Object n) (n_Array n) False"
    by (rule node_eqI) (simp_all add: merge_branches [OF sp c(3,4)] el)
  have SOA: "mergeNode sp (partS n) (mergeNode sp (partO n) (partA n)) = Node (n_Scalar n) (n_Object n) (n_Array n) False"
    using canon_types [OF n]
    by (cases "n_Scalar n"; intro node_eqI) (simp_all add: merge_branches [OF sp c(2) oa], simp_all add: OA elementOf_def el split: option.split)
  have NSOA: "mergeNode sp (partN n) (mergeNode sp (partS n) (mergeNode sp (partO n) (partA n))) = n"
    using canon_types [OF n] canon_marker [OF n]
    by (cases "n_Scalar n"; intro node_eqI) (simp_all add: merge_branches [OF sp c(1) soa], simp_all add: SOA elementOf_def el split: option.split)
  have "mergeNode sp (partO n) (mergeNode sp (partA n) (partS n)) = mergeNode sp (partS n) (mergeNode sp (partO n) (partA n))"
    using merge_comm [OF sp c(4,2)] merge_left_commute [OF sp c(3,2,4)] by simp
  moreover have "mergeNode sp emptyNode z = z" if "canon sp z" for z
    using merge_empty [OF sp that] merge_comm [OF sp canon_simps(1) that] by simp
  ultimately show ?thesis using xy NSOA merge_empty [OF sp c(4)] soa by auto
qed

subsection \<open>One operation each\<close>

lemma those_map: "\<forall>x \<in> set xs. f x = Some (g x) \<Longrightarrow> those (map f xs) = Some (map g xs)"
  by (induction xs) auto

lemma names_round:
  assumes "codec_laws sp" "types \<noteq> []"
  shows "\<exists>p ts. encodeTypeNames sp types = Inr p \<and> DecodeTypeNames sp p = Inr ts \<and> set ts = set types"
proof -
  let ?names = "sort (remdups (map (sp_TypeName sp) types))"
  have nm: "sp_TypeName sp dt \<noteq> ''UNKNOWN''" "sp_ParseDataType sp (sp_TypeName sp dt) = Some dt" for dt
    using assms(1) by (simp_all add: codec_laws_def)
  have st: "set ?names = sp_TypeName sp ` set types" by simp
  then have "those (map (sp_ParseDataType sp) ?names) = Some (map (the \<circ> sp_ParseDataType sp) ?names)"
    by (intro those_map) (auto simp: nm)
  moreover have "?names \<noteq> []" using st assms(2) by (metis image_is_empty set_empty)
  moreover have "''UNKNOWN'' \<notin> set (map (sp_TypeName sp) types)" using nm(1) by (metis (no_types, lifting) image_iff set_map)
  ultimately have "encodeTypeNames sp types = Inr (PNames ?names)"
      "DecodeTypeNames sp (PNames ?names) = Inr (map (the \<circ> sp_ParseDataType sp) ?names)"
    using assms(2) by (simp_all add: encodeTypeNames_def DecodeTypeNames_def Let_def)
  moreover have "set (map (the \<circ> sp_ParseDataType sp) ?names) = set types" using st nm by (simp add: image_image)
  ultimately show ?thesis by blast
qed

lemma AddScalarTypes_set: "set ts = set us \<Longrightarrow> AddScalarTypes sp ts n = AddScalarTypes sp us n"
  by (simp add: AddScalarTypes_def)

lemma broaden_op:
  assumes sp: "types_laws sp" "codec_laws sp" and t: "canon sp t" "pathParts path = ps" "added \<noteq> []"
    and k: "\<And>k. canon sp k \<Longrightarrow> mergeNode sp old k = k \<Longrightarrow> AddScalarTypes sp added k = mergeNode sp k t"
  shows "\<exists>xs. oneOp (NewBroadenType sp path added) = Inr xs \<and> merges sp ps old xs t"
proof -
  obtain p ts where p: "encodeTypeNames sp added = Inr p" "DecodeTypeNames sp p = Inr ts" "set ts = set added"
    using names_round [OF sp(2) t(3)] by blast
  let ?op = "\<lparr>op_Kind = KindBroadenType, op_Path = path, op_Name = [], op_Payload = p\<rparr>"
  have "merges sp ps old [?op] t"
    using k p merge_types [OF sp(1) _ DecodeTypeNames_nonempty [OF p(2)]] AddScalarTypes_set [OF p(3)] t
    by (intro mergesI [OF sp]) (auto simp: opTarget_def opLeaf_def broadenType_def)
  then show ?thesis using p by (simp add: NewBroadenType_def oneOp_def)
qed

lemma item_op:
  assumes sp: "types_laws sp" "codec_laws sp" and t: "canon sp t" "pathParts path = ps" "added \<noteq> []"
    and k: "\<And>k. canon sp k \<Longrightarrow> mergeNode sp old k = k \<Longrightarrow>
      n_Array k \<noteq> None \<and> mergeNode sp k (NewArrayNode (Some (AddScalarTypes sp added emptyNode))) = mergeNode sp k t"
  shows "\<exists>xs. oneOp (NewAddArrayItemType sp path added) = Inr xs \<and> merges sp ps old xs t"
proof -
  obtain p ts where p: "encodeTypeNames sp added = Inr p" "DecodeTypeNames sp p = Inr ts" "set ts = set added"
    using names_round [OF sp(2) t(3)] by blast
  let ?op = "\<lparr>op_Kind = KindAddArrayItemType, op_Path = path, op_Name = [], op_Payload = p\<rparr>"
  have "merges sp ps old [?op] t"
    using k p DecodeTypeNames_nonempty [OF p(2)] AddScalarTypes_set [OF p(3)] t
    by (intro mergesI [OF sp]) (auto simp: opTarget_def opLeaf_def addArrayItemType_def split: option.split list.split)
  then show ?thesis using p by (simp add: NewAddArrayItemType_def oneOp_def)
qed

text \<open>A model above another has its branches, and its types absorb the other's.\<close>

lemma above_branches:
  assumes "types_laws sp" "canon sp a" "canon sp b" "mergeNode sp a b = b"
  shows "n_Object a \<noteq> None \<Longrightarrow> n_Object b \<noteq> None" "n_Array a \<noteq> None \<Longrightarrow> n_Array b \<noteq> None"
    "n_Scalar a \<noteq> None \<Longrightarrow> n_Scalar b \<noteq> None" "n_Nullable a \<Longrightarrow> n_Nullable b \<or> n_Scalar b \<noteq> None"
    "sp_Types sp (set (scalarTypes a) \<union> set (scalarTypes b)) = scalarTypes b"
proof -
  note m = merge_branches [OF assms(1-3)] scalarTypes_merge [OF assms(1-3)]
  show "n_Object b \<noteq> None" if "n_Object a \<noteq> None" using m(2) that assms(4) by (metis optJoin_None_iff)
  show "n_Array b \<noteq> None" if "n_Array a \<noteq> None" using m(3) that assms(4) by (metis option.distinct(1))
  show "n_Scalar b \<noteq> None" if "n_Scalar a \<noteq> None" using m(1) that assms(4) by (metis option.distinct(1))
  show "n_Nullable b \<or> n_Scalar b \<noteq> None" if "n_Nullable a" using m(1,4) that assms(4) by (metis option.distinct(1))
  show "sp_Types sp (set (scalarTypes a) \<union> set (scalarTypes b)) = scalarTypes b" using m(5) assms(4) by simp
qed

lemma codec_round: "codec_laws sp \<Longrightarrow> canon sp n \<Longrightarrow> \<exists>b. sp_Marshal sp n = Some b \<and> sp_Unmarshal sp b = Some n"
  by (simp add: codec_laws_def)

lemma branch_op:
  assumes sp: "types_laws sp" "codec_laws sp" and n: "canon sp n" "pathParts path = ps"
  shows "\<exists>xs. emitAddKindBranch sp path kd n = Inr xs \<and> merges sp ps old xs (isolateBranch sp n kd)"
proof -
  let ?t = "isolateBranch sp n kd"
  have t: "canon sp ?t" by (rule canon_isolate [OF sp(1) n(1)])
  obtain b where b: "sp_Marshal sp ?t = Some b" "sp_Unmarshal sp b = Some ?t" using codec_round [OF sp(2) t] by blast
  have k: "Kinds ?t = [kd]"
    by (cases kd) (simp_all add: isolate_leaf [OF sp(1) n(1)] isolate_object isolate_array Kinds_def objectNode_def NewArrayNode_def)
  have i: "isolateBranch sp ?t kd = ?t"
    using t n(1) by (cases kd) (simp_all add: isolate_leaf [OF sp(1)] isolate_object isolate_array
        objectNode_def NewArrayNode_def childrenOf_def elementOf_def)
  have "merges sp ps old [NewAddKindBranch path b] ?t"
    using addKindBranch_merge [OF sp(1) _ t k] b k i n(2) t
    by (intro mergesI [OF sp]) (auto simp: opTarget_def opLeaf_def NewAddKindBranch_def decodeNode_def)
  then show ?thesis using b(1) by (simp add: emitAddKindBranch_def)
qed

lemma property_op:
  assumes sp: "types_laws sp" "codec_laws sp" and n: "canon sp c" "pathParts path = ps" "name \<noteq> []"
    and old: "canon sp old" "n_Object old \<noteq> None"
  shows "\<exists>b. sp_Marshal sp c = Some b \<and> merges sp ps old [NewAddProperty path name b] (objectNode (fmupd name c fmempty))"
proof -
  obtain b where b: "sp_Marshal sp c = Some b" "sp_Unmarshal sp b = Some c" using codec_round [OF sp(2) n(1)] by blast
  have "n_Object k \<noteq> None" if "canon sp k" "mergeNode sp old k = k" for k
    using above_branches [OF sp(1) old(1) that] old(2) by blast
  then have "merges sp ps old [NewAddProperty path name b] (objectNode (fmupd name c fmempty))"
    using b n by (intro mergesI [OF sp]) (auto simp: opTarget_def opLeaf_def addProperty_def NewAddProperty_def decodeNode_def)
  then show ?thesis using b(1) by blast
qed

subsection \<open>The scalar branch and the marker\<close>

lemma merges_emptyNode: "types_laws sp \<Longrightarrow> merges sp ps old [] emptyNode"
  by (rule merges_nil) (simp_all add: merge_empty)

lemma types_rest:
  assumes "types_laws sp" "sp_Types sp (A \<union> set ks) = ks" "B - A \<subseteq> C" "C \<subseteq> A \<union> B"
  shows "sp_Types sp (set ks \<union> C) = sp_Types sp (set ks \<union> B)"
proof -
  have "sp_Types sp (set ks \<union> X) = sp_Types sp (A \<union> set ks \<union> X)" for X using types_absorb [OF assms(1), of "A \<union> set ks" X] assms(2) by simp
  moreover have "A \<union> set ks \<union> C = A \<union> set ks \<union> B" using assms(3,4) by blast
  ultimately show ?thesis by simp
qed

lemma AddScalarTypes_concrete:
  "ts \<noteq> [] \<Longrightarrow> Null \<notin> set ts \<Longrightarrow>
     AddScalarTypes sp ts n = Node (Some (sp_Types sp (set (scalarTypes n) \<union> set ts))) (n_Object n) (n_Array n) False"
  by (cases ts) (auto simp: AddScalarTypes_def Let_def)

lemma marker_types: "n_Nullable n \<Longrightarrow> partN n = AddScalarTypes sp [Null] emptyNode"
  by (simp add: partN_def AddScalarTypes_def SetNullable_def emptyNode_def)

lemma nullable_piece:
  assumes sp: "types_laws sp" "codec_laws sp" and c: "canon sp old" "canon sp n" and p: "pathParts path = ps"
  shows "\<exists>xs. diffNullable sp path old n = Inr xs \<and> merges sp ps old xs (partN n)"
proof (cases "n_Nullable n")
  case True
  have add: "AddScalarTypes sp [Null] k = mergeNode sp k (partN n)" if "canon sp k" for k
    using merge_types [OF sp(1) that, of "[Null]"] marker_types [OF True] by simp
  have "mergeNode sp k (partN n) = k" if "canon sp k" "mergeNode sp old k = k" "n_Nullable old" for k
  proof -
    have "SetNullable k = k" using above_branches(4) [OF sp(1) c(1) that] by (cases k) (auto simp: SetNullable_def)
    then show ?thesis using add [OF that(1)] by (simp add: AddScalarTypes_def)
  qed
  then show ?thesis
    using True broaden_op [OF sp parts_canon(1) [OF c(2)] p, of "[Null]" old] merges_nil [OF sp(1) parts_canon(1) [OF c(2)]] add
    by (cases "n_Nullable old") (auto simp: diffNullable_def)
next
  case False
  then have "partN n = emptyNode" by (simp add: partN_def emptyNode_def)
  then show ?thesis using False merges_emptyNode [OF sp(1)] by (simp add: diffNullable_def)
qed

lemma broaden_piece:
  assumes sp: "types_laws sp" "codec_laws sp" and c: "canon sp old" "canon sp n" "wellNamed n" and p: "pathParts path = ps"
    and S: "n_Scalar n = Some ns"
    and added: "set added = set ns - set (scalarTypes old)" "added = [] \<Longrightarrow> n_Scalar old \<noteq> None"
  shows "\<exists>xs. (if added = [] then Inr [] else oneOp (NewBroadenType sp path added)) = Inr xs \<and> merges sp ps old xs (partS n)"
proof -
  note ps = parts_canon(2) [OF c(2)]
  have leaf: "mergeNode sp k (partS n) = Node (Some (sp_Types sp (set (scalarTypes k) \<union> set ns))) (n_Object k) (n_Array k) False"
    if "canon sp k" for k
    using merge_leaf [OF sp(1) that, of ns] ps by (simp add: partS_def S)
  have rest: "sp_Types sp (set (scalarTypes k) \<union> set added) = sp_Types sp (set (scalarTypes k) \<union> set ns)"
    if "canon sp k" "mergeNode sp old k = k" for k
    using types_rest [OF sp(1) above_branches(5) [OF sp(1) c(1) that], of "set ns" "set added"] added by blast
  show ?thesis
  proof (cases "added = []")
    case True
    have "mergeNode sp k (partS n) = k" if k: "canon sp k" "mergeNode sp old k = k" for k
      using leaf [OF k(1)] rest [OF k] True above_branches(3) [OF sp(1) c(1) k added(2) [OF True]] canon_types [OF k(1)]
        canon_marker [OF k(1)] by (cases k) auto
    then show ?thesis using True merges_nil [OF sp(1) ps] by simp
  next
    case False
    have nn: "Null \<notin> set added" using added(1) canon_Null [OF c(2) S] by simp
    have "AddScalarTypes sp added k = mergeNode sp k (partS n)" if "canon sp k" "mergeNode sp old k = k" for k
      using AddScalarTypes_concrete [OF False nn, of sp k] rest [OF that] leaf [OF that(1)] by simp
    then show ?thesis using False broaden_op [OF sp ps p False, of old] by simp
  qed
qed

lemma scalar_piece:
  assumes sp: "types_laws sp" "codec_laws sp" and c: "canon sp old" "canon sp n" "wellNamed n" and p: "pathParts path = ps"
  shows "\<exists>x y xs ys. diffScalar sp path old n = Inr xs \<and> diffLeafBranch sp path old n = Inr ys \<and>
    merges sp ps old xs x \<and> merges sp ps old ys y \<and> ((x = partS n \<and> y = emptyNode) \<or> (x = emptyNode \<and> y = partS n))"
proof (cases "n_Scalar n")
  case None
  then have "partS n = emptyNode" by (simp add: partS_def emptyNode_def)
  then show ?thesis using None merges_emptyNode [OF sp(1)] by (auto simp: diffScalar_def diffLeafBranch_def)
next
  case (Some ns)
  note add = broaden_piece [OF sp c p Some] and e = merges_emptyNode [OF sp(1), of ps old]
  have S: "partS n = Node (Some ns) None None False" by (simp add: partS_def Some)
  show ?thesis
  proof (cases "n_Scalar old")
    case None
    show ?thesis
    proof (cases "Kinds old = []")
      case True
      then show ?thesis
        using add [of ns] wellNamed_types [OF c(3)] Some None e by (auto simp: diffScalar_def diffLeafBranch_def)
    next
      case False
      have "isolateBranch sp n KindLeaf = partS n" using isolate_leaf [OF sp(1) c(2)] Some by (simp add: S)
      then show ?thesis
        using branch_op [OF sp c(2) p, of KindLeaf old] False Some None e by (auto simp: diffScalar_def diffLeafBranch_def)
    qed
  next
    case os: (Some os)
    then have "set (typeDifference ns os) = set ns - set (scalarTypes old)" by (auto simp: typeDifference_def)
    then obtain xs where "(if typeDifference ns os = [] then Inr [] else oneOp (NewBroadenType sp path (typeDifference ns os))) = Inr xs"
        "merges sp ps old xs (partS n)"
      using add [of "typeDifference ns os"] os by auto
    then have "diffScalar sp path old n = Inr xs" "diffLeafBranch sp path old n = Inr []" "merges sp ps old xs (partS n)"
      using Some os by (simp_all add: diffScalar_def diffLeafBranch_def Let_def)
    then show ?thesis using e by blast
  qed
qed

subsection \<open>Children and elements\<close>

lemma splitSlash_snoc: "CHR ''/'' \<notin> set s \<Longrightarrow> splitSlash (p @ CHR ''/'' # s) = splitSlash p @ [s]"
proof (induction p)
  case (Cons c p)
  then show ?case using splitSlash_nonempty [of p] by (auto split: list.split)
qed (simp add: splitSlash_plain)

lemma segment_plain: "IsSegmentName name \<Longrightarrow> name \<noteq> [] \<and> name \<noteq> ''[]'' \<and> CHR ''/'' \<notin> set name"
  by (auto simp: IsSegmentName_def list_all_iff IsSegmentNameByte_def less_eq_char_def)

lemma pathParts_join:
  assumes "IsSegmentName name \<or> name = ''[]''"
  shows "pathParts (joinSchemaPath path name) = pathParts path @ [name]"
proof -
  have "name \<noteq> []" "CHR ''/'' \<notin> set name" using assms segment_plain by auto
  then show ?thesis by (auto simp: pathParts_def joinSchemaPath_def splitSlash_plain splitSlash_snoc)
qed

lemma merge_objectNodes:
  assumes "types_laws sp" "canon sp (objectNode a)" "canon sp (objectNode b)"
  shows "mergeNode sp (objectNode a) (objectNode b) = objectNode (fmJoin (mergeNode sp) a b)"
  using merge_object [OF assms] by (simp add: objectNode_def childrenOf_def)

lemma no_names_piece:
  assumes sp: "types_laws sp" "codec_laws sp" and c: "canon sp old" "canon sp n" "mergeNode sp old n = n" and ob: "n_Object old \<noteq> None"
  shows "diffObject sp path old n [] = Inr []" "merges sp ps old [] (objectNode fmempty)"
proof -
  have "fmlookup (childrenOf n) name \<noteq> None" if "name \<in> set (sp_Range sp (fmdom (childrenOf old)))" for name
  proof -
    have "name |\<in>| fmdom (childrenOf old)" using that sp(2) by (auto simp: codec_laws_def)
    then obtain d where "fmlookup (childrenOf old) name = Some d" by (auto simp: fmlookup_dom_iff)
    then show ?thesis using below_child [OF sp(1) c] by blast
  qed
  then show "diffObject sp path old n [] = Inr []" by (auto simp: list_ex_iff)
  have e: "canon sp (objectNode fmempty)" by (auto simp: fmlookup_ran'_iff)
  have "mergeNode sp k (objectNode fmempty) = k" if k: "canon sp k" "mergeNode sp old k = k" for k
  proof -
    have "fmJoin (mergeNode sp) (childrenOf k) fmempty = childrenOf k" by (rule fmap_eqI) simp
    then show ?thesis
      using merge_object [OF sp(1) k(1) e] above_branches(1) [OF sp(1) c(1) k ob] by (cases k) (auto simp: childrenOf_def)
  qed
  then show "merges sp ps old [] (objectNode fmempty)" using merges_nil [OF sp(1) e] by blast
qed

lemma names_piece:
  assumes sp: "types_laws sp" "codec_laws sp" and c: "canon sp old" "canon sp n" "wellNamed n" "mergeNode sp old n = n"
    and ob: "n_Object old \<noteq> None" and p: "pathParts path = ps"
    and rec: "\<And>name c d path'. fmlookup (childrenOf n) name = Some c \<Longrightarrow> fmlookup (childrenOf old) name = Some d \<Longrightarrow>
      \<exists>xs. diffNode sp path' d c = Inr xs \<and> merges sp (pathParts path') d xs c"
  shows "set names \<subseteq> fset (fmdom (childrenOf n)) \<Longrightarrow> distinct names \<Longrightarrow>
    \<exists>xs. diffObject sp path old n names = Inr xs \<and> merges sp ps old xs (objectNode (fmrestrict_set (set names) (childrenOf n)))"
proof (induction names)
  case Nil
  have "fmrestrict_set {} (childrenOf n) = fmempty" by (rule fmap_eqI) simp
  then show ?case using no_names_piece [OF sp c(1,2,4) ob] by auto
next
  case (Cons name names)
  let ?r = "\<lambda>ns. fmrestrict_set (set ns) (childrenOf n)"
  obtain ch where ch: "fmlookup (childrenOf n) name = Some ch" using Cons.prems(1) by (auto simp: fmlookup_dom_iff)
  note nm = segment_plain [OF wellNamed_name [OF c(3) ch]] and cc = canon_childOf [OF c(2) ch]
  obtain ys where ys: "diffObject sp path old n names = Inr ys" "merges sp ps old ys (objectNode (?r names))"
    using Cons by auto
  have "\<exists>xs. (case fmlookup (childrenOf old) name of
                 None \<Rightarrow> (case sp_Marshal sp ch of None \<Rightarrow> Inl (EncodeFailed (joinSchemaPath path name))
                                              | Some raw \<Rightarrow> Inr [NewAddProperty path name raw])
               | Some d \<Rightarrow> diffNode sp (joinSchemaPath path name) d ch) = Inr xs \<and>
             merges sp ps old xs (objectNode (fmupd name ch fmempty))"
  proof (cases "fmlookup (childrenOf old) name")
    case None
    then show ?thesis using property_op [OF sp cc p _ c(1) ob, of name] nm by auto
  next
    case (Some d)
    obtain xs where "diffNode sp (joinSchemaPath path name) d ch = Inr xs" "merges sp (pathParts (joinSchemaPath path name)) d xs ch"
      using rec [OF ch Some] by blast
    then show ?thesis
      using Some merges_child [OF sp(1) c(1) Some, of ps xs ch] nm wellNamed_name [OF c(3) ch] p by (simp add: pathParts_join)
  qed
  then obtain xs where xs: "diffObject sp path old n (name # names) = Inr (xs @ ys)"
      "merges sp ps old xs (objectNode (fmupd name ch fmempty))"
    using ch ys(1) by (auto simp: appendOps_def)
  have "fmJoin (mergeNode sp) (fmupd name ch fmempty) (?r names) = ?r (name # names)"
    using Cons.prems(2) ch by (intro fmap_eqI) auto
  then have "mergeNode sp (objectNode (fmupd name ch fmempty)) (objectNode (?r names)) = objectNode (?r (name # names))"
    using merge_objectNodes [OF sp(1)] xs(2) ys(2) by (simp add: merges_def)
  then show ?case using xs(1) merges_append [OF sp(1) c(1) xs(2) ys(2)] by auto
qed

lemma merge_array_none:
  assumes sp: "types_laws sp" and k: "canon sp k" "n_Array k \<noteq> None"
  shows "mergeNode sp k (NewArrayNode None) = k"
  using scalar_kept [OF sp k(1)] canon_marker [OF k(1)] k(2) unfolding mergeNode_eq [OF sp k(1) canon_simps(4)]
  by (cases "n_Scalar k"; intro node_eqI) (auto simp: NewArrayNode_def elementOf_def scalarTypes_def)

lemma leaf_types:
  assumes "types_laws sp" "canon sp e" "wellNamed e" "isScalarOnly e"
  shows "DeclaredTypes e \<noteq> []" "AddScalarTypes sp (DeclaredTypes e) emptyNode = e"
proof -
  have "DeclaredTypes e \<noteq> [] \<and> AddScalarTypes sp (DeclaredTypes e) emptyNode = e"
  proof (cases "n_Scalar e")
    case None
    then have "e = Node None None None True"
      using wellNamed_declares [OF assms(3)] assms(4) by (cases e) (simp add: isScalarOnly_def)
    then show ?thesis by (simp add: DeclaredTypes_def AddScalarTypes_def SetNullable_def emptyNode_def)
  next
    case (Some ts)
    then have "ts \<noteq> []" "Null \<notin> set ts" "sp_Types sp (set ts) = ts" "e = Node (Some ts) None None False"
      using wellNamed_types [OF assms(3)] canon_types [OF assms(2)] canon_Null [OF assms(2)] canon_marker [OF assms(2)] assms(4)
      by (cases e; auto simp: isScalarOnly_def)+
    then show ?thesis using AddScalarTypes_concrete [of ts sp emptyNode] by (simp add: DeclaredTypes_def)
  qed
  then show "DeclaredTypes e \<noteq> []" "AddScalarTypes sp (DeclaredTypes e) emptyNode = e" by blast+
qed

text \<open>Adding to an element the types the new one has beyond the old one is adding all of them.\<close>

lemma element_rest:
  assumes sp: "types_laws sp" and c: "canon sp d" "canon sp e" "wellNamed e" "mergeNode sp d e = e"
    and k: "canon sp k" "mergeNode sp d k = k"
  defines "added \<equiv> typeDifference (DeclaredTypes e) (DeclaredTypes d)"
  shows "AddScalarTypes sp (DeclaredTypes e) k = (if added = [] then k else AddScalarTypes sp added k)"
proof -
  have added: "set added = set (DeclaredTypes e) - set (DeclaredTypes d)" by (auto simp: added_def typeDifference_def)
  show ?thesis
  proof (cases "n_Scalar e")
    case None
    then have d: "n_Scalar d = None" using above_branches(3) [OF sp c(1,2,4)] by blast
    show ?thesis
    proof (cases "n_Nullable e \<and> n_Nullable d")
      case True
      then have "SetNullable k = k" using above_branches(4) [OF sp c(1) k] by (cases k) (auto simp: SetNullable_def)
      then show ?thesis using True None d by (simp add: DeclaredTypes_def AddScalarTypes_def added_def typeDifference_def)
    next
      case False
      then show ?thesis using None d by (auto simp: DeclaredTypes_def added_def typeDifference_def AddScalarTypes_def)
    qed
  next
    case (Some ns)
    have ns: "ns \<noteq> []" "Null \<notin> set ns" "DeclaredTypes e = ns"
      using wellNamed_types [OF c(3)] canon_Null [OF c(2) Some] Some by (auto simp: DeclaredTypes_def)
    have rest: "sp_Types sp (set (scalarTypes k) \<union> set added) = sp_Types sp (set (scalarTypes k) \<union> set ns)"
      using added ns(2,3) by (intro types_rest [OF sp above_branches(5) [OF sp c(1) k]])
        (auto simp: DeclaredTypes_def [of d] split: option.splits if_splits)
    show ?thesis
    proof (cases "added = []")
      case True
      then have "n_Scalar d \<noteq> None" using added ns by (cases ns) (auto simp: DeclaredTypes_def [of d] split: option.splits if_splits)
      then obtain ks where ks: "n_Scalar k = Some ks" using above_branches(3) [OF sp c(1) k] by auto
      then have "AddScalarTypes sp ns k = k"
        using AddScalarTypes_concrete [OF ns(1,2), of sp k] rest True canon_types [OF k(1) ks] canon_marker [OF k(1) ks]
        by (cases k) auto
      then show ?thesis using True ns(3) by simp
    next
      case False
      have "Null \<notin> set added" using added ns by auto
      then show ?thesis
        using AddScalarTypes_concrete [OF ns(1,2), of sp k] AddScalarTypes_concrete [OF False, of sp k] rest False ns(3) by simp
    qed
  qed
qed

declare diffNode.simps [simp del]

lemma items_piece:
  assumes sp: "types_laws sp" "codec_laws sp" and c: "canon sp old" "canon sp n" "wellNamed n" "mergeNode sp old n = n"
    and ar: "n_Array old \<noteq> None" and p: "pathParts path = ps"
    and e: "elementOf n = Some e" "isScalarOnly e" and d: "elementOf old = Some d"
  defines "added \<equiv> typeDifference (DeclaredTypes e) (DeclaredTypes d)"
  shows "\<exists>xs. (if added = [] then Inr [] else oneOp (NewAddArrayItemType sp path added)) = Inr xs \<and> merges sp ps old xs (partA n)"
proof -
  have A: "partA n = NewArrayNode (Some e)" using e(1) by (simp add: partA_def NewArrayNode_def elementOf_Some)
  obtain below: "mergeNode sp d e = e" using below_element [OF sp(1) c(1,2,4) d] e(1) by auto
  note cd = canon_elementOf [OF c(1) d] and ce = canon_elementOf [OF c(2) e(1)] and we = wellNamed_element [OF c(3) e(1)]
    and cA = parts_canon(4) [OF c(2)]
  note lt = leaf_types [OF sp(1) ce we e(2)]
  have "mergeNode sp k (NewArrayNode (Some e)) = (if added = [] then k else mergeNode sp k (NewArrayNode (Some (AddScalarTypes sp added emptyNode))))"
    if k: "canon sp k" "mergeNode sp old k = k" for k
  proof -
    obtain q where q: "elementOf k = Some q" "mergeNode sp d q = q" using below_element [OF sp(1) c(1) k d] by blast
    note cq = canon_elementOf [OF k(1) q(1)]
    have "mergeNode sp q e = AddScalarTypes sp (DeclaredTypes e) q" using merge_types [OF sp(1) cq lt(1)] lt(2) by simp
    then have "mergeNode sp q e = (if added = [] then q else mergeNode sp q (AddScalarTypes sp added emptyNode))"
      using element_rest [OF sp(1) cd ce we below cq q(2)] merge_types [OF sp(1) cq, of added] by (simp add: added_def)
    moreover have "SetElement q k = k" using q(1) by (cases k) (simp add: SetElement_def elementOf_Some)
    ultimately show ?thesis
      using merge_array [OF sp(1) k(1) ce] merge_array [OF sp(1) k(1) canon_AddScalar [OF sp(1) canon_simps(1)]] q(1) by simp
  qed
  moreover have "n_Array k \<noteq> None" if "canon sp k" "mergeNode sp old k = k" for k
    by (rule above_branches(2) [OF sp(1) c(1) that ar])
  ultimately show ?thesis
    using item_op [OF sp cA p, of added old] merges_nil [OF sp(1) cA, of old ps] A by (cases "added = []") simp_all
qed

lemma array_piece:
  assumes sp: "types_laws sp" "codec_laws sp" and c: "canon sp old" "canon sp n" "wellNamed n" "mergeNode sp old n = n"
    and ar: "n_Array old \<noteq> None" "n_Array n \<noteq> None" and p: "pathParts path = ps"
    and rec: "\<And>e d path'. elementOf n = Some e \<Longrightarrow> elementOf old = Some d \<Longrightarrow>
      \<exists>xs. diffNode sp path' d e = Inr xs \<and> merges sp (pathParts path') d xs e"
  shows "\<exists>xs. diffArray sp path old n = Inr xs \<and> merges sp ps old xs (partA n)"
proof (cases "elementOf n")
  case None
  then have "elementOf old = None" using below_element [OF sp(1) c(1,2,4)] by (cases "elementOf old") auto
  moreover have "partA n = NewArrayNode None" using None ar(2) by (auto simp: partA_def NewArrayNode_def elementOf_def split: option.splits)
  ultimately show ?thesis
    using None merges_nil [OF sp(1) canon_simps(4), of old] merge_array_none [OF sp(1)] above_branches(2) [OF sp(1) c(1) _ _ ar(1)]
    by auto
next
  case (Some e)
  have A: "partA n = NewArrayNode (Some e)" using Some by (simp add: partA_def NewArrayNode_def elementOf_Some)
  note ce = canon_elementOf [OF c(2) Some] and we = wellNamed_element [OF c(3) Some] and cA = parts_canon(4) [OF c(2)]
  have arr: "n_Array k \<noteq> None" if "canon sp k" "mergeNode sp old k = k" for k
    by (rule above_branches(2) [OF sp(1) c(1) that ar(1)])
  show ?thesis
  proof (cases "elementOf old")
    case None
    show ?thesis
    proof (cases "isScalarOnly e")
      case True
      note lt = leaf_types [OF sp(1) ce we True]
      then show ?thesis
        using item_op [OF sp cA p lt(1), of old] arr A Some None True by (auto simp: isScalarOnly_def)
    next
      case False
      then show ?thesis
        using branch_op [OF sp c(2) p, of KindArray old] Some None by (auto simp: isolate_array A isScalarOnly_def)
    qed
  next
    case (Some d)
    show ?thesis
    proof (cases "isScalarOnly d \<and> isScalarOnly e")
      case True
      then show ?thesis
        using items_piece [OF sp c ar(1) p \<open>elementOf n = Some e\<close> conjunct2 [OF True] Some] Some \<open>elementOf n = Some e\<close>
        by (simp add: Let_def cong: if_cong)
    next
      case False
      obtain xs where "diffNode sp (joinSchemaPath path ''[]'') d e = Inr xs" "merges sp (pathParts (joinSchemaPath path ''[]'')) d xs e"
        using rec [OF \<open>elementOf n = Some e\<close> Some] by blast
      then show ?thesis
        using False Some \<open>elementOf n = Some e\<close> merges_element [OF sp(1) c(1) Some, of ps xs e] p A
        by (intro exI [of _ xs]) (auto simp: pathParts_join)
    qed
  qed
qed

subsection \<open>The difference of two models\<close>

lemma object_piece:
  assumes sp: "types_laws sp" "codec_laws sp" and c: "canon sp old" "canon sp n" "wellNamed n" "mergeNode sp old n = n"
    and p: "pathParts path = ps"
    and rec: "\<And>name c d path'. fmlookup (childrenOf n) name = Some c \<Longrightarrow> fmlookup (childrenOf old) name = Some d \<Longrightarrow>
      \<exists>xs. diffNode sp path' d c = Inr xs \<and> merges sp (pathParts path') d xs c"
  shows "\<exists>xs. (if n_Object n = None then Inr []
               else if n_Object old = None then emitAddKindBranch sp path KindObject n
               else diffObject sp path old n (sp_Range sp (fmdom (childrenOf n)))) = Inr xs \<and> merges sp ps old xs (partO n)"
proof (cases "n_Object n")
  case None
  then have "partO n = emptyNode" by (simp add: partO_def emptyNode_def)
  then show ?thesis using None merges_emptyNode [OF sp(1)] by simp
next
  case (Some cs)
  have O: "partO n = objectNode (childrenOf n)" using Some by (simp add: partO_def objectNode_def childrenOf_def)
  show ?thesis
  proof (cases "n_Object old")
    case None
    then show ?thesis using Some branch_op [OF sp c(2) p, of KindObject old] by (simp add: O isolate_object)
  next
    case (Some cs')
    have r: "set (sp_Range sp (fmdom (childrenOf n))) = fset (fmdom (childrenOf n))" "distinct (sp_Range sp (fmdom (childrenOf n)))"
      using sp(2) by (simp_all add: codec_laws_def)
    have "fmrestrict_set (fset (fmdom (childrenOf n))) (childrenOf n) = childrenOf n"
      by (rule fmap_eqI) (auto simp: fmlookup_dom_iff)
    then show ?thesis
      using names_piece [OF sp c _ p, of "sp_Range sp (fmdom (childrenOf n))"] rec r Some \<open>n_Object n = Some cs\<close> by (simp add: O)
  qed
qed

lemma diff_additive:
  assumes "types_laws sp" "canon sp old" "canon sp n" "mergeNode sp old n = n"
  shows "\<not> list_ex (\<lambda>k. k \<notin> set (Kinds n)) (Kinds old)" "\<not> (n_Nullable old \<and> \<not> n_Nullable n \<and> n_Scalar n = None)"
proof -
  show "\<not> list_ex (\<lambda>k. k \<notin> set (Kinds n)) (Kinds old)"
    using above_branches(1-3) [OF assms] by (cases "n_Scalar old"; cases "n_Object old"; cases "n_Array old") (auto simp: Kinds_def)
  show "\<not> (n_Nullable old \<and> \<not> n_Nullable n \<and> n_Scalar n = None)" using above_branches(4) [OF assms] by blast
qed

lemma diff_merges:
  assumes sp: "types_laws sp" "codec_laws sp"
  shows "canon sp old \<Longrightarrow> canon sp n \<Longrightarrow> wellNamed n \<Longrightarrow> mergeNode sp old n = n \<Longrightarrow>
    \<exists>xs. diffNode sp path old n = Inr xs \<and> merges sp (pathParts path) old xs n"
proof (induction n arbitrary: old path rule: node_induct)
  case (node n)
  note c = node.prems
  have recO: "\<exists>xs. diffNode sp path' d c = Inr xs \<and> merges sp (pathParts path') d xs c"
    if ch: "fmlookup (childrenOf n) name = Some c" "fmlookup (childrenOf old) name = Some d" for name c d path'
    using ch below_child [OF sp(1) c(1,2,4) ch(2)] canon_childOf [OF c(1) ch(2)] canon_childOf [OF c(2) ch(1)] wellNamed_child [OF c(3) ch(1)]
    by (intro node.IH(1)) (auto simp: childrenOf_def split: option.splits)
  have recA: "\<exists>xs. diffNode sp path' d e = Inr xs \<and> merges sp (pathParts path') d xs e"
    if el: "elementOf n = Some e" "elementOf old = Some d" for e d path'
    using el below_element [OF sp(1) c(1,2,4) el(2)] canon_elementOf [OF c(1) el(2)] canon_elementOf [OF c(2) el(1)] wellNamed_element [OF c(3) el(1)]
    by (intro node.IH(2)) (auto simp: elementOf_Some)
  obtain ns where ns: "diffNullable sp path old n = Inr ns" "merges sp (pathParts path) old ns (partN n)"
    using nullable_piece [OF sp c(1,2) refl] by blast
  obtain x y xs ys where xy: "diffScalar sp path old n = Inr xs" "diffLeafBranch sp path old n = Inr ys"
      "merges sp (pathParts path) old xs x" "merges sp (pathParts path) old ys y"
      "(x = partS n \<and> y = emptyNode) \<or> (x = emptyNode \<and> y = partS n)"
    using scalar_piece [OF sp c(1-3) refl] by blast
  let ?ob = "if n_Object n = None then Inr [] else if n_Object old = None then emitAddKindBranch sp path KindObject n
             else diffObject sp path old n (sp_Range sp (fmdom (childrenOf n)))"
  let ?ar = "if n_Array n = None then Inr [] else if n_Array old = None then emitAddKindBranch sp path KindArray n
             else diffArray sp path old n"
  obtain os where os: "?ob = Inr os" "merges sp (pathParts path) old os (partO n)"
    using object_piece [OF sp c refl, of path] recO by blast
  have "\<exists>as. ?ar = Inr as \<and> merges sp (pathParts path) old as (partA n)"
  proof (cases "n_Array n")
    case None
    then show ?thesis using merges_emptyNode [OF sp(1)] by (simp add: partA_def emptyNode_def)
  next
    case (Some el)
    then have "isolateBranch sp n KindArray = partA n" by (simp add: isolate_array partA_def NewArrayNode_def elementOf_def)
    then show ?thesis
      using Some branch_op [OF sp c(2) refl, of path KindArray old] array_piece [OF sp c _ _ refl, of path] recA
      by (cases "n_Array old") simp_all
  qed
  then obtain as where as: "?ar = Inr as" "merges sp (pathParts path) old as (partA n)" by blast
  have "diffNode sp path old n = Inr (ns @ xs @ os @ as @ ys)"
    using diff_additive [OF sp(1) c(1,2,4)] ns(1) xy(1,2) os(1) as(1)
    by (simp add: diffNode.simps [of sp path old n] appendOps_def)
  moreover have "merges sp (pathParts path) old (ns @ xs @ os @ as @ ys) n"
    using parts_join [OF sp(1) c(2) xy(5)] ns(2) xy(3,4) os(2) as(2) by (metis merges_append [OF sp(1) c(1)])
  ultimately show ?case by blast
qed

lemma Apply_eq:
  "codec_laws sp \<Longrightarrow> canon sp cur \<Longrightarrow>
     Apply sp cur delta = (case UnmarshalDelta sp delta of Inl err \<Rightarrow> Inl err | Inr xs \<Rightarrow> applyOps sp xs cur)"
  using codec_round [of sp cur] by (auto simp: Apply_def cloneNode_def)

lemma delta_round:
  "codec_laws sp \<Longrightarrow> \<exists>b. MarshalDelta sp xs = Inr b \<and> UnmarshalDelta sp b = Inr xs \<and> (b = [] \<longleftrightarrow> xs = [])"
  by (cases "xs = []") (fastforce simp: MarshalDelta_def UnmarshalDelta_def codec_laws_def)+

text \<open>
  A difference exists for every model above the old one, and replayed on any model above the old one it merges the
  new model; an empty difference merges nothing.
\<close>

lemma Diff_Apply:
  assumes sp: "types_laws sp" "codec_laws sp" and c: "canon sp old" "canon sp n" "wellNamed n" "mergeNode sp old n = n"
  shows "\<exists>delta. Diff sp old n = Inr delta \<and>
    (\<forall>cur. canon sp cur \<longrightarrow> mergeNode sp old cur = cur \<longrightarrow> Apply sp cur delta = Inr (mergeNode sp cur n) \<and>
       (delta = [] \<longrightarrow> mergeNode sp cur n = cur))"
proof -
  obtain xs where xs: "diffNode sp [] old n = Inr xs" "merges sp [] old xs n"
    using diff_merges [OF sp c, of "[]"] by (auto simp: pathParts_def)
  obtain b where b: "MarshalDelta sp xs = Inr b" "UnmarshalDelta sp b = Inr xs" "b = [] \<longleftrightarrow> xs = []"
    using delta_round [OF sp(2)] by blast
  have "applyOps sp xs cur = Inr (mergeNode sp cur n)" if "canon sp cur" "mergeNode sp old cur = cur" for cur
    using xs(2) that by (simp add: merges_def)
  then show ?thesis using xs(1) b by (auto simp: Diff_def Apply_eq [OF sp(2)])
qed

text \<open>Replaying a delta on a larger model: it still applies, and adds the same.\<close>

lemma Apply_larger:
  assumes sp: "types_laws sp" "codec_laws sp" and c: "canon sp base" "canon sp x" and r: "Apply sp base delta = Inr r"
  shows "Apply sp (mergeNode sp base x) delta = Inr (mergeNode sp r x) \<and> canon sp r \<and> mergeNode sp base r = r"
proof -
  obtain xs where xs: "UnmarshalDelta sp delta = Inr xs" "applyOps sp xs base = Inr r"
    using r by (auto simp: Apply_eq [OF sp(2) c(1)] split: sum.splits)
  show ?thesis using applyOps_larger [OF sp c(2,1) xs(2)] xs(1) by (simp add: Apply_eq [OF sp(2) merge_canon [OF sp(1) c]])
qed

lemma Extend_above:
  assumes "schema_laws sp" "builtNode sp m" "decoded sp v" "Extend sp m v level = Inr m'"
  shows "builtNode sp m' \<and> mergeNode sp m m' = m' \<and> accepts sp m' v \<and> height v \<le> MaxValidationDepth"
proof -
  obtain ov where ov: "m' = extended sp m ov" "\<forall>n. ov = Some n \<longrightarrow> builtNode sp n" "accepts sp m' v" "height v \<le> MaxValidationDepth"
    using Extend_result [OF assms] by blast
  note t = laws_types [OF assms(1)]
  have c: "canon sp m" using assms(2) by (simp add: builtNode_def)
  show ?thesis
  proof (cases ov)
    case None
    then show ?thesis using ov assms(2) merge_idem [OF t c] by (simp add: extended_def)
  next
    case (Some n)
    then have n: "builtNode sp n" "canon sp n" using ov(2) by (simp_all add: builtNode_def)
    then show ?thesis
      using Some ov builtNode_merge [OF t assms(2) n(1)] merge_assoc [OF t c c n(2)] merge_idem [OF t c] by (simp add: extended_def)
  qed
qed

lemma Validate_above:
  assumes "schema_laws sp" "canon sp a" "canon sp b" "mergeNode sp a b = b" "Validate sp a v = []"
  shows "Validate sp b v = []"
  using accepts_merge [OF assms(1-3)] assms(4,5) by (simp add: Validate_iff)

end
