(* ===== verification/SchemaPlain.thy ===== *)
theory SchemaPlain
  imports SchemaNode
begin

text \<open>
  A storage interface that satisfies \<open>schema_laws\<close>, for the examples: type sets that keep every type, decimal
  digits for numbers, and a codec that writes a node or a list of operations as nested parentheses and reads
  it back. The codec is executable; \<open>decSx\<close> runs on as much fuel as its input is long.
\<close>

datatype sx = Sx string "sx list"

subsection \<open>Nested parentheses\<close>

fun encStr :: "string \<Rightarrow> string" where
  "encStr [] = ''.''"
| "encStr (c # cs) = CHR ''c'' # c # encStr cs"

fun decStr :: "string \<Rightarrow> (string \<times> string) option" where
  "decStr (a # r) =
     (if a = CHR ''.'' then Some ([], r)
      else case r of [] \<Rightarrow> None | c # r' \<Rightarrow> (case decStr r' of None \<Rightarrow> None | Some (s, q) \<Rightarrow> Some (c # s, q)))"
| "decStr [] = None"

fun encSx :: "sx \<Rightarrow> string" and encSxs :: "sx list \<Rightarrow> string" where
  "encSx (Sx s xs) = encStr s @ encSxs xs"
| "encSxs [] = '')''"
| "encSxs (x # xs) = CHR ''('' # encSx x @ encSxs xs"

fun decSx :: "nat \<Rightarrow> string \<Rightarrow> (sx \<times> string) option" and decSxs :: "nat \<Rightarrow> string \<Rightarrow> (sx list \<times> string) option" where
  "decSx 0 s = None"
| "decSx (Suc f) s =
     (case decStr s of
        None \<Rightarrow> None
      | Some (a, r) \<Rightarrow> (case decSxs f r of None \<Rightarrow> None | Some (xs, q) \<Rightarrow> Some (Sx a xs, q)))"
| "decSxs 0 s = None"
| "decSxs (Suc f) [] = None"
| "decSxs (Suc f) (c # r) =
     (if c = CHR '')'' then Some ([], r)
      else case decSx f r of
             None \<Rightarrow> None
           | Some (x, q) \<Rightarrow> (case decSxs f q of None \<Rightarrow> None | Some (xs, q') \<Rightarrow> Some (x # xs, q')))"

definition readSx :: "string \<Rightarrow> sx option" where
  "readSx b = (case decSx (length b) b of Some (x, []) \<Rightarrow> Some x | _ \<Rightarrow> None)"

subsection \<open>Types, numbers, nodes and operations\<close>

definition allTypes :: "DataType list" where
  "allTypes = [Integer, Long, BigInteger, UnboundInteger, Double, BigDecimal, UnboundDecimal, String, Character, LocalDate,
     LocalDateTime, LocalTime, ZonedDateTime, Year, YearMonth, UUIDType, TimeUUIDType, ByteArray, Boolean, Null]"

fun plainName :: "DataType \<Rightarrow> string" where
  "plainName Integer = ''INTEGER''" | "plainName Long = ''LONG''" | "plainName BigInteger = ''BIG_INTEGER''"
| "plainName UnboundInteger = ''UNBOUND_INTEGER''" | "plainName Double = ''DOUBLE''" | "plainName BigDecimal = ''BIG_DECIMAL''"
| "plainName UnboundDecimal = ''UNBOUND_DECIMAL''" | "plainName String = ''STRING''" | "plainName Character = ''CHARACTER''"
| "plainName LocalDate = ''LOCAL_DATE''" | "plainName LocalDateTime = ''LOCAL_DATE_TIME''" | "plainName LocalTime = ''LOCAL_TIME''"
| "plainName ZonedDateTime = ''ZONED_DATE_TIME''" | "plainName Year = ''YEAR''" | "plainName YearMonth = ''YEAR_MONTH''"
| "plainName UUIDType = ''UUID''" | "plainName TimeUUIDType = ''TIME_UUID''" | "plainName ByteArray = ''BYTE_ARRAY''"
| "plainName Boolean = ''BOOLEAN''" | "plainName Null = ''NULL''"

definition plainParse :: "string \<Rightarrow> DataType option" where
  "plainParse s = find (\<lambda>dt. plainName dt = s) allTypes"

definition plainAdmits :: "DataType \<Rightarrow> Decimal \<Rightarrow> bool" where
  "plainAdmits dt d \<longleftrightarrow>
     dt = UnboundDecimal \<or>
     (d_Scale d \<le> 0 \<and> (dt = UnboundInteger \<or> (dt = Integer \<and> \<bar>d_Unscaled d * 10 ^ nat (- d_Scale d)\<bar> < 2147483648)))"

definition plainDecimal :: "string \<Rightarrow> Decimal option" where
  "plainDecimal s =
     (if s \<noteq> [] \<and> list_all (\<lambda>c. CHR ''0'' \<le> c \<and> c \<le> CHR ''9'') s
      then Some \<lparr>d_Unscaled = foldl (\<lambda>acc c. 10 * acc + (int (of_char c) - 48)) 0 s, d_Scale = 0\<rparr> else None)"

primrec nodeSx :: "ModelNode \<Rightarrow> sx" where
  "nodeSx (Node s ob ar nl) =
     Sx (if nl then ''T'' else ''F'')
       [case s of None \<Rightarrow> Sx ''n'' [] | Some ts \<Rightarrow> Sx ''s'' (map (\<lambda>t. Sx (plainName t) []) ts),
        case map_option (fmmap nodeSx) ob of
          None \<Rightarrow> Sx ''n'' [] | Some cs \<Rightarrow> Sx ''o'' (map (\<lambda>(k, x). Sx k [x]) (sorted_list_of_fmap cs)),
        case map_option (map_option nodeSx) ar of
          None \<Rightarrow> Sx ''n'' [] | Some None \<Rightarrow> Sx ''e'' [] | Some (Some x) \<Rightarrow> Sx ''a'' [x]]"

fun sxNode :: "sx \<Rightarrow> ModelNode option" and sxKids :: "sx list \<Rightarrow> (string \<times> ModelNode) list option" where
  "sxNode (Sx f [Sx g ts, Sx h cs, Sx e xs]) =
     (case (those (map (\<lambda>t. case t of Sx nm _ \<Rightarrow> plainParse nm) ts), sxKids cs,
            case xs of [] \<Rightarrow> Some None | x # _ \<Rightarrow> map_option Some (sxNode x)) of
        (Some tys, Some kids, Some el) \<Rightarrow>
          Some (Node (if g = ''s'' then Some tys else None) (if h = ''o'' then Some (fmap_of_list kids) else None)
                     (if e = ''n'' then None else Some el) (f = ''T''))
      | _ \<Rightarrow> None)"
| "sxNode _ = None"
| "sxKids [] = Some []"
| "sxKids (Sx k [x] # r) =
     (case (sxNode x, sxKids r) of (Some n, Some ns) \<Rightarrow> Some ((k, n) # ns) | _ \<Rightarrow> None)"
| "sxKids _ = None"

fun kindSx :: "SchemaOpKind \<Rightarrow> string" where
  "kindSx KindAddProperty = ''p''" | "kindSx KindBroadenType = ''b''" | "kindSx KindAddArrayItemType = ''i''"
| "kindSx KindAddKindBranch = ''k''" | "kindSx (KindUnknown u) = CHR ''u'' # u"

fun sxKind :: "string \<Rightarrow> SchemaOpKind" where
  "sxKind s = (if s = ''p'' then KindAddProperty else if s = ''b'' then KindBroadenType else if s = ''i'' then KindAddArrayItemType
     else if s = ''k'' then KindAddKindBranch else KindUnknown (tl s))"

definition opSx :: "SchemaOp \<Rightarrow> sx" where
  "opSx op = Sx (kindSx (op_Kind op))
     [Sx (op_Path op) [], Sx (op_Name op) [],
      case op_Payload op of PNode b \<Rightarrow> Sx (CHR ''n'' # b) [] | PNames ns \<Rightarrow> Sx ''t'' (map (\<lambda>s. Sx s []) ns)]"

fun sxOp :: "sx \<Rightarrow> SchemaOp option" where
  "sxOp (Sx k [Sx p _, Sx nm _, Sx (t # b) ns]) =
     Some \<lparr>op_Kind = sxKind k, op_Path = p, op_Name = nm,
           op_Payload = if t = CHR ''n'' then PNode b else PNames (map (\<lambda>x. case x of Sx s _ \<Rightarrow> s) ns)\<rparr>"
| "sxOp _ = None"

definition plainTypes :: "DataType set \<Rightarrow> DataType list" where
  "plainTypes A = filter (\<lambda>dt. dt \<in> A) allTypes"

primrec plainCanon :: "ModelNode \<Rightarrow> bool" where
  "plainCanon (Node s ob ar nl) \<longleftrightarrow>
     (case s of None \<Rightarrow> True | Some ts \<Rightarrow> plainTypes (set ts) = ts \<and> Null \<notin> set ts \<and> \<not> nl) \<and>
     (case map_option (fmmap plainCanon) ob of None \<Rightarrow> True | Some bs \<Rightarrow> fmpred (\<lambda>_ b. b) bs) \<and>
     (case map_option (map_option plainCanon) ar of Some (Some b) \<Rightarrow> b | _ \<Rightarrow> True)"

definition plainSchema :: SchemaSpi where
  "plainSchema =
     \<lparr>sp_Types = plainTypes, sp_ParseDecimal = plainDecimal, sp_StripTrailingZeros = (\<lambda>d. d), sp_Precision = (\<lambda>_. 0),
      sp_AdmitsNumeric = plainAdmits, sp_ClassifyInteger = (\<lambda>i. if \<bar>i\<bar> < 2147483648 then Integer else UnboundInteger),
      sp_ClassifyDecimal = (\<lambda>_. UnboundDecimal), sp_ClassifyTemporalString = (\<lambda>_. None),
      sp_TypeName = plainName, sp_ParseDataType = plainParse,
      sp_Marshal = (\<lambda>n. Some (encSx (nodeSx n))),
      sp_Unmarshal = (\<lambda>b. case readSx b of
                             None \<Rightarrow> None
                           | Some x \<Rightarrow> (case sxNode x of None \<Rightarrow> None | Some n \<Rightarrow> if plainCanon n then Some n else None)),
      sp_MarshalOps = (\<lambda>xs. Some (encSx (Sx [] (map opSx xs)))),
      sp_UnmarshalOps = (\<lambda>b. case readSx b of None \<Rightarrow> None | Some (Sx _ xs) \<Rightarrow> those (map sxOp xs)),
      sp_Fields = (\<lambda>n. map (\<lambda>(k, c). (''$.'' @ k, n_Array c \<noteq> None)) (sorted_list_of_fmap (childrenOf n))),
      sp_Range = sorted_list_of_fset\<rparr>"

subsection \<open>The codec reads back what it wrote\<close>

lemma dec_encStr: "decStr (encStr s @ r) = Some (s, r)"
  by (induction s) auto

lemma dec_encSx:
  "length (encSx x) \<le> f \<Longrightarrow> decSx f (encSx x @ r) = Some (x, r)"
  "length (encSxs xs) \<le> f \<Longrightarrow> decSxs f (encSxs xs @ r) = Some (xs, r)"
proof (induction x and xs arbitrary: f r and f r rule: encSx_encSxs.induct)
  case (1 s xs)
  have "1 \<le> length (encStr s)" by (cases s) auto
  then obtain g where "f = Suc g" "length (encSxs xs) \<le> g" using 1(2) by (cases f) auto
  then show ?case using 1(1) by (simp add: dec_encStr)
next
  case 2
  then show ?case by (cases f) auto
next
  case (3 x xs)
  obtain g where g: "f = Suc g" "length (encSx x) \<le> g" "length (encSxs xs) \<le> g" using 3(3) by (cases f) auto
  then show ?case using 3(1) [OF g(2)] 3(2) [OF g(3)] by simp
qed

lemma read_encSx: "readSx (encSx x) = Some x"
  using dec_encSx(1) [of x "length (encSx x)" "[]"] by (simp add: readSx_def)

lemma allTypes_set: "dt \<in> set allTypes"
  by (cases dt) (simp_all add: allTypes_def)

lemma plainParse_name: "plainParse (plainName dt) = Some dt"
  by (cases dt) (simp_all add: plainParse_def allTypes_def)

lemma sxKids_map:
  "\<forall>n \<in> snd ` set kvs. sxNode (nodeSx n) = Some n \<Longrightarrow> sxKids (map (\<lambda>(k, n). Sx k [nodeSx n]) kvs) = Some kvs"
  by (induction kvs) auto

lemma sorted_fmmap: "sorted_list_of_fmap (fmmap f m) = map (\<lambda>(k, v). (k, f v)) (sorted_list_of_fmap m)"
  by (auto simp: sorted_list_of_fmap_def sorted_list_of_fset.rep_eq fmlookup_dom_iff)

lemma fmap_of_sorted: "fmap_of_list (sorted_list_of_fmap m) = m"
  by (rule fmap_eqI) (simp add: fmlookup_of_list)

lemma sxNode_nodeSx: "sxNode (nodeSx n) = Some n"
proof (induction n rule: node_induct)
  case (node n)
  obtain s ob ar nl where n: "n = Node s ob ar nl" by (cases n)
  have ty: "those (map (\<lambda>t. case t of Sx nm _ \<Rightarrow> plainParse nm) (map (\<lambda>t. Sx (plainName t) []) ts)) = Some ts" for ts
    by (induction ts) (simp_all add: plainParse_name)
  have kid: "sxKids (map (\<lambda>(k, x). Sx k [x]) (sorted_list_of_fmap (fmmap nodeSx cs))) = Some (sorted_list_of_fmap cs)"
    if "ob = Some cs" for cs
  proof -
    have "sxNode (nodeSx c) = Some c" if "(k, c) \<in> set (sorted_list_of_fmap cs)" for k c
      using node.IH(1) [of cs k c] that \<open>ob = Some cs\<close> n map_of_sorted_list [of cs]
      by (auto simp: sorted_list_of_fmap_def fmlookup_dom_iff sorted_list_of_fset.rep_eq)
    then have "\<forall>c \<in> snd ` set (sorted_list_of_fmap cs). sxNode (nodeSx c) = Some c" by auto
    then show ?thesis using sxKids_map [of "sorted_list_of_fmap cs"] by (simp add: sorted_fmmap comp_def case_prod_unfold)
  qed
  have el: "sxNode (nodeSx e) = Some e" if "ar = Some (Some e)" for e using node.IH(2) [of e] that n by simp
  show ?case
    using ty kid el by (cases s; cases ob; cases ar; cases "the ar") (simp_all add: n fmap_of_sorted)
qed

lemma sxOp_opSx: "sxOp (opSx op) = Some op"
proof -
  have "sxKind (kindSx k) = k" for k by (cases k) auto
  then show ?thesis by (cases op; cases "op_Payload op") (auto simp: opSx_def comp_def)
qed

lemma sxOps_opSx: "those (map sxOp (map opSx xs)) = Some xs"
  by (induction xs) (simp_all add: sxOp_opSx)

subsection \<open>The laws\<close>

lemma plainTypes_set [simp]: "set (plainTypes A) = A"
  using allTypes_set by (auto simp: plainTypes_def)

lemma plainTypes_idem: "plainTypes (set (plainTypes A) \<union> B) = plainTypes (A \<union> B)"
  by simp

lemma plain_fields:
  "sp_Types plainSchema = plainTypes" "sp_TypeName plainSchema = plainName" "sp_ParseDataType plainSchema = plainParse"
  "sp_Marshal plainSchema n = Some (encSx (nodeSx n))" "sp_MarshalOps plainSchema xs = Some (encSx (Sx [] (map opSx xs)))"
  "sp_Unmarshal plainSchema b = (case readSx b of None \<Rightarrow> None
     | Some x \<Rightarrow> (case sxNode x of None \<Rightarrow> None | Some n \<Rightarrow> if plainCanon n then Some n else None))"
  "sp_UnmarshalOps plainSchema b = (case readSx b of None \<Rightarrow> None | Some (Sx _ ys) \<Rightarrow> those (map sxOp ys))"
  "sp_Range plainSchema = sorted_list_of_fset"
  by (simp_all add: plainSchema_def)

lemma plain_canon: "plainCanon n = canon plainSchema n"
proof (induction n rule: node_induct)
  case (node n)
  obtain s ob ar nl where n: "n = Node s ob ar nl" by (cases n)
  have "(case map_option (fmmap plainCanon) ob of None \<Rightarrow> True | Some bs \<Rightarrow> fmpred (\<lambda>_ b. b) bs) =
      (\<forall>cs c. ob = Some cs \<longrightarrow> c \<in> fmran' cs \<longrightarrow> canon plainSchema c)"
    using node.IH(1) n by (cases ob) (simp, fastforce simp: fmpred_iff fmlookup_ran'_iff)
  moreover have "(case map_option (map_option plainCanon) ar of Some (Some b) \<Rightarrow> b | _ \<Rightarrow> True) =
      (\<forall>e. ar = Some (Some e) \<longrightarrow> canon plainSchema e)"
    using node.IH(2) n by (cases ar; cases "the ar") auto
  ultimately show ?case by (cases s) (simp_all add: n, simp_all add: plainSchema_def)
qed

lemma plain_laws: "schema_laws plainSchema"
proof -
  have "plainTypes A = [] \<longleftrightarrow> A = {}" for A by (metis plainTypes_set set_empty)
  then have "types_laws plainSchema" by (simp add: types_laws_def plainSchema_def)
  moreover have "admission_laws plainSchema" by (auto simp: admission_laws_def plainSchema_def)
  moreover have "classify_laws plainSchema" by (auto simp: classify_laws_def plainSchema_def plainAdmits_def numeric_def)
  moreover have "codec_laws plainSchema"
    unfolding codec_laws_def
  proof (intro conjI allI impI)
    show "\<exists>b. sp_Marshal plainSchema n = Some b \<and> sp_Unmarshal plainSchema b = Some n" if "canon plainSchema n" for n
      using that by (simp add: plain_fields read_encSx sxNode_nodeSx plain_canon)
    show "canon plainSchema n" if "sp_Unmarshal plainSchema b = Some n" for b n
      using that by (simp add: plain_fields plain_canon split: option.splits if_splits)
    show "sp_TypeName plainSchema dt \<noteq> ''UNKNOWN''" for dt by (cases dt) (simp_all add: plain_fields)
    show "sp_ParseDataType plainSchema (sp_TypeName plainSchema dt) = Some dt" for dt by (simp add: plain_fields plainParse_name)
    show "\<exists>b. b \<noteq> [] \<and> sp_MarshalOps plainSchema xs = Some b \<and> sp_UnmarshalOps plainSchema b = Some xs" for xs
      using read_encSx [of "Sx [] (map opSx xs)"] sxOps_opSx [of xs] by (simp add: plain_fields)
    show "set (sp_Range plainSchema S) = fset S" "distinct (sp_Range plainSchema S)" for S
      by (simp_all add: plain_fields sorted_list_of_fset.rep_eq)
  qed
  ultimately show ?thesis by (simp add: schema_laws_def)
qed

end
