(* ===== verification/SchemaProperties.thy ===== *)
theory SchemaProperties
  imports SchemaConverge SchemaPlain
begin

text \<open>
  What the schema code promises: extension is sound, the change level is a ladder over one traversal, a difference
  is replayed exactly, and deltas converge whatever the order they arrive in.
\<close>

lemma Extend_unchanged: "Validate sp m v = [] \<Longrightarrow> Extend sp m v level = Inr m"
  using node_accepting [of sp m v 0 False "[]" "[]" ChangeLevelType] by (simp add: Validate_iff Extend_def Admit_def)

lemma Extend_none: "Extend sp m v ChangeLevelNone = Inr m' \<Longrightarrow> Validate sp m v = []"
proof -
  assume x: "Extend sp m v ChangeLevelNone = Inr m'"
  then obtain ov chs where a: "node sp False m v [] [] 0 ChangeLevelType = Inr (ov, chs)"
    by (auto simp: Extend_def Admit_def split: sum.splits)
  have "chs = []"
  proof (rule ccontr)
    assume "chs \<noteq> []"
    then obtain c cs where chs: "chs = c # cs" by (cases chs) auto
    then have "ch_Required c \<noteq> ChangeLevelNone" using changes_cost(1) [OF a] by simp
    then have "\<not> levelPermits ChangeLevelNone (ch_Required c)" by (cases "ch_Required c") (simp_all add: levelPermits_def)
    then show False using x a chs by (simp add: Extend_def Admit_def)
  qed
  then show ?thesis using node_unchanged [of sp False m v "[]" "[]" 0 ChangeLevelType ov] a by (simp add: Validate_iff)
qed

lemma Extend_mono:
  assumes "Extend sp m v l = Inr m'" "changeLevelRank l \<le> changeLevelRank l'"
  shows "Extend sp m v l' = Inr m'"
proof -
  have "find (\<lambda>c. \<not> levelPermits l' (ch_Required c)) chs = None" if "find (\<lambda>c. \<not> levelPermits l (ch_Required c)) chs = None" for chs
    using that assms(2) by (fastforce simp: find_None_iff levelPermits_def)
  then show ?thesis using assms(1) by (auto simp: Extend_def split: sum.splits prod.splits if_splits option.splits)
qed

text \<open>An empty object model and the one a first document makes of it.\<close>

definition emptyModel :: ModelNode where
  "emptyModel = NewObjectNode"

definition firstDocument :: Any where
  "firstDocument = JObject [(''a'', JString ''x'')]"

definition firstModel :: ModelNode where
  "firstModel = objectNode (fmupd ''a'' (Node (Some [String]) None None False) fmempty)"

definition secondDocument :: Any where
  "secondDocument = JObject [(''b'', JBool True)]"

definition secondModel :: ModelNode where
  "secondModel = objectNode (fmupd ''b'' (Node (Some [Boolean]) None None False) fmempty)"

lemma built_empty: "builtNode sp emptyModel"
  by (auto simp: emptyModel_def builtNode_def node_ops objectNode_def fmlookup_ran'_iff fmlookup_dom'_iff)

lemma string_leaf: "AddScalarTypes plainSchema [String] emptyNode = Node (Some [String]) None None False"
    "AddScalarTypes plainSchema [Boolean] emptyNode = Node (Some [Boolean]) None None False"
  by (simp_all add: AddScalarTypes_def emptyNode_def scalarTypes_def plain_fields plainTypes_def allTypes_def)

lemmas extend_eval = Extend_def Admit_def node.simps describeAt.simps emptyModel_def ValidateFieldName_def IsSegmentName_def
  IsSegmentNameByte_def less_eq_char_def newFieldChange_def newKindChange_def admitLeaf_def admitScalar_def inferDataType_def
  NewLeafNode_def string_leaf overlayChild_def NewObjectNode_def DeclareKind_def SetChild_def childrenOf_def emptyNode_def
  MaxValidationDepth_def levelPermits_def Merge_def isInvalidName_def Kinds_def

lemma merge_emptyModel:
  "canon sp (objectNode cs) \<Longrightarrow> types_laws sp \<Longrightarrow> mergeNode sp (Node None (Some fmempty) None False) (objectNode cs) = objectNode cs"
  using merge_object [of sp "Node None (Some fmempty) None False" cs] fmap_eqI [of "fmJoin (mergeNode sp) fmempty cs" cs]
  by (auto simp: objectNode_def childrenOf_def fmlookup_ran'_iff)

lemma extend_first: "Extend plainSchema emptyModel firstDocument ChangeLevelStructural = Inr firstModel"
proof -
  have t: "sp_ClassifyTemporalString plainSchema s = None" for s by (simp add: plainSchema_def)
  have l: "AddScalarTypes plainSchema [String] (Node None None None False) = Node (Some [String]) None None False"
    using string_leaf(1) by (simp add: emptyNode_def)
  have m: "mergeNode plainSchema (Node None (Some fmempty) None False) firstModel = firstModel"
    unfolding firstModel_def by (rule merge_emptyModel) (simp_all add: laws_types [OF plain_laws] plain_fields plainTypes_def allTypes_def)
  show ?thesis
    using m by (simp add: extend_eval firstDocument_def firstModel_def objectNode_def t l)
qed

lemma extend_second: "Extend plainSchema emptyModel secondDocument ChangeLevelStructural = Inr secondModel"
proof -
  have l: "AddScalarTypes plainSchema [Boolean] (Node None None None False) = Node (Some [Boolean]) None None False"
    using string_leaf(2) by (simp add: emptyNode_def)
  have m: "mergeNode plainSchema (Node None (Some fmempty) None False) secondModel = secondModel"
    unfolding secondModel_def by (rule merge_emptyModel) (simp_all add: laws_types [OF plain_laws] plain_fields plainTypes_def allTypes_def)
  show ?thesis
    using m by (simp add: extend_eval secondDocument_def secondModel_def objectNode_def l)
qed

lemma first_decoded: "decoded sp firstDocument" "decoded sp secondDocument"
  by (simp_all add: firstDocument_def secondDocument_def)

lemma extension_replays:
  assumes "schema_laws sp" "builtNode sp old" "decoded sp v" "Extend sp old v level = Inr n"
  shows "\<exists>delta. Diff sp old n = Inr delta \<and> Apply sp old delta = Inr n \<and> (delta = [] \<longrightarrow> n = old)"
proof -
  note t = laws_types [OF assms(1)] and x = Extend_above [OF assms]
  have c: "canon sp old" "canon sp n" "wellNamed n" using assms(2) x by (simp_all add: builtNode_def)
  then show ?thesis using Diff_Apply [OF t laws_codec [OF assms(1)] c] x merge_idem [OF t c(1)] by metis
qed



text \<open>
  C19. Strict validation and extension are one decision. Validation accepts exactly the documents the model describes
  down to the depth limit; those are the documents that extension with no change level lets through; such a document
  never changes the model at any level; and the levels are a ladder: what one level admits every higher level admits,
  with the same resulting model.
\<close>

theorem extension_ladder:
  "(Validate sp m v = [] \<longleftrightarrow> accepts sp m v \<and> height v \<le> MaxValidationDepth) \<and>
   (Validate sp m v = [] \<longleftrightarrow> Extend sp m v ChangeLevelNone = Inr m) \<and>
   (Validate sp m v = [] \<longrightarrow> Extend sp m v level = Inr m) \<and>
   (Extend sp m v level = Inr m' \<longrightarrow> changeLevelRank level \<le> changeLevelRank level' \<longrightarrow> Extend sp m v level' = Inr m')"
  using Validate_iff [of sp m v] Extend_unchanged [of sp m v] Extend_none [of sp m v m] Extend_mono [of sp m v level m' level'] by blast

theorem extension_ladder_witness:
  "Validate plainSchema firstModel firstDocument = [] \<and>
   Extend plainSchema firstModel firstDocument ChangeLevelArrayLength = Inr firstModel \<and>
   Extend plainSchema firstModel firstDocument ChangeLevelType = Inr firstModel \<and>
   Extend plainSchema firstModel firstDocument ChangeLevelNone = Inr firstModel"
proof -
  have "accepts plainSchema firstModel firstDocument" "height firstDocument \<le> MaxValidationDepth"
    by (simp_all add: firstModel_def firstDocument_def objectNode_def childrenOf_def scalarTypes_def holdsScalar_def MaxValidationDepth_def)
  then show ?thesis
    using extension_ladder [of plainSchema firstModel firstDocument ChangeLevelArrayLength firstModel ChangeLevelType]
    by auto
qed

text \<open>
  C6. A difference is exact. The model an extension produces always has an additive difference from the old one,
  never an error, and replaying the encoded difference on the old model gives back the extended model; an empty
  difference means that nothing changed.
\<close>

theorem delta_roundtrip:
  assumes "schema_laws sp" "builtNode sp old" "decoded sp v" "Extend sp old v level = Inr n"
  shows "\<exists>delta. Diff sp old n = Inr delta \<and> Apply sp old delta = Inr n \<and> (delta = [] \<longrightarrow> n = old)"
  by (rule extension_replays [OF assms])

theorem delta_roundtrip_witness:
  "\<exists>delta. Diff plainSchema emptyModel firstModel = Inr delta \<and> Apply plainSchema emptyModel delta = Inr firstModel \<and> delta \<noteq> []"
proof -
  have "firstModel \<noteq> emptyModel"
    by (auto simp: firstModel_def emptyModel_def node_ops objectNode_def dest!: arg_cong [where f = "\<lambda>m. fmlookup m ''a''"])
  then show ?thesis using delta_roundtrip [OF plain_laws built_empty first_decoded(1) extend_first] by blast
qed

text \<open>
  C5. Deltas converge. Two deltas that apply to the same model can be replayed in either order with the same
  result, replaying either of them again changes nothing, and no replay takes a document away: the result validates
  everything either side validated, and each side everything the base did.
\<close>

theorem deltas_converge:
  assumes "schema_laws sp" "canon sp base" "Apply sp base d1 = Inr r1" "Apply sp base d2 = Inr r2"
  shows "\<exists>r. Apply sp r1 d2 = Inr r \<and> Apply sp r2 d1 = Inr r \<and> Apply sp r d1 = Inr r \<and> Apply sp r d2 = Inr r \<and>
    (\<forall>w. Validate sp r1 w = [] \<or> Validate sp r2 w = [] \<longrightarrow> Validate sp r w = []) \<and>
    (\<forall>w. Validate sp base w = [] \<longrightarrow> Validate sp r1 w = [] \<and> Validate sp r2 w = [])"
proof -
  note t = laws_types [OF assms(1)] and cd = laws_codec [OF assms(1)]
  have a1: "canon sp r1" "mergeNode sp base r1 = r1" using Apply_larger [OF t cd assms(2,2,3)] by simp_all
  have a2: "canon sp r2" "mergeNode sp base r2 = r2" using Apply_larger [OF t cd assms(2,2,4)] by simp_all
  let ?r = "mergeNode sp r1 r2"
  have r: "canon sp ?r" by (rule merge_canon [OF t a1(1) a2(1)])
  have up1: "mergeNode sp r1 ?r = ?r" using merge_assoc [OF t a1(1,1) a2(1)] merge_idem [OF t a1(1)] by simp
  have up2: "mergeNode sp r2 ?r = ?r"
    using merge_assoc [OF t a2(1,1) a1(1)] merge_idem [OF t a2(1)] merge_comm [OF t a1(1) a2(1)] by simp
  have "mergeNode sp base ?r = ?r" using merge_assoc [OF t assms(2) a1(1) a2(1)] a1(2) by simp
  then have "Apply sp ?r d1 = Inr ?r" "Apply sp ?r d2 = Inr ?r"
    using Apply_larger [OF t cd assms(2) r assms(3)] Apply_larger [OF t cd assms(2) r assms(4)] up1 up2 by simp_all
  moreover have "Apply sp r1 d2 = Inr ?r" "Apply sp r2 d1 = Inr ?r"
    using Apply_larger [OF t cd assms(2) a1(1) assms(4)] Apply_larger [OF t cd assms(2) a2(1) assms(3)] a1 a2
      merge_comm [OF t a1(1) a2(1)] by simp_all
  ultimately show ?thesis
    using Validate_above [OF assms(1) a1(1) r up1] Validate_above [OF assms(1) a2(1) r up2]
      Validate_above [OF assms(1,2) a1] Validate_above [OF assms(1,2) a2] by blast
qed

theorem deltas_converge_witness:
  "\<exists>d1 d2 r. Diff plainSchema emptyModel firstModel = Inr d1 \<and> Diff plainSchema emptyModel secondModel = Inr d2 \<and>
     Apply plainSchema firstModel d2 = Inr r \<and> Apply plainSchema secondModel d1 = Inr r \<and>
     Validate plainSchema r firstDocument = [] \<and> Validate plainSchema r secondDocument = []"
proof -
  obtain d1 where d1: "Diff plainSchema emptyModel firstModel = Inr d1" "Apply plainSchema emptyModel d1 = Inr firstModel"
    using extension_replays [OF plain_laws built_empty first_decoded(1) extend_first] by blast
  obtain d2 where d2: "Diff plainSchema emptyModel secondModel = Inr d2" "Apply plainSchema emptyModel d2 = Inr secondModel"
    using extension_replays [OF plain_laws built_empty first_decoded(2) extend_second] by blast
  have "canon plainSchema emptyModel" using built_empty by (simp add: builtNode_def)
  moreover have "Validate plainSchema firstModel firstDocument = []" "Validate plainSchema secondModel secondDocument = []"
    using Extend_above [OF plain_laws built_empty first_decoded(1) extend_first]
      Extend_above [OF plain_laws built_empty first_decoded(2) extend_second] by (simp_all add: Validate_iff)
  ultimately show ?thesis using deltas_converge [OF plain_laws _ d1(2) d2(2)] d1(1) d2(1) by blast
qed

end
