(* ===== verification/Ingest.thy ===== *)
theory Ingest
  imports SchemaProperties MemStores
begin

text \<open>
  The checks a payload passes before it is stored (\<^verbatim>\<open>internal/domain/model/ingest/validate.go\<close>), the check of
  unique keys it runs (\<^verbatim>\<open>schema/uniquekey_validate.go\<close>), the function the server wires into the storage plugins to
  replay a delta (\<^verbatim>\<open>makeSchemaApply\<close>), and how the entity handler answers a failure. The model store is
  the argument \<open>extendSchema\<close>; \<open>schema_store\<close> is what ingestion relies on of it, and the memory store provides it.
  Descriptors carry the change level as the interface's string; \<open>levelOf\<close> reads it.
\<close>

definition levelOf :: "string \<Rightarrow> ChangeLevel" where
  "levelOf s =
     (if s = ''ARRAY_LENGTH'' then ChangeLevelArrayLength else if s = ''ARRAY_ELEMENTS'' then ChangeLevelArrayElements
      else if s = ''TYPE'' then ChangeLevelType else if s = ''STRUCTURAL'' then ChangeLevelStructural else ChangeLevelNone)"

subsection \<open>Unique keys over scalar leaves\<close>

text \<open>Whether \<^verbatim>\<open>dropContainerPaths\<close>, started on a node with a prefix, removes a path.\<close>

primrec dropContainerPaths :: "ModelNode \<Rightarrow> string \<Rightarrow> string \<Rightarrow> bool" where
  "dropContainerPaths (Node s ob ar nl) prefix p \<longleftrightarrow>
     ((ob \<noteq> None \<or> ar \<noteq> None) \<and> p = prefix) \<or>
     (case map_option (fmmap dropContainerPaths) ob of
        None \<Rightarrow> False
      | Some fs \<Rightarrow> fBex (fmdom fs) (\<lambda>name. (case fmlookup fs name of None \<Rightarrow> False | Some f \<Rightarrow> f (prefix @ ''.'' @ name) p)))"

definition scalarLeafs :: "SchemaSpi \<Rightarrow> ModelNode \<Rightarrow> string list" where
  "scalarLeafs sp n =
     filter (\<lambda>p. \<not> dropContainerPaths n ''$'' p)
       (map fst (filter (\<lambda>(p, isArray). \<not> isArray \<and> \<not> list_ex (\<lambda>c. c = CHR ''['' \<or> c = CHR ''*'') p) (sp_Fields sp n)))"

datatype UniqueKeyDefError =
    EmptyKeyID
  | DuplicateKeyID string
  | NoFields string
  | DuplicateField string string
  | NotScalarLeaf string string

fun validateKeyFields :: "string list \<Rightarrow> string \<Rightarrow> string list \<Rightarrow> string list \<Rightarrow> UniqueKeyDefError option" where
  "validateKeyFields leafs kid [] seen = None"
| "validateKeyFields leafs kid (field # flds) seen =
     (if field \<in> set seen then Some (DuplicateField kid field)
      else if field \<notin> set leafs then Some (NotScalarLeaf kid field)
      else validateKeyFields leafs kid flds (field # seen))"

fun validateKeys :: "string list \<Rightarrow> UniqueKey list \<Rightarrow> string list \<Rightarrow> UniqueKeyDefError option" where
  "validateKeys leafs [] seen = None"
| "validateKeys leafs (key # keys) seen =
     (if uk_ID key = [] then Some EmptyKeyID
      else if uk_ID key \<in> set seen then Some (DuplicateKeyID (uk_ID key))
      else if uk_Fields key = [] then Some (NoFields (uk_ID key))
      else case validateKeyFields leafs (uk_ID key) (uk_Fields key) [] of
             Some e \<Rightarrow> Some e
           | None \<Rightarrow> validateKeys leafs keys (uk_ID key # seen))"

definition ValidateUniqueKeys :: "SchemaSpi \<Rightarrow> ModelNode \<Rightarrow> UniqueKey list \<Rightarrow> UniqueKeyDefError option" where
  "ValidateUniqueKeys sp n keys = validateKeys (scalarLeafs sp n) keys []"

subsection \<open>Errors of ingestion\<close>

record IncompatibleTypeError =
  it_Path :: string
  it_ExpectedTypes :: "DataType list"
  it_ActualType :: "DataType option"
  it_Message :: string
  it_EntityName :: string
  it_EntityVersion :: string

datatype IngestError =
    ErrInternalSchema string "gerror option"
  | IncompatibleType IncompatibleTypeError
  | ValidationFailed string
  | InvalidFieldName AdmitError
  | ChangeLevelViolation Change ChangeLevel
  | SchemaAdmissionFailed AdmitError
  | UniqueKeyInvalidated UniqueKeyDefError

definition maxRenderedValidationErrors :: nat where
  "maxRenderedValidationErrors = 32"

definition ValidationError_Error :: "ValidationError \<Rightarrow> string" where
  "ValidationError_Error e = (if ve_Path e = [] then ve_Message e else ve_Path e @ '': '' @ ve_Message e)"

definition ValidationErrorsToError :: "ValidationError list \<Rightarrow> IngestError" where
  "ValidationErrorsToError errs =
     (let rendered = take maxRenderedValidationErrors errs;
          joined = ''validation failed: '' @ joinWith ''; '' (map ValidationError_Error rendered);
          message = (if maxRenderedValidationErrors < length errs
                     then joined @ ''; ... and '' @ natString (length errs - maxRenderedValidationErrors) @ '' more''
                     else joined)
      in case FirstIncompatibleType errs of
           Some first \<Rightarrow>
             IncompatibleType \<lparr>it_Path = ve_Path first, it_ExpectedTypes = ve_ExpectedTypes first,
               it_ActualType = ve_ActualType first, it_Message = message, it_EntityName = [], it_EntityVersion = []\<rparr>
         | None \<Rightarrow> ValidationFailed message)"

definition enrichWithModelRef :: "ModelRef \<Rightarrow> IngestError \<Rightarrow> IngestError" where
  "enrichWithModelRef ref err =
     (case err of
        IncompatibleType e \<Rightarrow> IncompatibleType (e\<lparr>it_EntityName := EntityName ref, it_EntityVersion := ModelVersion ref\<rparr>)
      | _ \<Rightarrow> err)"

subsection \<open>Validating or extending\<close>

type_synonym ingested = "IngestError + unit"

definition strictly :: "SchemaSpi \<Rightarrow> ModelDescriptor \<Rightarrow> ModelNode \<Rightarrow> Any \<Rightarrow> ingested" where
  "strictly sp desc m v =
     (let errs = Validate sp m v in
      if errs \<noteq> [] then Inl (enrichWithModelRef (md_Ref desc) (ValidationErrorsToError errs)) else Inr ())"

definition extendFailure :: "ExtendError \<Rightarrow> IngestError" where
  "extendFailure err =
     (case err of
        AdmitFailed (InvalidFieldNameError p q n) \<Rightarrow> InvalidFieldName (InvalidFieldNameError p q n)
      | ChangeLevelError c l \<Rightarrow> ChangeLevelViolation c l
      | AdmitFailed (UnsupportedValueError p k) \<Rightarrow> ErrInternalSchema ''schema admission failed'' None
      | AdmitFailed e \<Rightarrow> SchemaAdmissionFailed e)"

definition ValidateOrExtend ::
  "SchemaSpi \<Rightarrow> (ModelRef \<Rightarrow> bytes \<Rightarrow> 's \<Rightarrow> unit result \<times> 's) \<Rightarrow> ModelDescriptor \<Rightarrow> Any \<Rightarrow> 's \<Rightarrow> ingested \<times> 's" where
  "ValidateOrExtend sp extendSchema desc v s =
     (case sp_Unmarshal sp (md_Schema desc) of
        None \<Rightarrow> (Inl (ErrInternalSchema ''failed to unmarshal model schema'' None), s)
      | Some m \<Rightarrow>
          if md_ChangeLevel desc = [] then (strictly sp desc m v, s)
          else (case Extend sp m v (levelOf (md_ChangeLevel desc)) of
                  Inl err \<Rightarrow> (Inl (extendFailure err), s)
                | Inr ext \<Rightarrow>
                    (case (if md_UniqueKeys desc \<noteq> [] then ValidateUniqueKeys sp ext (md_UniqueKeys desc) else None) of
                       Some de \<Rightarrow> (Inl (UniqueKeyInvalidated de), s)
                     | None \<Rightarrow>
                         (case Diff sp m ext of
                            Inl err \<Rightarrow> (Inl (ErrInternalSchema ''failed to compute schema delta'' None), s)
                          | Inr delta \<Rightarrow>
                              if delta = [] then (Inr (), s)
                              else (case extendSchema (md_Ref desc) delta s of
                                      (Inl err, s') \<Rightarrow> (Inl (ErrInternalSchema ''failed to extend schema'' (Some err)), s')
                                    | (Inr _, s') \<Rightarrow> (Inr (), s'))))))"

definition ValidateStrict :: "SchemaSpi \<Rightarrow> ModelDescriptor \<Rightarrow> Any \<Rightarrow> ingested" where
  "ValidateStrict sp desc v =
     (case sp_Unmarshal sp (md_Schema desc) of
        None \<Rightarrow> Inl (ErrInternalSchema ''failed to unmarshal model schema'' None)
      | Some m \<Rightarrow> strictly sp desc m v)"

definition ValidateDescriptor :: "SchemaSpi \<Rightarrow> ModelDescriptor option \<Rightarrow> Any \<Rightarrow> ValidationError list" where
  "ValidateDescriptor sp desc v =
     (case desc of
        None \<Rightarrow> [genericError [] ''nil descriptor'' ErrKindGeneric]
      | Some d \<Rightarrow>
          (case sp_Unmarshal sp (md_Schema d) of
             None \<Rightarrow> [genericError [] ''unmarshal schema'' ErrKindGeneric]
           | Some m \<Rightarrow> Validate sp m v))"

definition makeSchemaApply :: "SchemaSpi \<Rightarrow> bytes \<Rightarrow> bytes \<Rightarrow> bytes result" where
  "makeSchemaApply sp base delta =
     (case sp_Unmarshal sp base of
        None \<Rightarrow> Err (ErrMsg ''apply: unmarshal base'')
      | Some n \<Rightarrow>
          (case Apply sp n delta of
             Inl err \<Rightarrow> Err (ErrMsg ''schema.Apply'')
           | Inr ext \<Rightarrow> (case sp_Marshal sp ext of None \<Rightarrow> Err (ErrMsg ''marshal'') | Some b \<Rightarrow> Ok b)))"

subsection \<open>How the entity handler answers\<close>

text \<open>Status, error code and whether the error is operational, so that its text may go into the response.\<close>

datatype AppError = AppError nat string bool

definition Internal :: "gerror option \<Rightarrow> AppError" where
  "Internal err =
     (if err = Some ErrUniqueViolation then AppError 409 ''UNIQUE_VIOLATION'' True
      else if err = Some ErrPartialUniqueKey then AppError 422 ''INVALID_UNIQUE_KEY'' True
      else if err = Some ErrConflict then AppError 409 ''CONFLICT'' True
      else AppError 500 ''SERVER_ERROR'' False)"

definition classifyValidateOrExtendErr :: "IngestError \<Rightarrow> AppError" where
  "classifyValidateOrExtendErr err =
     (case err of
        InvalidFieldName _ \<Rightarrow> AppError 400 ''VALIDATION_FAILED'' True
      | UniqueKeyInvalidated _ \<Rightarrow> AppError 422 ''INVALID_UNIQUE_KEY_DEFINITION'' True
      | IncompatibleType _ \<Rightarrow> AppError 400 ''INCOMPATIBLE_TYPE'' True
      | ErrInternalSchema _ cause \<Rightarrow> Internal cause
      | _ \<Rightarrow> AppError 400 ''VALIDATION_FAILED'' True)"

definition ValidateWithRefresh ::
  "SchemaSpi \<Rightarrow> ModelDescriptor option result \<Rightarrow> ModelDescriptor option result option \<Rightarrow> Any \<Rightarrow> ingested" where
  "ValidateWithRefresh sp got refreshed v =
     (case got of
        Inl err \<Rightarrow> Inl (ErrInternalSchema ''load model'' (Some err))
      | Inr desc \<Rightarrow>
          (let errs = ValidateDescriptor sp desc v in
           if errs = [] then Inr ()
           else if \<not> HasUnknownSchemaElement errs then Inl (ValidationErrorsToError errs)
           else case refreshed of
                  None \<Rightarrow> Inl (ValidationErrorsToError errs)
                | Some (Inl err) \<Rightarrow> Inl (ErrInternalSchema ''refresh model'' (Some err))
                | Some (Inr fresh) \<Rightarrow>
                    (let errs2 = ValidateDescriptor sp fresh v in
                     if errs2 \<noteq> [] then Inl (ValidationErrorsToError errs2) else Inr ())))"

subsection \<open>What ingestion relies on of a model store\<close>

text \<open>
  A store that replays deltas: after a successful extension its schema is the replay of the delta on what it held,
  a failed one leaves the schema alone, and a delta that applies is not refused.
\<close>

locale schema_store =
  fixes sp :: SchemaSpi
    and extendSchema :: "ModelRef \<Rightarrow> bytes \<Rightarrow> 's \<Rightarrow> unit result \<times> 's"
    and schemaOf :: "ModelRef \<Rightarrow> 's \<Rightarrow> ModelNode option"
  assumes extend_applies:
      "schema_laws sp \<Longrightarrow> delta \<noteq> [] \<Longrightarrow> schemaOf ref s = Some k \<Longrightarrow> Apply sp k delta = Inr k' \<Longrightarrow>
         \<exists>s'. extendSchema ref delta s = (Ok (), s') \<and> schemaOf ref s' = Some k'"
    and extend_fails: "extendSchema ref delta s = (Err e, s') \<Longrightarrow> schemaOf ref s' = schemaOf ref s"
    and stored_canon: "schema_laws sp \<Longrightarrow> schemaOf ref s = Some k \<Longrightarrow> canon sp k"
begin

text \<open>
  Whatever model a descriptor was read from, as long as the stored model is above it: a document that extends the
  descriptor's model extends the store, and the stored model then holds the document beside all it held before.
\<close>

lemma extend_stale:
  assumes sp: "schema_laws sp" and d: "sp_Unmarshal sp (md_Schema desc) = Some m" "builtNode sp m"
    and s: "schemaOf (md_Ref desc) s = Some k" "mergeNode sp m k = k"
    and v: "decoded sp v" and x: "Extend sp m v (levelOf (md_ChangeLevel desc)) = Inr ext" "md_ChangeLevel desc \<noteq> []"
    and u: "md_UniqueKeys desc = [] \<or> ValidateUniqueKeys sp ext (md_UniqueKeys desc) = None"
  shows "\<exists>s'. ValidateOrExtend sp extendSchema desc v s = (Inr (), s') \<and> schemaOf (md_Ref desc) s' = Some (mergeNode sp k ext)"
proof -
  note t = laws_types [OF sp] and e = Extend_above [OF sp d(2) v x(1)]
  have c: "canon sp m" "canon sp ext" "wellNamed ext" using d(2) e by (simp_all add: builtNode_def)
  obtain delta where delta: "Diff sp m ext = Inr delta"
      "\<And>cur. canon sp cur \<Longrightarrow> mergeNode sp m cur = cur \<Longrightarrow> Apply sp cur delta = Inr (mergeNode sp cur ext) \<and>
         (delta = [] \<longrightarrow> mergeNode sp cur ext = cur)"
    using Diff_Apply [OF t laws_codec [OF sp] c] e by blast
  have keys: "(if md_UniqueKeys desc \<noteq> [] then ValidateUniqueKeys sp ext (md_UniqueKeys desc) else None) = None" using u by auto
  note a = delta(2) [OF stored_canon [OF sp s(1)] s(2)]
  show ?thesis
  proof (cases "delta = []")
    case True
    then show ?thesis using d(1) x keys delta(1) a s(1) by (simp add: ValidateOrExtend_def)
  next
    case False
    obtain s' where "extendSchema (md_Ref desc) delta s = (Ok (), s')" "schemaOf (md_Ref desc) s' = Some (mergeNode sp k ext)"
      using extend_applies [OF sp False s(1) conjunct1 [OF a]] by blast
    then show ?thesis using False d(1) x keys delta(1) by (simp add: ValidateOrExtend_def)
  qed
qed

lemma ingest_keeps:
  assumes sp: "schema_laws sp" and d: "sp_Unmarshal sp (md_Schema desc) = Some m" "builtNode sp m"
    and s: "schemaOf (md_Ref desc) s = Some k" "mergeNode sp m k = k" "builtNode sp k" and v: "decoded sp v"
    and r: "ValidateOrExtend sp extendSchema desc v s = (res, s')"
  shows "\<exists>k'. schemaOf (md_Ref desc) s' = Some k' \<and> builtNode sp k' \<and> mergeNode sp k k' = k' \<and>
    (res = Inr () \<longrightarrow> Validate sp k' v = [])"
proof -
  note t = laws_types [OF sp]
  have c: "canon sp m" "canon sp k" using d(2) s(3) by (simp_all add: builtNode_def)
  show ?thesis
  proof (cases "md_ChangeLevel desc = []")
    case True
    then have "s' = s" "res = Inr () \<Longrightarrow> Validate sp m v = []"
      using r d(1) by (auto simp: ValidateOrExtend_def strictly_def Let_def split: if_splits)
    then show ?thesis using s merge_idem [OF t c(2)] Validate_above [OF sp c s(2)] by auto
  next
    case False
    note level = this
    show ?thesis
    proof (cases "\<exists>ext. Extend sp m v (levelOf (md_ChangeLevel desc)) = Inr ext \<and>
        (md_UniqueKeys desc = [] \<or> ValidateUniqueKeys sp ext (md_UniqueKeys desc) = None)")
      case True
      then obtain ext where x: "Extend sp m v (levelOf (md_ChangeLevel desc)) = Inr ext"
          "md_UniqueKeys desc = [] \<or> ValidateUniqueKeys sp ext (md_UniqueKeys desc) = None" by blast
      note e = Extend_above [OF sp d(2) v x(1)]
      have ce: "canon sp ext" using e by (simp add: builtNode_def)
      have "schemaOf (md_Ref desc) s' = Some (mergeNode sp k ext)"
        using extend_stale [OF sp d s(1,2) v x(1) level x(2)] r by auto
      moreover have "mergeNode sp k (mergeNode sp k ext) = mergeNode sp k ext"
        using merge_assoc [OF t c(2,2) ce] merge_idem [OF t c(2)] by simp
      moreover have "Validate sp (mergeNode sp k ext) v = []"
        using e accepts_merge_right [OF sp c(2) ce] by (simp add: Validate_iff)
      ultimately show ?thesis using builtNode_merge [OF t s(3)] e by blast
    next
      case False
      then have "s' = s" "res \<noteq> Inr ()"
        using r d(1) level by (auto simp: ValidateOrExtend_def split: sum.splits if_splits option.splits)
      then show ?thesis using s merge_idem [OF t c(2)] by auto
    qed
  qed
qed

end

subsection \<open>The memory store\<close>

definition storedNode :: "SchemaSpi \<Rightarrow> tenant \<Rightarrow> ModelRef \<Rightarrow> modelData \<Rightarrow> ModelNode option" where
  "storedNode sp tid ref s = (case map_of (models_of s tid) ref of None \<Rightarrow> None | Some d \<Rightarrow> sp_Unmarshal sp (md_Schema d))"

lemma unmarshal_canon: "schema_laws sp \<Longrightarrow> sp_Unmarshal sp b = Some n \<Longrightarrow> canon sp n"
  using laws_codec [of sp] by (auto simp: codec_laws_def)

lemma apply_marshals:
  assumes "schema_laws sp" "sp_Unmarshal sp b = Some k" "Apply sp k delta = Inr k'"
  shows "\<exists>b'. makeSchemaApply sp b delta = Ok b' \<and> sp_Unmarshal sp b' = Some k'"
proof -
  have c: "canon sp k" by (rule unmarshal_canon [OF assms(1,2)])
  have "canon sp k'" using Apply_larger [OF laws_types [OF assms(1)] laws_codec [OF assms(1)] c c assms(3)] by blast
  then show ?thesis using codec_round [OF laws_codec [OF assms(1)], of k'] assms(2,3) by (auto simp: makeSchemaApply_def)
qed

interpretation mst: schema_store sp "ModelStore_ExtendSchema (Some (makeSchemaApply sp)) tid" "storedNode sp tid" for sp tid
proof
  fix delta ref s k k'
  assume sp: "schema_laws sp" and d: "delta \<noteq> []" and k: "storedNode sp tid ref s = Some k" and a: "Apply sp k delta = Inr k'"
  obtain d0 where d0: "map_of (models_of s tid) ref = Some d0" "sp_Unmarshal sp (md_Schema d0) = Some k"
    using k by (auto simp: storedNode_def split: option.splits)
  obtain b' where "makeSchemaApply sp (md_Schema d0) delta = Ok b'" "sp_Unmarshal sp b' = Some k'"
    using apply_marshals [OF sp d0(2) a] by blast
  then show "\<exists>s'. ModelStore_ExtendSchema (Some (makeSchemaApply sp)) tid ref delta s = (Ok (), s') \<and> storedNode sp tid ref s' = Some k'"
    using d d0 by (simp add: ModelStore_ExtendSchema_def storedNode_def models_of_upd)
next
  fix ref delta s e s'
  assume "ModelStore_ExtendSchema (Some (makeSchemaApply sp)) tid ref delta s = (Err e, s')"
  then show "storedNode sp tid ref s' = storedNode sp tid ref s"
    by (auto simp: ModelStore_ExtendSchema_def split: if_splits option.splits sum.splits)
next
  fix ref s k assume "schema_laws sp" "storedNode sp tid ref s = Some k"
  then show "canon sp k" using unmarshal_canon by (auto simp: storedNode_def split: option.splits)
qed

end
