(* ===== verification/ModelCache.thy ===== *)
theory ModelCache
  imports Ingest
begin

text \<open>
  The model cache of a cluster node (\<^verbatim>\<open>internal/cluster/modelcache\<close>) over the shared model store, and a cluster of
  such nodes. A node keeps the descriptors of locked models under a lease; a write through a node evicts its own
  entry and broadcasts an invalidation, which other nodes may receive late, twice or never. \<open>clusterStep\<close> interleaves
  the reads, writes and administrative calls of any number of requests on any number of nodes. Clock readings
  and the jittered lease, a floating-point draw of the code, are arguments; the JSON of the payload is the pair
  \<open>enc\<close>, \<open>dec\<close>.
\<close>

type_synonym cacheKey = "tenant \<times> ModelRef"

record cacheEntry =
  ce_desc :: ModelDescriptor
  ce_expiresAt :: time
  ce_node :: "ModelNode option result"

record CachingModelStore =
  mc_entries :: "cacheKey \<rightharpoonup> cacheEntry"
  mc_notified :: "cacheKey list"

text \<open>The shared store, a node's cache over it and the payloads broadcast so far.\<close>

record cachedStore =
  cs_cache :: CachingModelStore
  cs_inner :: modelData
  cs_sent :: "bytes list"

definition parseSchemaNode :: "SchemaSpi \<Rightarrow> ModelDescriptor \<Rightarrow> ModelNode option result" where
  "parseSchemaNode sp desc =
     (if md_Schema desc = [] then Ok None
      else case sp_Unmarshal sp (md_Schema desc) of
             None \<Rightarrow> Err (ErrMsg ''failed to unmarshal model schema'')
           | Some n \<Rightarrow> Ok (Some n))"

definition NewCache :: CachingModelStore where
  "NewCache = \<lparr>mc_entries = Map.empty, mc_notified = []\<rparr>"

definition lookupEntry :: "cacheKey \<Rightarrow> time \<Rightarrow> CachingModelStore \<Rightarrow> cacheEntry option" where
  "lookupEntry key tnow c =
     (case mc_entries c key of None \<Rightarrow> None | Some e \<Rightarrow> if ce_expiresAt e < tnow then None else Some e)"

definition cacheLookup :: "cacheKey \<Rightarrow> time \<Rightarrow> CachingModelStore \<Rightarrow> ModelDescriptor option" where
  "cacheLookup key tnow c = map_option ce_desc (lookupEntry key tnow c)"

definition cacheStore :: "SchemaSpi \<Rightarrow> cacheKey \<Rightarrow> ModelDescriptor \<Rightarrow> time \<Rightarrow> int \<Rightarrow> CachingModelStore \<Rightarrow> CachingModelStore" where
  "cacheStore sp key desc tnow lease c =
     c\<lparr>mc_entries := (mc_entries c)(key \<mapsto>
        \<lparr>ce_desc = desc, ce_expiresAt = tnow + lease, ce_node = parseSchemaNode sp desc\<rparr>)\<rparr>"

definition evict :: "cacheKey \<Rightarrow> CachingModelStore \<Rightarrow> CachingModelStore" where
  "evict key c = c\<lparr>mc_entries := (mc_entries c)(key := None)\<rparr>"

definition notifyLocalSubscribers :: "cacheKey \<Rightarrow> CachingModelStore \<Rightarrow> CachingModelStore" where
  "notifyLocalSubscribers key c = c\<lparr>mc_notified := mc_notified c @ [key]\<rparr>"

definition invalidate ::
  "(tenant \<Rightarrow> ModelRef \<Rightarrow> bytes option) \<Rightarrow> bool \<Rightarrow> tenant \<Rightarrow> ModelRef \<Rightarrow> cachedStore \<Rightarrow> cachedStore" where
  "invalidate enc broadcaster tid ref s =
     (let s1 = s\<lparr>cs_cache := notifyLocalSubscribers (tid, ref) (evict (tid, ref) (cs_cache s))\<rparr>
      in if \<not> broadcaster then s1
         else case enc tid ref of None \<Rightarrow> s1 | Some payload \<Rightarrow> s1\<lparr>cs_sent := cs_sent s1 @ [payload]\<rparr>)"

text \<open>The decoder refuses malformed input and blank fields.\<close>

definition DecodeInvalidation :: "(bytes \<Rightarrow> (tenant \<times> ModelRef) option) \<Rightarrow> bytes \<Rightarrow> (tenant \<times> ModelRef) option" where
  "DecodeInvalidation dec raw =
     (case dec raw of
        None \<Rightarrow> None
      | Some (tid, ref) \<Rightarrow> if tid = [] \<or> EntityName ref = [] \<or> ModelVersion ref = [] then None else Some (tid, ref))"

definition handleInvalidation :: "(bytes \<Rightarrow> (tenant \<times> ModelRef) option) \<Rightarrow> bytes \<Rightarrow> CachingModelStore \<Rightarrow> CachingModelStore" where
  "handleInvalidation dec payload c =
     (case DecodeInvalidation dec payload of
        None \<Rightarrow> c
      | Some key \<Rightarrow> notifyLocalSubscribers key (evict key c))"

definition Caching_Get ::
  "SchemaSpi \<Rightarrow> tenant \<Rightarrow> ModelRef \<Rightarrow> time \<Rightarrow> time \<Rightarrow> int \<Rightarrow> cachedStore \<Rightarrow> ModelDescriptor result \<times> cachedStore" where
  "Caching_Get sp tid ref tnow tstore lease s =
     (case cacheLookup (tid, ref) tnow (cs_cache s) of
        Some d \<Rightarrow> (Ok d, s)
      | None \<Rightarrow>
          (case ModelStore_Get tid ref (cs_inner s) of
             Inl e \<Rightarrow> (Err e, s)
           | Inr d \<Rightarrow>
               if md_State d \<noteq> ModelLocked then (Ok d, s)
               else (Ok d, s\<lparr>cs_cache := cacheStore sp (tid, ref) d tstore lease (cs_cache s)\<rparr>)))"

definition RefreshAndGet ::
  "SchemaSpi \<Rightarrow> tenant \<Rightarrow> ModelRef \<Rightarrow> time \<Rightarrow> int \<Rightarrow> cachedStore \<Rightarrow> ModelDescriptor result \<times> cachedStore" where
  "RefreshAndGet sp tid ref tstore lease s =
     (let s1 = s\<lparr>cs_cache := evict (tid, ref) (cs_cache s)\<rparr>
      in case ModelStore_Get tid ref (cs_inner s1) of
           Inl e \<Rightarrow> (Err e, s1)
         | Inr d \<Rightarrow>
             (Ok d, if md_State d = ModelLocked
                    then s1\<lparr>cs_cache := cacheStore sp (tid, ref) d tstore lease (cs_cache s1)\<rparr> else s1))"

definition Caching_SchemaNode ::
  "SchemaSpi \<Rightarrow> tenant \<Rightarrow> ModelRef \<Rightarrow> time \<Rightarrow> time \<Rightarrow> time \<Rightarrow> time \<Rightarrow> int \<Rightarrow> cachedStore \<Rightarrow> ModelNode option result \<times> cachedStore" where
  "Caching_SchemaNode sp tid ref t1 t2 tstore t3 lease s =
     (case lookupEntry (tid, ref) t1 (cs_cache s) of
        Some e \<Rightarrow> (ce_node e, s)
      | None \<Rightarrow>
          (case Caching_Get sp tid ref t2 tstore lease s of
             (Inl err, s') \<Rightarrow> (Err err, s')
           | (Inr d, s') \<Rightarrow>
               (case lookupEntry (tid, ref) t3 (cs_cache s') of
                  Some e \<Rightarrow> (ce_node e, s')
                | None \<Rightarrow> (parseSchemaNode sp d, s'))))"

text \<open>The write-through operations: the inner store first, then the invalidation.\<close>

definition throughInner ::
  "(tenant \<Rightarrow> ModelRef \<Rightarrow> bytes option) \<Rightarrow> bool \<Rightarrow> tenant \<Rightarrow> ModelRef \<Rightarrow> (modelData \<Rightarrow> unit result \<times> modelData) \<Rightarrow>
     cachedStore \<Rightarrow> unit result \<times> cachedStore" where
  "throughInner enc broadcaster tid ref f s =
     (case f (cs_inner s) of
        (Inl e, m) \<Rightarrow> (Err e, s\<lparr>cs_inner := m\<rparr>)
      | (Inr _, m) \<Rightarrow> (Ok (), invalidate enc broadcaster tid ref (s\<lparr>cs_inner := m\<rparr>)))"

definition Caching_Save where
  "Caching_Save enc broadcaster tid desc =
     throughInner enc broadcaster tid (md_Ref desc) (\<lambda>m. (Ok (), ModelStore_Save tid desc m))"

definition Caching_Lock where
  "Caching_Lock enc broadcaster tid ref = throughInner enc broadcaster tid ref (ModelStore_Lock tid ref)"

definition Caching_Unlock where
  "Caching_Unlock enc broadcaster tid ref = throughInner enc broadcaster tid ref (ModelStore_Unlock tid ref)"

definition Caching_SetChangeLevel where
  "Caching_SetChangeLevel enc broadcaster tid ref level =
     throughInner enc broadcaster tid ref (ModelStore_SetChangeLevel tid ref level)"

definition Caching_Delete where
  "Caching_Delete enc broadcaster tid ref = throughInner enc broadcaster tid ref (ModelStore_Delete tid ref)"

definition Caching_ExtendSchema where
  "Caching_ExtendSchema enc broadcaster applyFunc tid ref delta =
     throughInner enc broadcaster tid ref (ModelStore_ExtendSchema applyFunc tid ref delta)"

definition Caching_GetAll :: "tenant \<Rightarrow> cachedStore \<Rightarrow> ModelRef list" where
  "Caching_GetAll tid s = ModelStore_GetAll tid (cs_inner s)"

definition Caching_IsLocked :: "tenant \<Rightarrow> ModelRef \<Rightarrow> cachedStore \<Rightarrow> bool result" where
  "Caching_IsLocked tid ref s = ModelStore_IsLocked tid ref (cs_inner s)"

subsection \<open>A cluster\<close>

record cluster =
  cl_inner :: modelData
  cl_caches :: "nat \<Rightarrow> CachingModelStore"
  cl_sent :: "bytes list"
  cl_held :: "nat \<Rightarrow> ModelDescriptor option"
  cl_accepted :: "Any list"

text \<open>What node \<open>i\<close> works on, and the cluster after it has.\<close>

definition nodeView :: "nat \<Rightarrow> cluster \<Rightarrow> cachedStore" where
  "nodeView i g = \<lparr>cs_cache = cl_caches g i, cs_inner = cl_inner g, cs_sent = cl_sent g\<rparr>"

definition nodeDone :: "nat \<Rightarrow> cachedStore \<Rightarrow> cluster \<Rightarrow> cluster" where
  "nodeDone i s g = g\<lparr>cl_inner := cs_inner s, cl_caches := (cl_caches g)(i := cs_cache s), cl_sent := cs_sent s\<rparr>"

record wiring =
  w_spi :: SchemaSpi
  w_enc :: "tenant \<Rightarrow> ModelRef \<Rightarrow> bytes option"
  w_dec :: "bytes \<Rightarrow> (tenant \<times> ModelRef) option"
  w_broadcaster :: bool

definition ingestAt :: "wiring \<Rightarrow> tenant \<Rightarrow> nat \<Rightarrow> ModelDescriptor \<Rightarrow> Any \<Rightarrow> cluster \<Rightarrow> ingested \<times> cachedStore" where
  "ingestAt w tid i d v g =
     ValidateOrExtend (w_spi w)
       (Caching_ExtendSchema (w_enc w) (w_broadcaster w) (Some (makeSchemaApply (w_spi w))) tid) d v (nodeView i g)"

text \<open>
  One step of a cluster serving one model: a request reads the model through its node, fresh or from the cache,
  shares a read in flight with another, submits a document with the descriptor it holds, or changes lock and
  change level; a node receives one of the payloads sent so far, in any order and any number of times. A node reads
  the inner store and fills its cache, and writes the inner store and evicts, without holding a lock in between:
  \<open>populate\<close> fills a cache with a descriptor read earlier, \<open>dropped\<close> evicts at any time.
\<close>

inductive clusterStep :: "wiring \<Rightarrow> tenant \<Rightarrow> ModelRef \<Rightarrow> cluster \<Rightarrow> cluster \<Rightarrow> bool" for w tid ref where
  read: "Caching_Get (w_spi w) tid ref tnow tstore lease (nodeView i g) = (Ok d, s) \<Longrightarrow>
     clusterStep w tid ref g ((nodeDone i s g)\<lparr>cl_held := (cl_held g)(q \<mapsto> d)\<rparr>)"
| refresh: "RefreshAndGet (w_spi w) tid ref tstore lease (nodeView i g) = (Ok d, s) \<Longrightarrow>
     clusterStep w tid ref g ((nodeDone i s g)\<lparr>cl_held := (cl_held g)(q \<mapsto> d)\<rparr>)"
| share: "cl_held g q = Some d \<Longrightarrow> clusterStep w tid ref g (g\<lparr>cl_held := (cl_held g)(q' \<mapsto> d)\<rparr>)"
| submit: "cl_held g q = Some d \<Longrightarrow> decoded (w_spi w) v \<Longrightarrow> ingestAt w tid i d v g = (res, s) \<Longrightarrow>
     clusterStep w tid ref g ((nodeDone i s g)\<lparr>cl_accepted := (if res = Inr () then v # cl_accepted g else cl_accepted g)\<rparr>)"
| lock: "Caching_Lock (w_enc w) (w_broadcaster w) tid ref (nodeView i g) = (r, s) \<Longrightarrow> clusterStep w tid ref g (nodeDone i s g)"
| unlock: "Caching_Unlock (w_enc w) (w_broadcaster w) tid ref (nodeView i g) = (r, s) \<Longrightarrow> clusterStep w tid ref g (nodeDone i s g)"
| level: "Caching_SetChangeLevel (w_enc w) (w_broadcaster w) tid ref l (nodeView i g) = (r, s) \<Longrightarrow>
     clusterStep w tid ref g (nodeDone i s g)"
| deliver: "payload \<in> set (cl_sent g) \<Longrightarrow>
     clusterStep w tid ref g (g\<lparr>cl_caches := (cl_caches g)(i := handleInvalidation (w_dec w) payload (cl_caches g i))\<rparr>)"
| populate: "cl_held g q = Some d \<Longrightarrow> md_State d = ModelLocked \<Longrightarrow>
     clusterStep w tid ref g
       (g\<lparr>cl_caches := (cl_caches g)(i := cacheStore (w_spi w) (tid, ref) d tstore lease (cl_caches g i))\<rparr>)"
| dropped: "clusterStep w tid ref g (g\<lparr>cl_caches := (cl_caches g)(i := evict (tid, ref) (cl_caches g i))\<rparr>)"

text \<open>A descriptor of the model as some earlier state of the store had it: the stored model is above it.\<close>

definition descOf :: "SchemaSpi \<Rightarrow> ModelRef \<Rightarrow> ModelNode \<Rightarrow> ModelDescriptor \<Rightarrow> bool" where
  "descOf sp ref k d \<longleftrightarrow>
     md_Ref d = ref \<and> (\<exists>m. sp_Unmarshal sp (md_Schema d) = Some m \<and> builtNode sp m \<and> mergeNode sp m k = k)"

definition clusterAt :: "wiring \<Rightarrow> tenant \<Rightarrow> ModelRef \<Rightarrow> ModelNode \<Rightarrow> cluster \<Rightarrow> bool" where
  "clusterAt w tid ref k g \<longleftrightarrow>
     (\<exists>d. map_of (models_of (cl_inner g) tid) ref = Some d \<and> sp_Unmarshal (w_spi w) (md_Schema d) = Some k \<and> md_Ref d = ref) \<and>
     builtNode (w_spi w) k \<and>
     (\<forall>i e. mc_entries (cl_caches g i) (tid, ref) = Some e \<longrightarrow> descOf (w_spi w) ref k (ce_desc e)) \<and>
     (\<forall>q d. cl_held g q = Some d \<longrightarrow> descOf (w_spi w) ref k d) \<and>
     (\<forall>v \<in> set (cl_accepted g). Validate (w_spi w) k v = [])"

definition clusterStart :: "wiring \<Rightarrow> tenant \<Rightarrow> ModelRef \<Rightarrow> cluster \<Rightarrow> bool" where
  "clusterStart w tid ref g \<longleftrightarrow>
     (\<exists>d k. map_of (models_of (cl_inner g) tid) ref = Some d \<and> md_Ref d = ref \<and>
        sp_Unmarshal (w_spi w) (md_Schema d) = Some k \<and> builtNode (w_spi w) k) \<and>
     (\<forall>i. cl_caches g i = NewCache) \<and> (\<forall>q. cl_held g q = None) \<and> cl_accepted g = []"

text \<open>A cluster with one locked model that may change structurally and has seen no document.\<close>

definition plainRef :: ModelRef where
  "plainRef = \<lparr>EntityName = ''order'', ModelVersion = ''1''\<rparr>"

definition plainDescriptor :: ModelDescriptor where
  "plainDescriptor = \<lparr>md_Ref = plainRef, md_State = ModelLocked, md_ChangeLevel = ''STRUCTURAL'',
     md_Schema = encSx (nodeSx emptyModel), md_UniqueKeys = []\<rparr>"

definition plainWiring :: wiring where
  "plainWiring = \<lparr>w_spi = plainSchema, w_enc = (\<lambda>tid ref. Some (encSx (Sx tid [Sx (EntityName ref) [], Sx (ModelVersion ref) []]))),
     w_dec = (\<lambda>b. case readSx b of Some (Sx t [Sx n [], Sx v []]) \<Rightarrow> Some (t, \<lparr>EntityName = n, ModelVersion = v\<rparr>) | _ \<Rightarrow> None),
     w_broadcaster = True\<rparr>"

definition plainCluster :: cluster where
  "plainCluster = \<lparr>cl_inner = [''t'' \<mapsto> [(plainRef, plainDescriptor)]], cl_caches = (\<lambda>_. NewCache), cl_sent = [],
     cl_held = (\<lambda>_. None), cl_accepted = []\<rparr>"

subsection \<open>The cached store is a schema store\<close>

lemma cs_inner_invalidate [simp]: "cs_inner (invalidate enc b tid ref s) = cs_inner s"
  by (simp add: invalidate_def Let_def split: option.split)

lemma evict_entries [simp]:
  "mc_entries (evict key c) = (mc_entries c)(key := None)"
  "mc_entries (notifyLocalSubscribers key c) = mc_entries c"
  by (simp_all add: evict_def notifyLocalSubscribers_def)

lemma invalidate_entries [simp]:
  "mc_entries (cs_cache (invalidate enc b tid ref s)) = (mc_entries (cs_cache s))((tid, ref) := None)"
  by (simp add: invalidate_def Let_def split: option.split)

interpretation cst: schema_store sp "Caching_ExtendSchema enc b (Some (makeSchemaApply sp)) tid" "\<lambda>ref s. storedNode sp tid ref (cs_inner s)"
  for sp enc b tid
proof
  fix delta ref k k' and s :: cachedStore
  assume "schema_laws sp" "delta \<noteq> []" "storedNode sp tid ref (cs_inner s) = Some k" "Apply sp k delta = Inr k'"
  then obtain m where "ModelStore_ExtendSchema (Some (makeSchemaApply sp)) tid ref delta (cs_inner s) = (Ok (), m)"
      "storedNode sp tid ref m = Some k'"
    using mst.extend_applies by blast
  then show "\<exists>s'. Caching_ExtendSchema enc b (Some (makeSchemaApply sp)) tid ref delta s = (Ok (), s') \<and>
      storedNode sp tid ref (cs_inner s') = Some k'"
    by (simp add: Caching_ExtendSchema_def throughInner_def)
next
  fix ref delta e and s s' :: cachedStore
  assume "Caching_ExtendSchema enc b (Some (makeSchemaApply sp)) tid ref delta s = (Err e, s')"
  then show "storedNode sp tid ref (cs_inner s') = storedNode sp tid ref (cs_inner s)"
    using mst.extend_fails by (auto simp: Caching_ExtendSchema_def throughInner_def split: prod.splits sum.splits)
next
  fix ref k and s :: cachedStore
  assume "schema_laws sp" "storedNode sp tid ref (cs_inner s) = Some k"
  then show "canon sp k" by (rule mst.stored_canon)
qed

lemma ValidateOrExtend_state:
  "ValidateOrExtend sp ext desc v s = (res, s') \<Longrightarrow> s' = s \<or> (\<exists>delta. s' = snd (ext (md_Ref desc) delta s))"
  by (auto simp: ValidateOrExtend_def split: option.splits if_splits sum.splits prod.splits) (metis snd_conv)+

subsection \<open>What a step leaves\<close>

text \<open>An operation of a node only evicts, or stores what it read.\<close>

lemma Caching_Get_spec:
  assumes "Caching_Get sp tid ref t1 t2 lease s = (Ok d, s')"
  shows "cs_inner s' = cs_inner s" "(\<exists>e. mc_entries (cs_cache s) (tid, ref) = Some e \<and> ce_desc e = d) \<or> ModelStore_Get tid ref (cs_inner s) = Ok d"
    "mc_entries (cs_cache s') (tid, ref) = Some e \<Longrightarrow> mc_entries (cs_cache s) (tid, ref) = Some e \<or> ce_desc e = d"
  using assms by (auto simp: Caching_Get_def cacheLookup_def lookupEntry_def cacheStore_def split: option.splits sum.splits if_splits)

lemma RefreshAndGet_spec:
  assumes "RefreshAndGet sp tid ref t2 lease s = (Ok d, s')"
  shows "cs_inner s' = cs_inner s" "ModelStore_Get tid ref (cs_inner s) = Ok d"
    "mc_entries (cs_cache s') (tid, ref) = Some e \<Longrightarrow> ce_desc e = d"
  using assms by (auto simp: RefreshAndGet_def Let_def cacheStore_def split: sum.splits if_splits)

lemma throughInner_spec:
  assumes "throughInner enc b tid ref f s = (r, s')"
  shows "cs_inner s' = snd (f (cs_inner s))"
    "mc_entries (cs_cache s') (tid, ref) = Some e \<Longrightarrow> mc_entries (cs_cache s) (tid, ref) = Some e"
  using assms by (auto simp: throughInner_def split: prod.splits sum.splits if_splits)

lemma extend_keeps_ref:
  assumes "map_of (models_of m tid) ref = Some d"
  shows "\<exists>d'. map_of (models_of (snd (ModelStore_ExtendSchema f tid ref delta m)) tid) ref = Some d' \<and> md_Ref d' = md_Ref d"
  using assms by (auto simp: ModelStore_ExtendSchema_def split: option.split sum.split)

lemma setEntry_keeps:
  assumes "map_of (models_of m tid) ref = Some d"
  shows "map_of (models_of (snd (setEntry tid ref g m)) tid) ref = Some (g d)"
  using assms by (simp add: setEntry_def)

lemma descOf_up:
  assumes "types_laws (w_spi w)" "canon (w_spi w) k" "canon (w_spi w) k'" "mergeNode (w_spi w) k k' = k'" "descOf (w_spi w) ref k d"
  shows "descOf (w_spi w) ref k' d"
proof -
  obtain m where m: "sp_Unmarshal (w_spi w) (md_Schema d) = Some m" "builtNode (w_spi w) m" "mergeNode (w_spi w) m k = k" "md_Ref d = ref"
    using assms(5) by (auto simp: descOf_def)
  then have "mergeNode (w_spi w) m k' = k'"
    using merge_assoc [OF assms(1) _ assms(2,3), of m] assms(4) by (simp add: builtNode_def)
  then show ?thesis using m by (auto simp: descOf_def)
qed

lemma clusterAt_grow:
  assumes sp: "schema_laws (w_spi w)" and g: "clusterAt w tid ref k g"
    and k': "map_of (models_of (cl_inner h) tid) ref = Some d" "sp_Unmarshal (w_spi w) (md_Schema d) = Some k'" "md_Ref d = ref"
      "builtNode (w_spi w) k'" "mergeNode (w_spi w) k k' = k'"
    and entries: "\<And>i e. mc_entries (cl_caches h i) (tid, ref) = Some e \<Longrightarrow>
      (\<exists>j. mc_entries (cl_caches g j) (tid, ref) = Some e) \<or> descOf (w_spi w) ref k' (ce_desc e)"
    and held: "\<And>q d. cl_held h q = Some d \<Longrightarrow> (\<exists>p. cl_held g p = Some d) \<or> descOf (w_spi w) ref k' d"
    and acc: "\<And>v. v \<in> set (cl_accepted h) \<Longrightarrow> v \<in> set (cl_accepted g) \<or> Validate (w_spi w) k' v = []"
  shows "clusterAt w tid ref k' h"
proof -
  have c: "canon (w_spi w) k" "canon (w_spi w) k'" using g k'(4) by (simp_all add: clusterAt_def builtNode_def)
  have up: "descOf (w_spi w) ref k' x" if "descOf (w_spi w) ref k x" for x
    by (rule descOf_up [OF laws_types [OF sp] c k'(5) that])
  have ok: "Validate (w_spi w) k' v = []" if "Validate (w_spi w) k v = []" for v
    by (rule Validate_above [OF sp c k'(5) that])
  show ?thesis
    unfolding clusterAt_def
  proof (intro conjI allI ballI impI)
    show "\<exists>d. map_of (models_of (cl_inner h) tid) ref = Some d \<and> sp_Unmarshal (w_spi w) (md_Schema d) = Some k' \<and> md_Ref d = ref"
      using k' by blast
    show "builtNode (w_spi w) k'" by (rule k')
    show "descOf (w_spi w) ref k' (ce_desc e)" if "mc_entries (cl_caches h i) (tid, ref) = Some e" for i e
      using entries [OF that] g up unfolding clusterAt_def by blast
    show "descOf (w_spi w) ref k' d" if "cl_held h q = Some d" for q d
      using held [OF that] g up unfolding clusterAt_def by blast
    show "Validate (w_spi w) k' v = []" if "v \<in> set (cl_accepted h)" for v
      using acc [OF that] g ok unfolding clusterAt_def by blast
  qed
qed

lemma stored_desc:
  assumes "schema_laws (w_spi w)" "clusterAt w tid ref k g" "ModelStore_Get tid ref (cl_inner g) = Ok d"
  shows "descOf (w_spi w) ref k d"
  using assms merge_idem [OF laws_types [OF assms(1)], of k]
  by (auto simp: clusterAt_def descOf_def ModelStore_Get_def builtNode_def split: option.splits)

text \<open>A step that leaves the stored schema alone.\<close>

lemma clusterAt_frame:
  assumes "schema_laws (w_spi w)" "clusterAt w tid ref k g"
    and "map_of (models_of (cl_inner h) tid) ref = Some d" "md_Ref d = ref" "sp_Unmarshal (w_spi w) (md_Schema d) = Some k"
    and "\<And>i e. mc_entries (cl_caches h i) (tid, ref) = Some e \<Longrightarrow>
      (\<exists>j. mc_entries (cl_caches g j) (tid, ref) = Some e) \<or> descOf (w_spi w) ref k (ce_desc e)"
    and "\<And>q d. cl_held h q = Some d \<Longrightarrow> (\<exists>p. cl_held g p = Some d) \<or> descOf (w_spi w) ref k d"
    and "cl_accepted h = cl_accepted g"
  shows "clusterAt w tid ref k h"
proof -
  have b: "builtNode (w_spi w) k" using assms(2) by (simp add: clusterAt_def)
  then have "mergeNode (w_spi w) k k = k" using merge_idem [OF laws_types [OF assms(1)]] by (simp add: builtNode_def)
  then show ?thesis by (rule clusterAt_grow [OF assms(1-3,5,4) b]) (use assms(6,7) in blast, use assms(6,7) in blast, simp add: assms(8))
qed

lemma admin_step:
  assumes sp: "schema_laws (w_spi w)" and g: "clusterAt w tid ref k g"
    and s: "throughInner enc b tid ref (setEntry tid ref f) (nodeView i g) = (r, s)"
    and f: "\<And>d. md_Ref (f d) = md_Ref d \<and> md_Schema (f d) = md_Schema d"
  shows "clusterAt w tid ref k (nodeDone i s g)"
proof -
  obtain d where d: "map_of (models_of (cl_inner g) tid) ref = Some d" "sp_Unmarshal (w_spi w) (md_Schema d) = Some k" "md_Ref d = ref"
    using g by (auto simp: clusterAt_def)
  note t = throughInner_spec [OF s]
  show ?thesis
    using setEntry_keeps [OF d(1), of f] d(2,3) f t
    by (intro clusterAt_frame [OF sp g, of _ "f d"]) (auto simp: nodeDone_def nodeView_def split: if_splits)
qed

lemma submit_step:
  assumes sp: "schema_laws (w_spi w)" and g: "clusterAt w tid ref k g"
    and h: "cl_held g q = Some d" "decoded (w_spi w) v" "ingestAt w tid i d v g = (res, s)"
  shows "\<exists>k'. clusterAt w tid ref k'
    ((nodeDone i s g)\<lparr>cl_accepted := (if res = Inr () then v # cl_accepted g else cl_accepted g)\<rparr>)"
proof -
  have dd: "descOf (w_spi w) ref k d" using g h(1) by (simp add: clusterAt_def)
  then obtain m where m: "sp_Unmarshal (w_spi w) (md_Schema d) = Some m" "builtNode (w_spi w) m" "mergeNode (w_spi w) m k = k"
      and r: "md_Ref d = ref" by (auto simp: descOf_def)
  obtain d0 where d0: "map_of (models_of (cl_inner g) tid) ref = Some d0" "sp_Unmarshal (w_spi w) (md_Schema d0) = Some k" "md_Ref d0 = ref"
    and b: "builtNode (w_spi w) k" using g by (auto simp: clusterAt_def)
  have st: "storedNode (w_spi w) tid (md_Ref d) (cs_inner (nodeView i g)) = Some k" using d0 r by (simp add: nodeView_def storedNode_def)
  obtain k' where k': "storedNode (w_spi w) tid ref (cs_inner s) = Some k'" "builtNode (w_spi w) k'" "mergeNode (w_spi w) k k' = k'"
      "res = Inr () \<longrightarrow> Validate (w_spi w) k' v = []"
    using cst.ingest_keeps [OF sp m(1,2) st m(3) b h(2) h(3) [unfolded ingestAt_def]] r by blast
  obtain d' where d': "map_of (models_of (cs_inner s) tid) ref = Some d'" "sp_Unmarshal (w_spi w) (md_Schema d') = Some k'"
    using k'(1) by (auto simp: storedNode_def split: option.splits)
  have frame: "md_Ref d' = ref \<and> (\<forall>e. mc_entries (cs_cache s) (tid, ref) = Some e \<longrightarrow> mc_entries (cl_caches g i) (tid, ref) = Some e)"
    using ValidateOrExtend_state [OF h(3) [unfolded ingestAt_def]]
  proof (elim disjE exE)
    assume "s = nodeView i g"
    then show ?thesis using d0 d' by (simp add: nodeView_def)
  next
    fix delta
    assume s: "s = snd (Caching_ExtendSchema (w_enc w) (w_broadcaster w) (Some (makeSchemaApply (w_spi w))) tid (md_Ref d) delta (nodeView i g))"
    obtain u where u: "throughInner (w_enc w) (w_broadcaster w) tid ref
        (ModelStore_ExtendSchema (Some (makeSchemaApply (w_spi w))) tid ref delta) (nodeView i g) = (u, s)"
      using s r by (cases "Caching_ExtendSchema (w_enc w) (w_broadcaster w) (Some (makeSchemaApply (w_spi w))) tid (md_Ref d) delta (nodeView i g)")
         (simp add: Caching_ExtendSchema_def)
    show ?thesis
      using throughInner_spec [OF u] extend_keeps_ref [OF d0(1), of "Some (makeSchemaApply (w_spi w))" delta] d' d0(3)
      by (auto simp: nodeView_def)
  qed
  have "clusterAt w tid ref k' ((nodeDone i s g)\<lparr>cl_accepted := (if res = Inr () then v # cl_accepted g else cl_accepted g)\<rparr>)"
    using frame d' k' by (intro clusterAt_grow [OF sp g, of _ d']) (auto simp: nodeDone_def split: if_splits)
  then show ?thesis by blast
qed

lemma clusterAt_local:
  assumes "schema_laws (w_spi w)" "clusterAt w tid ref k g" "cl_inner h = cl_inner g" "cl_accepted h = cl_accepted g"
    and "\<And>i e. mc_entries (cl_caches h i) (tid, ref) = Some e \<Longrightarrow>
      (\<exists>j. mc_entries (cl_caches g j) (tid, ref) = Some e) \<or> descOf (w_spi w) ref k (ce_desc e)"
    and "\<And>q d. cl_held h q = Some d \<Longrightarrow> (\<exists>p. cl_held g p = Some d) \<or> descOf (w_spi w) ref k d"
  shows "clusterAt w tid ref k h"
proof -
  obtain d where "map_of (models_of (cl_inner h) tid) ref = Some d" "md_Ref d = ref" "sp_Unmarshal (w_spi w) (md_Schema d) = Some k"
    using assms(2,3) by (auto simp: clusterAt_def)
  then show ?thesis by (rule clusterAt_frame [OF assms(1,2)]) (use assms(5,6) in blast, use assms(5,6) in blast, rule assms(4))
qed

lemma clusterAt_step:
  assumes sp: "schema_laws (w_spi w)" and g: "clusterAt w tid ref k g" and step: "clusterStep w tid ref g h"
  shows "\<exists>k'. clusterAt w tid ref k' h"
  using step
proof cases
  case (read t1 t2 lease i d s q)
  note spec = Caching_Get_spec [OF read(2)]
  have "descOf (w_spi w) ref k d"
    using spec(2) g stored_desc [OF sp g] by (auto simp: clusterAt_def nodeView_def)
  then have "clusterAt w tid ref k h"
    using spec(1,3) read(1) by (intro clusterAt_local [OF sp g]) (auto simp: nodeDone_def nodeView_def split: if_splits)
  then show ?thesis by blast
next
  case (refresh t2 lease i d s q)
  note spec = RefreshAndGet_spec [OF refresh(2)]
  have "descOf (w_spi w) ref k d" using spec(2) stored_desc [OF sp g] by (auto simp: nodeView_def)
  then have "clusterAt w tid ref k h"
    using spec(1,3) refresh(1) by (intro clusterAt_local [OF sp g]) (auto simp: nodeDone_def nodeView_def split: if_splits)
  then show ?thesis by blast
next
  case (share q d q')
  then have "clusterAt w tid ref k h" by (intro clusterAt_local [OF sp g]) (auto split: if_splits)
  then show ?thesis by blast
next
  case (submit q d v i res s)
  then show ?thesis using submit_step [OF sp g] by simp
next
  case (lock i r s)
  then show ?thesis using admin_step [OF sp g] unfolding Caching_Lock_def ModelStore_Lock_def by fastforce
next
  case (unlock i r s)
  then show ?thesis using admin_step [OF sp g] unfolding Caching_Unlock_def ModelStore_Unlock_def by fastforce
next
  case (level l i r s)
  then show ?thesis using admin_step [OF sp g] unfolding Caching_SetChangeLevel_def ModelStore_SetChangeLevel_def by fastforce
next
  case (deliver payload i)
  then have "clusterAt w tid ref k h"
    by (intro clusterAt_local [OF sp g]) (auto simp: handleInvalidation_def split: if_splits option.splits)
  then show ?thesis by blast
next
  case (populate q d i t2 lease)
  then have "descOf (w_spi w) ref k d" using g by (simp add: clusterAt_def)
  then have "clusterAt w tid ref k h"
    using populate(1) by (intro clusterAt_local [OF sp g]) (auto simp: cacheStore_def split: if_splits)
  then show ?thesis by blast
next
  case (dropped i)
  then have "clusterAt w tid ref k h" by (intro clusterAt_local [OF sp g]) (auto split: if_splits)
  then show ?thesis by blast
qed

interpretation cl: transition_system "clusterStart w tid ref" "clusterStep w tid ref" for w tid ref .

lemma cluster_invariant:
  assumes sp: "schema_laws (w_spi w)" and g: "cl.reachable w tid ref g"
  shows "\<exists>k. clusterAt w tid ref k g"
  using g
proof (rule cl.invariant_holds)
  show "\<exists>k. clusterAt w tid ref k g" if "clusterStart w tid ref g" for g
    using that by (auto simp: clusterStart_def clusterAt_def NewCache_def)
  show "\<exists>k. clusterAt w tid ref k h" if "\<exists>k. clusterAt w tid ref k g" "clusterStep w tid ref g h" for g h
    using clusterAt_step [OF sp] that by blast
qed

end
